(* ===== verification/Prelude.thy ===== *)
theory Prelude
  imports Main "HOL-Library.Word"
begin

text \<open>
  Shared vocabulary of the development: byte strings and Python text as lists, the exceptions
  the SDK raises as values of a datatype, results as a sum (\<open>Inl\<close> an exception, \<open>Inr\<close> a value),
  the sequencing combinators the models are written with, little- and big-endian integers as
  \<open>struct.pack\<close> and \<open>int.to_bytes\<close> lay them out, and the interface of a self-delimiting encoder:
  the law from which every digest preimage of the SDK is shown to be injective.
\<close>

section \<open>Types\<close>

type_synonym byte = "8 word"
type_synonym bytes = "byte list"

text \<open>A Python \<open>str\<close> is a list of Unicode code points.\<close>

type_synonym ustr = "nat list"

text \<open>An ASCII literal as a Python \<open>str\<close>, and as \<open>bytes\<close>.\<close>

definition ustr :: "string \<Rightarrow> ustr" where
  "ustr s = map of_char s"

definition bstr :: "string \<Rightarrow> bytes" where
  "bstr s = map of_char s"

named_theorems res_simps \<open>rewriting of results\<close>
named_theorems bytes_simps \<open>evaluation of literals and integer layouts\<close>

section \<open>Exceptions and results\<close>

text \<open>
  The exceptions that reach a caller of the crypto layer. \<open>UnicodeEncodeError\<close>,
  \<open>UnicodeDecodeError\<close>, \<open>BinasciiError\<close> and the three classes of \<open>crypto.py\<close> are subclasses of
  \<open>ValueError\<close>; \<open>StructError\<close> (\<open>struct.error\<close>) is not.
\<close>

datatype py_exn =
    TypeError
  | ValueError
  | KeyError
  | AttributeError
  | OverflowError
  | StructError
  | UnicodeEncodeError
  | UnicodeDecodeError
  | BinasciiError
  | JSONDecodeError
  | RecursionError
  | InvalidSignature
  | RecordDigestStripError string nat
  | UnsupportedRecordDigestVersion
  | ContextProvenanceError nat string

definition is_ValueError :: "py_exn \<Rightarrow> bool" where
  "is_ValueError e =
     (case e of
        ValueError \<Rightarrow> True
      | UnicodeEncodeError \<Rightarrow> True
      | UnicodeDecodeError \<Rightarrow> True
      | BinasciiError \<Rightarrow> True
      | JSONDecodeError \<Rightarrow> True
      | RecordDigestStripError _ _ \<Rightarrow> True
      | UnsupportedRecordDigestVersion \<Rightarrow> True
      | ContextProvenanceError _ _ \<Rightarrow> True
      | _ \<Rightarrow> False)"

type_synonym 'a res = "py_exn + 'a"

fun rbind :: "'e + 'a \<Rightarrow> ('a \<Rightarrow> 'e + 'b) \<Rightarrow> 'e + 'b" where
  "rbind (Inl e) f = Inl e"
| "rbind (Inr x) f = f x"

text \<open>\<open>if cond: raise e\<close>, followed by the rest of the function.\<close>

definition guard :: "bool \<Rightarrow> 'e \<Rightarrow> 'e + unit" where
  "guard ok e = (if ok then Inr () else Inl e)"

text \<open>A list comprehension whose body may raise: left to right, the first exception wins.\<close>

fun mapR :: "('a \<Rightarrow> 'e + 'b) \<Rightarrow> 'a list \<Rightarrow> 'e + 'b list" where
  "mapR f [] = Inr []"
| "mapR f (x # xs) = rbind (f x) (\<lambda>y. rbind (mapR f xs) (\<lambda>ys. Inr (y # ys)))"

text \<open>\<open>a + b + ...\<close> (or \<open>b"".join\<close>) over byte strings that may each raise, left to right.\<close>

fun cat :: "('e + 'b list) list \<Rightarrow> 'e + 'b list" where
  "cat [] = Inr []"
| "cat (x # xs) = rbind x (\<lambda>b. rbind (cat xs) (\<lambda>c. Inr (b @ c)))"

section \<open>Integer layouts\<close>

text \<open>\<open>k\<close> bytes of \<open>n\<close>, least significant first, and most significant first.\<close>

fun le_bytes :: "nat \<Rightarrow> nat \<Rightarrow> bytes" where
  "le_bytes 0 n = []"
| "le_bytes (Suc k) n = of_nat (n mod 256) # le_bytes k (n div 256)"

fun le_val :: "bytes \<Rightarrow> nat" where
  "le_val [] = 0"
| "le_val (b # bs) = unat b + 256 * le_val bs"

definition be_bytes :: "nat \<Rightarrow> nat \<Rightarrow> bytes" where
  "be_bytes k n = rev (le_bytes k n)"

text \<open>\<open>struct.pack("<I", n)\<close> and \<open>struct.pack("<Q", n)\<close> for a non-negative \<open>n\<close>: \<open>struct.error\<close>
  when it does not fit. \<open>n.to_bytes(8, "big")\<close> raises \<open>OverflowError\<close> there.\<close>

definition pack_u32 :: "nat \<Rightarrow> bytes res" where
  "pack_u32 n = (if n < 2 ^ 32 then Inr (le_bytes 4 n) else Inl StructError)"

definition pack_u64 :: "nat \<Rightarrow> bytes res" where
  "pack_u64 n = (if n < 2 ^ 64 then Inr (le_bytes 8 n) else Inl StructError)"

definition to_bytes_8_big :: "nat \<Rightarrow> bytes res" where
  "to_bytes_8_big n = (if n < 2 ^ 64 then Inr (be_bytes 8 n) else Inl OverflowError)"

section \<open>Lemmas on results\<close>

lemma length_literals [simp]: "length (bstr s) = length s" "length (ustr s) = length s"
  by (simp_all add: bstr_def ustr_def)

lemma rbind_eq_Inr [res_simps]:
  "rbind m f = Inr y \<longleftrightarrow> (\<exists>x. m = Inr x \<and> f x = Inr y)"
  by (cases m) auto

lemma rbind_eq_Inl [res_simps]:
  "rbind m f = Inl e \<longleftrightarrow> m = Inl e \<or> (\<exists>x. m = Inr x \<and> f x = Inl e)"
  by (cases m) auto

lemma guard_eq_Inr [res_simps]: "guard ok e = Inr u \<longleftrightarrow> ok"
  by (simp add: guard_def)

lemma guard_eq_Inl [res_simps]: "guard ok e = Inl e' \<longleftrightarrow> \<not> ok \<and> e' = e"
  by (auto simp: guard_def)

lemma guard_simps [simp]: "guard True e = Inr ()" "guard False e = Inl e"
  by (simp_all add: guard_def)

lemma rbind_assoc: "rbind (rbind m f) g = rbind m (\<lambda>x. rbind (f x) g)"
  by (cases m) auto

lemma rbind_cong [fundef_cong]:
  "m = m' \<Longrightarrow> (\<And>x. m' = Inr x \<Longrightarrow> f x = g x) \<Longrightarrow> rbind m f = rbind m' g"
  by (cases m') auto

lemma mapR_eq_Inr:
  "mapR f xs = Inr ys \<longleftrightarrow> list_all2 (\<lambda>x y. f x = Inr y) xs ys"
proof (induction xs arbitrary: ys)
  case Nil
  then show ?case by auto
next
  case (Cons x xs)
  then show ?case by (cases ys) (auto simp: res_simps)
qed

lemma mapR_length: "mapR f xs = Inr ys \<Longrightarrow> length ys = length xs"
  by (auto simp: mapR_eq_Inr dest: list_all2_lengthD)

lemma mapR_cong [fundef_cong]:
  "xs = ys \<Longrightarrow> (\<And>x. x \<in> set ys \<Longrightarrow> f x = g x) \<Longrightarrow> mapR f xs = mapR g ys"
  by (induction ys arbitrary: xs) auto

text \<open>An injective partial function maps lists injectively.\<close>

lemma mapR_inj:
  assumes inj: "\<And>x y b. x \<in> set xs \<Longrightarrow> f x = Inr b \<Longrightarrow> f y = Inr b \<Longrightarrow> x = y"
    and "mapR f xs = Inr bs" and "mapR f ys = Inr bs"
  shows "xs = ys"
  using assms
proof (induction xs arbitrary: ys bs)
  case Nil
  then show ?case by (auto simp: mapR_eq_Inr)
next
  case (Cons x xs)
  then obtain b cs where b: "bs = b # cs" "f x = Inr b" "mapR f xs = Inr cs"
    by (auto simp: res_simps)
  with Cons.prems(3) obtain y zs where y: "ys = y # zs" "f y = Inr b" "mapR f zs = Inr cs"
    by (cases ys) (auto simp: res_simps)
  have "xs = zs"
    using Cons.IH [of cs zs] Cons.prems(1) b(3) y(3) by auto
  with Cons.prems(1) [of x b y] b(2) y(1,2) show ?case by auto
qed

lemma cat_eq_Inr:
  "cat xs = Inr b \<longleftrightarrow> (\<exists>bs. xs = map Inr bs \<and> b = concat bs)"
proof (induction xs arbitrary: b)
  case Nil
  then show ?case by auto
next
  case (Cons x xs)
  show ?case
  proof
    assume "cat (x # xs) = Inr b"
    then obtain c d where *: "x = Inr c" "cat xs = Inr d" "b = c @ d"
      by (auto simp: res_simps)
    from *(2) obtain ds where "xs = map Inr ds" "d = concat ds"
      using Cons.IH by blast
    with * have "x # xs = map Inr (c # ds)" "b = concat (c # ds)" by auto
    then show "\<exists>bs. x # xs = map Inr bs \<and> b = concat bs" by (intro exI conjI)
  next
    assume "\<exists>bs. x # xs = map Inr bs \<and> b = concat bs"
    then obtain c cs where "x = Inr c" "xs = map Inr cs" "b = c @ concat cs"
      by (auto simp: Cons_eq_map_conv)
    moreover from this have "cat xs = Inr (concat cs)"
      using Cons.IH by blast
    ultimately show "cat (x # xs) = Inr b" by simp
  qed
qed

lemma cat_eq_Inl: "cat xs = Inl e \<Longrightarrow> Inl e \<in> set xs"
  by (induction xs) (auto simp: res_simps)

lemma cat_append:
  "cat (xs @ ys) = rbind (cat xs) (\<lambda>b. rbind (cat ys) (\<lambda>c. Inr (b @ c)))"
proof (induction xs)
  case Nil
  then show ?case by (cases "cat ys") auto
next
  case (Cons x xs)
  then show ?case by (cases x; cases "cat xs"; cases "cat ys") auto
qed

section \<open>Lemmas on integer layouts\<close>

lemma length_le_bytes [simp]: "length (le_bytes k n) = k"
  by (induction k arbitrary: n) auto

lemma length_be_bytes [simp]: "length (be_bytes k n) = k"
  by (simp add: be_bytes_def)

lemma le_val_le_bytes: "le_val (le_bytes k n) = n mod 256 ^ k"
proof (induction k arbitrary: n)
  case 0
  then show ?case by simp
next
  case (Suc k)
  have "unat (of_nat (n mod 256) :: byte) = n mod 256"
    by (simp add: unat_of_nat)
  then show ?case
    by (simp add: Suc mod_mult2_eq mult.commute add.commute)
qed

lemma le_bytes_inj:
  "le_bytes k m = le_bytes k n \<Longrightarrow> m < 256 ^ k \<Longrightarrow> n < 256 ^ k \<Longrightarrow> m = n"
  by (metis le_val_le_bytes mod_less)

lemma be_bytes_inj:
  "be_bytes k m = be_bytes k n \<Longrightarrow> m < 256 ^ k \<Longrightarrow> n < 256 ^ k \<Longrightarrow> m = n"
  by (auto simp: be_bytes_def dest: le_bytes_inj)

lemma pow_256: "(256::nat) ^ 4 = 2 ^ 32" "(256::nat) ^ 8 = 2 ^ 64"
  by simp_all

lemma pack_u32_inj: "pack_u32 m = Inr b \<Longrightarrow> pack_u32 n = Inr b \<Longrightarrow> m = n"
  by (auto simp: pack_u32_def simp flip: pow_256 split: if_splits dest: le_bytes_inj)

lemma pack_u64_inj: "pack_u64 m = Inr b \<Longrightarrow> pack_u64 n = Inr b \<Longrightarrow> m = n"
  by (auto simp: pack_u64_def simp flip: pow_256 split: if_splits dest: le_bytes_inj)

lemma to_bytes_8_big_inj: "to_bytes_8_big m = Inr b \<Longrightarrow> to_bytes_8_big n = Inr b \<Longrightarrow> m = n"
  by (auto simp: to_bytes_8_big_def simp flip: pow_256 split: if_splits dest: be_bytes_inj)

lemma length_pack_u32: "pack_u32 n = Inr b \<Longrightarrow> length b = 4"
  by (auto simp: pack_u32_def split: if_splits)

lemma length_pack_u64: "pack_u64 n = Inr b \<Longrightarrow> length b = 8"
  by (auto simp: pack_u64_def split: if_splits)

lemma length_to_bytes_8_big: "to_bytes_8_big n = Inr b \<Longrightarrow> length b = 8"
  by (auto simp: to_bytes_8_big_def split: if_splits)

section \<open>The interface of a self-delimiting encoder\<close>

text \<open>
  An encoder that may raise is self-delimiting when a reader of the concatenated bytes can tell
  where its output ends: whatever follows, equal streams begin with the same encoded value and
  continue with equal rests. A concatenation of such encodings is then injective field by field,
  which is what \<open>peel\<close> (one field) and \<open>peel_map\<close> (a counted run of fields) give to the clients.
\<close>

locale self_delimiting =
  fixes enc :: "'a \<Rightarrow> 'e + 'b list"
  assumes delim: "enc x = Inr b \<Longrightarrow> enc y = Inr c \<Longrightarrow> b @ r = c @ s \<Longrightarrow> x = y \<and> r = s"
begin

lemma peel:
  assumes "cat (enc x # xs) = Inr b" and "cat (enc y # ys) = Inr b"
  shows "x = y \<and> (\<exists>c. cat xs = Inr c \<and> cat ys = Inr c)"
proof -
  from assms obtain p q r s where "enc x = Inr p" "cat xs = Inr r" "b = p @ r"
    "enc y = Inr q" "cat ys = Inr s" "b = q @ s"
    by (auto simp: res_simps)
  then show ?thesis using delim [of x p y q r s] by auto
qed

lemma peel_map:
  assumes "length xs = length ys"
    and "cat (map enc xs @ ps) = Inr b" and "cat (map enc ys @ qs) = Inr b"
  shows "xs = ys \<and> (\<exists>c. cat ps = Inr c \<and> cat qs = Inr c)"
  using assms
proof (induction xs ys arbitrary: b rule: list_induct2)
  case Nil
  then show ?case by auto
next
  case (Cons x xs y ys)
  then have "cat (enc x # (map enc xs @ ps)) = Inr b" "cat (enc y # (map enc ys @ qs)) = Inr b"
    by simp_all
  from peel [OF this] Cons.IH show ?case by blast
qed

text \<open>The same two facts as elimination rules, to take a payload apart field by field.\<close>

lemma peelE:
  assumes "cat (enc x # xs) = Inr b" and "cat (enc y # ys) = Inr b"
    and "\<And>c. x = y \<Longrightarrow> cat xs = Inr c \<Longrightarrow> cat ys = Inr c \<Longrightarrow> P"
  shows P
  using peel [OF assms(1,2)] assms(3) by blast

lemma enc_inj: "enc x = Inr b \<Longrightarrow> enc y = Inr b \<Longrightarrow> x = y"
  using delim [of x b y b "[]" "[]"] by simp

end

text \<open>Encoding a value first with an injective partial function keeps the law.\<close>

lemma self_delimiting_comp:
  assumes "self_delimiting enc"
    and inj: "\<And>x y v. f x = Inr v \<Longrightarrow> f y = Inr v \<Longrightarrow> x = y"
  shows "self_delimiting (\<lambda>x. rbind (f x) enc)"
proof
  fix x y b c r s
  assume "rbind (f x) enc = Inr b" "rbind (f y) enc = Inr c" and eq: "b @ r = c @ s"
  then obtain u v where uv: "f x = Inr u" "enc u = Inr b" "f y = Inr v" "enc v = Inr c"
    by (auto simp: res_simps)
  then have "u = v \<and> r = s" using self_delimiting.delim [OF assms(1)] eq by blast
  with uv inj show "x = y \<and> r = s" by blast
qed

text \<open>An encoder that concatenates parts is self-delimiting when the parts can be taken off any
  pair of equal streams.\<close>

lemma self_delimiting_parts:
  assumes "\<And>x y ps qs b. cat (parts x @ ps) = Inr b \<Longrightarrow> cat (parts y @ qs) = Inr b \<Longrightarrow>
    x = y \<and> (\<exists>c. cat ps = Inr c \<and> cat qs = Inr c)"
  shows "self_delimiting (\<lambda>x. cat (parts x))"
proof
  fix x y b c r s
  assume "cat (parts x) = Inr b" "cat (parts y) = Inr c" and "b @ r = c @ s"
  then have "cat (parts x @ [Inr r]) = Inr (b @ r)" "cat (parts y @ [Inr s]) = Inr (b @ r)"
    by (simp_all add: cat_append)
  from assms [OF this] show "x = y \<and> r = s" by auto
qed

text \<open>A fixed-width injective encoder is self-delimiting.\<close>

lemma self_delimiting_fixed:
  assumes inj: "\<And>x y b. enc x = Inr b \<Longrightarrow> enc y = Inr b \<Longrightarrow> x = y"
    and width: "\<And>x b. enc x = Inr b \<Longrightarrow> length b = k"
  shows "self_delimiting enc"
  by unfold_locales (metis append_eq_append_conv inj width)

text \<open>A value preceded by its length is self-delimiting, whatever self-delimiting header carries
  the length.\<close>

lemma self_delimiting_length_prefix:
  assumes "self_delimiting hdr"
  shows "self_delimiting (\<lambda>x. cat [hdr (length x), Inr x])"
proof
  fix x y b c r s
  assume "cat [hdr (length x), Inr x] = Inr b" "cat [hdr (length y), Inr y] = Inr c"
    and eq: "b @ r = c @ s"
  then obtain h k where hk: "hdr (length x) = Inr h" "b = h @ x" "hdr (length y) = Inr k" "c = k @ y"
    by (auto simp: res_simps)
  with eq have "h @ (x @ r) = k @ (y @ s)" by simp
  from self_delimiting.delim [OF assms hk(1,3) this] have "length x = length y" "x @ r = y @ s"
    by auto
  then show "x = y \<and> r = s" by simp
qed

end
