(* ===== verification/Unicode.thy ===== *)
theory Unicode
  imports Prelude "HOL-Library.List_Lexorder"
begin

text \<open>
  The text codecs of the Python standard library that the SDK calls: strict UTF-8 in both
  directions (\<open>str.encode()\<close>, \<open>bytes.decode("utf-8")\<close>) and UTF-16-BE encoding, whose byte order is
  the RFC 8785 key order. A lone surrogate is a legal code point of a \<open>str\<close> and has no encoding, so
  encoding raises. The round trips in both directions make UTF-8 a bijection between the encodable
  strings and the well-formed byte strings; the injectivity of every signed payload rests on it.
\<close>

section \<open>UTF-8\<close>

definition utf8_cp :: "nat \<Rightarrow> bytes res" where
  "utf8_cp c =
     (if c < 0x80 then Inr [of_nat c]
      else if c < 0x800 then Inr [of_nat (0xC0 + c div 64), of_nat (0x80 + c mod 64)]
      else if 0xD800 \<le> c \<and> c \<le> 0xDFFF then Inl UnicodeEncodeError
      else if c < 0x10000 then
        Inr [of_nat (0xE0 + c div 4096), of_nat (0x80 + c div 64 mod 64), of_nat (0x80 + c mod 64)]
      else if c < 0x110000 then
        Inr [of_nat (0xF0 + c div 262144), of_nat (0x80 + c div 4096 mod 64),
             of_nat (0x80 + c div 64 mod 64), of_nat (0x80 + c mod 64)]
      else Inl UnicodeEncodeError)"

definition utf8_encode :: "ustr \<Rightarrow> bytes res" where
  "utf8_encode s = cat (map utf8_cp s)"

definition utf8_cont :: "byte \<Rightarrow> bool" where
  "utf8_cont b = (0x80 \<le> unat b \<and> unat b < 0xC0)"

definition utf8_tail :: "byte \<Rightarrow> nat" where
  "utf8_tail b = unat b - 0x80"

text \<open>One code point off the front of a byte string: overlong forms, surrogates and values past
  U+10FFFF are refused, as the strict decoder refuses them.\<close>

fun utf8_step :: "bytes \<Rightarrow> (nat \<times> bytes) option" where
  "utf8_step [] = None"
| "utf8_step (b0 # r) =
     (let n = unat b0 in
      if n < 0x80 then Some (n, r)
      else if n < 0xC0 then None
      else if n < 0xE0 then
        (case r of
           b1 # r' \<Rightarrow>
             let c = (n - 0xC0) * 64 + utf8_tail b1 in
             if utf8_cont b1 \<and> 0x80 \<le> c then Some (c, r') else None
         | _ \<Rightarrow> None)
      else if n < 0xF0 then
        (case r of
           b1 # b2 # r' \<Rightarrow>
             let c = (n - 0xE0) * 4096 + utf8_tail b1 * 64 + utf8_tail b2 in
             if utf8_cont b1 \<and> utf8_cont b2 \<and> 0x800 \<le> c \<and> \<not> (0xD800 \<le> c \<and> c \<le> 0xDFFF)
             then Some (c, r') else None
         | _ \<Rightarrow> None)
      else if n < 0xF8 then
        (case r of
           b1 # b2 # b3 # r' \<Rightarrow>
             let c = (n - 0xF0) * 262144 + utf8_tail b1 * 4096 + utf8_tail b2 * 64 + utf8_tail b3 in
             if utf8_cont b1 \<and> utf8_cont b2 \<and> utf8_cont b3 \<and> 0x10000 \<le> c \<and> c < 0x110000
             then Some (c, r') else None
         | _ \<Rightarrow> None)
      else None)"

lemma utf8_step_shorter: "utf8_step bs = Some (c, r) \<Longrightarrow> length r < length bs"
  by (cases bs) (auto simp: Let_def split: if_splits list.splits)

function utf8_decode :: "bytes \<Rightarrow> ustr res" where
  "utf8_decode bs =
     (if bs = [] then Inr []
      else case utf8_step bs of
             None \<Rightarrow> Inl UnicodeDecodeError
           | Some (c, r) \<Rightarrow> rbind (utf8_decode r) (\<lambda>cs. Inr (c # cs)))"
  by pat_completeness auto
termination
  by (relation "measure length") (auto dest: utf8_step_shorter)

declare utf8_decode.simps [simp del]

section \<open>UTF-16-BE\<close>

definition utf16_unit :: "nat \<Rightarrow> bytes" where
  "utf16_unit u = [of_nat (u div 256), of_nat (u mod 256)]"

definition utf16_cp :: "nat \<Rightarrow> bytes res" where
  "utf16_cp c =
     (if 0xD800 \<le> c \<and> c \<le> 0xDFFF then Inl UnicodeEncodeError
      else if c < 0x10000 then Inr (utf16_unit c)
      else if c < 0x110000 then
        Inr (utf16_unit (0xD800 + (c - 0x10000) div 1024) @
             utf16_unit (0xDC00 + (c - 0x10000) mod 1024))
      else Inl UnicodeEncodeError)"

definition utf16_be_encode :: "ustr \<Rightarrow> bytes res" where
  "utf16_be_encode s = cat (map utf16_cp s)"

section \<open>Round trips\<close>

lemma unat_byte_of_nat: "n < 256 \<Longrightarrow> unat (of_nat n :: byte) = n"
  by (simp add: unat_of_nat)

lemma unat_byte_lt: "unat (b :: byte) < 256"
  using unsigned_less [of b] by simp

text \<open>Splitting a number into base-64 digits and back.\<close>

lemma div_mod_64: "a < 64 \<Longrightarrow> (q * 64 + a) div 64 = q \<and> (q * 64 + a) mod 64 = (a :: nat)"
  by simp

lemma div_4096: "c div 4096 = c div 64 div (64 :: nat)"
  by (simp add: div_mult2_eq [symmetric])

lemma div_262144: "c div 262144 = c div 64 div 64 div (64 :: nat)"
  by (simp add: div_mult2_eq [symmetric])

lemma digits64_three: "c div 4096 * 4096 + c div 64 mod 64 * 64 + c mod 64 = (c :: nat)"
proof -
  have "c div 4096 * 64 + c div 64 mod 64 = c div 64" unfolding div_4096 by (rule div_mult_mod_eq)
  moreover have "c div 64 * 64 + c mod 64 = c" by simp
  ultimately show ?thesis by linarith
qed

lemma digits64_four:
  "c div 262144 * 262144 + c div 4096 mod 64 * 4096 + c div 64 mod 64 * 64 + c mod 64 = (c :: nat)"
proof -
  have "c div 262144 * 64 + c div 4096 mod 64 = c div 4096"
    unfolding div_262144 div_4096 by (rule div_mult_mod_eq)
  with digits64_three [of c] show ?thesis by linarith
qed

lemma digits64_unique3:
  assumes "a < 64" "b < 64" "c = q * 4096 + a * 64 + (b :: nat)"
  shows "c div 4096 = q \<and> c div 64 mod 64 = a \<and> c mod 64 = b"
proof -
  have c: "c = (q * 64 + a) * 64 + b" using assms(3) by simp
  have "c div 64 = q * 64 + a \<and> c mod 64 = b" unfolding c using assms(2) by (rule div_mod_64)
  with div_mod_64 [OF assms(1), of q] show ?thesis by (simp add: div_4096)
qed

lemma digits64_unique4:
  assumes "a < 64" "b < 64" "d < 64" "c = q * 262144 + a * 4096 + b * 64 + (d :: nat)"
  shows "c div 262144 = q \<and> c div 4096 mod 64 = a \<and> c div 64 mod 64 = b \<and> c mod 64 = d"
proof -
  have c: "c = (q * 4096 + a * 64 + b) * 64 + d" using assms(4) by simp
  have "c div 64 = q * 4096 + a * 64 + b \<and> c mod 64 = d"
    unfolding c using assms(3) by (rule div_mod_64)
  with digits64_unique3 [OF assms(1,2) refl, of q] show ?thesis
    by (simp add: div_4096 div_262144)
qed

lemma utf8_cont_of_nat: "n < 64 \<Longrightarrow> utf8_cont (of_nat (0x80 + n)) \<and> utf8_tail (of_nat (0x80 + n)) = n"
  by (simp add: utf8_cont_def utf8_tail_def unat_byte_of_nat del: of_nat_add)

lemma utf8_cont_tail: "utf8_cont b \<Longrightarrow> of_nat (0x80 + utf8_tail b) = b \<and> utf8_tail b < 64"
  by (auto simp: utf8_cont_def utf8_tail_def simp del: of_nat_add)

text \<open>Decoding one encoded code point gives it back, with whatever followed it.\<close>

lemma utf8_step_cp:
  assumes "utf8_cp c = Inr b"
  shows "utf8_step (b @ r) = Some (c, r)"
proof -
  consider (one) "c < 0x80" | (two) "0x80 \<le> c" "c < 0x800"
    | (three) "0x800 \<le> c" "c < 0x10000" "\<not> (0xD800 \<le> c \<and> c \<le> 0xDFFF)"
    | (four) "0x10000 \<le> c" "c < 0x110000"
    using assms by (force simp: utf8_cp_def split: if_splits)
  then show ?thesis
  proof cases
    case one
    then show ?thesis using assms by (auto simp: utf8_cp_def unat_byte_of_nat Let_def)
  next
    case two
    then have "b = [of_nat (0xC0 + c div 64), of_nat (0x80 + c mod 64)]" "c div 64 < 32"
      using assms by (auto simp: utf8_cp_def)
    with two show ?thesis
      by (simp add: unat_byte_of_nat utf8_cont_of_nat Let_def del: of_nat_add)
  next
    case three
    then have "b = [of_nat (0xE0 + c div 4096), of_nat (0x80 + c div 64 mod 64), of_nat (0x80 + c mod 64)]"
      "c div 4096 < 16"
      using assms by (auto simp: utf8_cp_def)
    with three show ?thesis
      by (simp add: unat_byte_of_nat utf8_cont_of_nat Let_def digits64_three del: of_nat_add)
  next
    case four
    then have "b = [of_nat (0xF0 + c div 262144), of_nat (0x80 + c div 4096 mod 64),
        of_nat (0x80 + c div 64 mod 64), of_nat (0x80 + c mod 64)]" "c div 262144 < 5"
      using assms by (auto simp: utf8_cp_def)
    with four show ?thesis
      by (simp add: unat_byte_of_nat utf8_cont_of_nat Let_def digits64_four del: of_nat_add)
  qed
qed

text \<open>A decoded code point re-encodes to exactly the bytes it was read from.\<close>

lemma utf8_step_inverse:
  assumes "utf8_step bs = Some (c, r)"
  obtains b where "utf8_cp c = Inr b" "bs = b @ r"
proof -
  from assms obtain b0 t where bs: "bs = b0 # t" by (cases bs) auto
  define n where "n = unat b0"
  have b0: "b0 = of_nat n" and n: "n < 256" by (simp_all add: n_def unat_byte_lt)
  consider (one) "n < 0x80" | (two) "0xC0 \<le> n" "n < 0xE0" | (three) "0xE0 \<le> n" "n < 0xF0"
    | (four) "0xF0 \<le> n" "n < 0xF8"
    using assms bs by (force simp: n_def Let_def split: if_splits)
  then show ?thesis
  proof cases
    case one
    with assms bs have "c = n" "r = t" by (auto simp: n_def Let_def)
    with one bs b0 show ?thesis by (intro that [of "[b0]"]) (auto simp: utf8_cp_def)
  next
    case two
    with assms bs obtain b1 where *: "t = b1 # r" "utf8_cont b1" "c = (n - 0xC0) * 64 + utf8_tail b1" "0x80 \<le> c"
      by (auto simp: n_def Let_def split: if_splits list.splits)
    have t1: "utf8_tail b1 < 64" "of_nat (0x80 + utf8_tail b1) = b1"
      using utf8_cont_tail [OF *(2)] by auto
    have "c < 0x800" using two t1(1) *(3) by linarith
    moreover have "c div 64 = n - 0xC0 \<and> c mod 64 = utf8_tail b1"
      unfolding *(3) using t1(1) by (rule div_mod_64)
    ultimately have "utf8_cp c = Inr [b0, b1]"
      using two *(4) t1(2) by (simp add: utf8_cp_def b0 del: of_nat_add)
    with bs *(1) show ?thesis by (intro that [of "[b0, b1]"]) auto
  next
    case three
    with assms bs obtain b1 b2 where *: "t = b1 # b2 # r" "utf8_cont b1" "utf8_cont b2"
      "c = (n - 0xE0) * 4096 + utf8_tail b1 * 64 + utf8_tail b2"
      "0x800 \<le> c" "\<not> (0xD800 \<le> c \<and> c \<le> 0xDFFF)"
      by (auto simp: n_def Let_def split: if_splits list.splits)
    have t: "utf8_tail b1 < 64" "of_nat (0x80 + utf8_tail b1) = b1"
       "utf8_tail b2 < 64" "of_nat (0x80 + utf8_tail b2) = b2"
      using utf8_cont_tail [OF *(2)] utf8_cont_tail [OF *(3)] by auto
    have "c < 0x10000" using three t(1,3) *(4) by linarith
    with digits64_unique3 [OF t(1,3) *(4)] have "utf8_cp c = Inr [b0, b1, b2]"
      using three *(5,6) t(2,4) by (simp add: utf8_cp_def b0 del: of_nat_add)
    with bs *(1) show ?thesis by (intro that [of "[b0, b1, b2]"]) auto
  next
    case four
    with assms bs obtain b1 b2 b3 where *: "t = b1 # b2 # b3 # r" "utf8_cont b1" "utf8_cont b2" "utf8_cont b3"
      "c = (n - 0xF0) * 262144 + utf8_tail b1 * 4096 + utf8_tail b2 * 64 + utf8_tail b3"
      "0x10000 \<le> c" "c < 0x110000"
      by (auto simp: n_def Let_def split: if_splits list.splits)
    have t: "utf8_tail b1 < 64" "of_nat (0x80 + utf8_tail b1) = b1"
       "utf8_tail b2 < 64" "of_nat (0x80 + utf8_tail b2) = b2"
       "utf8_tail b3 < 64" "of_nat (0x80 + utf8_tail b3) = b3"
      using utf8_cont_tail [OF *(2)] utf8_cont_tail [OF *(3)] utf8_cont_tail [OF *(4)] by auto
    from digits64_unique4 [OF t(1,3,5) *(5)] have "utf8_cp c = Inr [b0, b1, b2, b3]"
      using four *(6,7) t(2,4,6) by (simp add: utf8_cp_def b0 del: of_nat_add)
    with bs *(1) show ?thesis by (intro that [of "[b0, b1, b2, b3]"]) auto
  qed
qed

interpretation utf8: self_delimiting utf8_cp
proof
  fix x y b c r s
  assume "utf8_cp x = Inr b" "utf8_cp y = Inr c" "b @ r = c @ s"
  then show "x = y \<and> r = s" using utf8_step_cp by (metis option.inject prod.inject)
qed

lemma utf8_cp_nonempty: "utf8_cp c = Inr b \<Longrightarrow> b \<noteq> []"
  by (auto simp: utf8_cp_def split: if_splits)

lemma utf8_decode_encode: "utf8_encode s = Inr b \<Longrightarrow> utf8_decode b = Inr s"
proof (induction s arbitrary: b)
  case Nil
  then show ?case by (simp add: utf8_encode_def utf8_decode.simps)
next
  case (Cons c s)
  then obtain p q where "utf8_cp c = Inr p" "utf8_encode s = Inr q" "b = p @ q"
    by (auto simp: utf8_encode_def res_simps)
  moreover from this have "b \<noteq> []" by (auto dest: utf8_cp_nonempty)
  ultimately show ?case using Cons.IH by (subst utf8_decode.simps) (auto simp: utf8_step_cp)
qed

lemma utf8_encode_decode: "utf8_decode b = Inr s \<Longrightarrow> utf8_encode s = Inr b"
proof (induction b arbitrary: s rule: utf8_decode.induct)
  case (1 b)
  show ?case
  proof (cases "b = []")
    case True
    with 1(2) show ?thesis by (auto simp: utf8_decode.simps utf8_encode_def)
  next
    case False
    with 1(2) obtain c r cs where *: "utf8_step b = Some (c, r)" "utf8_decode r = Inr cs" "s = c # cs"
      by (subst (asm) utf8_decode.simps) (auto simp: res_simps split: option.splits)
    then have "utf8_encode cs = Inr r" using 1(1) [OF False] by auto
    moreover obtain p where "utf8_cp c = Inr p" "b = p @ r" using utf8_step_inverse [OF *(1)] by auto
    ultimately show ?thesis using *(3) by (auto simp: utf8_encode_def)
  qed
qed

lemma utf8_encode_inj: "utf8_encode s = Inr b \<Longrightarrow> utf8_encode t = Inr b \<Longrightarrow> s = t"
  by (metis utf8_decode_encode sum.inject(2))

lemma utf8_encode_exn: "utf8_encode s = Inl e \<Longrightarrow> e = UnicodeEncodeError"
  by (induction s) (auto simp: utf8_encode_def utf8_cp_def res_simps split: if_splits)

text \<open>ASCII text encodes to itself.\<close>

lemma utf8_encode_ascii: "\<forall>c \<in> set s. c < 0x80 \<Longrightarrow> utf8_encode s = Inr (map of_nat s)"
  by (induction s) (auto simp: utf8_encode_def utf8_cp_def)

end
