(* ===== verification/Codecs.thy ===== *)
theory Codecs
  imports Unicode
begin

text \<open>
  The byte-to-text codecs of \<open>crypto.py\<close> and \<open>dpop.py\<close>: unpadded base64url over the standard
  library's encoder and its lenient decoder, lower-case hex, and the agent identifier (AID) that
  embeds a public key. The interface \<open>codec\<close> states the round-trip law and derives injectivity; it is
  interpreted on base64url, hex and the AID.
\<close>

section \<open>The interface of a codec\<close>

text \<open>A partial encoder with a decoder that undoes it.\<close>

locale partial_codec =
  fixes enc :: "'a \<Rightarrow> 'e + 'c" and dec :: "'c \<Rightarrow> 'f + 'a"
  assumes dec_enc: "enc x = Inr c \<Longrightarrow> dec c = Inr x"
begin

lemma enc_inj: "enc x = Inr c \<Longrightarrow> enc y = Inr c \<Longrightarrow> x = y"
  using dec_enc [of x c] dec_enc [of y c] by simp

end

text \<open>A total encoder is a partial one that never raises.\<close>

locale codec =
  fixes enc :: "'a \<Rightarrow> 'c" and dec :: "'c \<Rightarrow> 'f + 'a"
  assumes roundtrip: "dec (enc x) = Inr x"

sublocale codec \<subseteq> total: partial_codec "\<lambda>x. Inr (enc x)" dec
  by unfold_locales (auto simp: roundtrip)

context codec
begin

lemma inj: "enc x = enc y \<Longrightarrow> x = y"
  using total.enc_inj [of x "enc x" y] by simp

lemma eq_iff: "enc x = enc y \<longleftrightarrow> x = y"
  using inj by blast

end

section \<open>Base64url\<close>

text \<open>The URL-safe alphabet, and its inverse as the decoder reads it: \<open>urlsafe_b64decode\<close>
  translates \<open>-_\<close> to \<open>+/\<close> and then decodes standard base64, so both spellings are accepted.\<close>

definition b64_char :: "nat \<Rightarrow> nat" where
  "b64_char v =
     (if v < 26 then 65 + v
      else if v < 52 then 97 + (v - 26)
      else if v < 62 then 48 + (v - 52)
      else if v = 62 then 45
      else 95)"

definition b64_index :: "nat \<Rightarrow> nat option" where
  "b64_index c =
     (if 65 \<le> c \<and> c \<le> 90 then Some (c - 65)
      else if 97 \<le> c \<and> c \<le> 122 then Some (c - 97 + 26)
      else if 48 \<le> c \<and> c \<le> 57 then Some (c - 48 + 52)
      else if c = 45 \<or> c = 43 then Some 62
      else if c = 95 \<or> c = 47 then Some 63
      else None)"

abbreviation pad_char :: nat where
  "pad_char \<equiv> 61"

fun urlsafe_b64encode :: "bytes \<Rightarrow> ustr" where
  "urlsafe_b64encode [] = []"
| "urlsafe_b64encode [a] =
     [b64_char (unat a div 4), b64_char (unat a mod 4 * 16), pad_char, pad_char]"
| "urlsafe_b64encode [a, b] =
     [b64_char (unat a div 4), b64_char (unat a mod 4 * 16 + unat b div 16),
      b64_char (unat b mod 16 * 4), pad_char]"
| "urlsafe_b64encode (a # b # c # r) =
     b64_char (unat a div 4) # b64_char (unat a mod 4 * 16 + unat b div 16) #
     b64_char (unat b mod 16 * 4 + unat c div 64) # b64_char (unat c mod 64) #
     urlsafe_b64encode r"

definition rstrip :: "nat \<Rightarrow> ustr \<Rightarrow> ustr" where
  "rstrip c s = rev (dropWhile (\<lambda>x. x = c) (rev s))"

definition b64url_nopad :: "bytes \<Rightarrow> ustr" where
  "b64url_nopad b = rstrip pad_char (urlsafe_b64encode b)"

text \<open>
  \<open>binascii.a2b_base64\<close> in its default, non-strict mode: \<open>q\<close> is the position in the quad, \<open>l\<close> the
  bits left over, \<open>p\<close> the padding characters seen since the last data character. Characters outside
  the alphabet are skipped; a complete pad sequence ends the input; a partial quad at the end raises.
\<close>

fun a2b_base64 :: "nat \<Rightarrow> nat \<Rightarrow> nat \<Rightarrow> ustr \<Rightarrow> bytes res" where
  "a2b_base64 q l p [] = (if q = 0 then Inr [] else Inl BinasciiError)"
| "a2b_base64 q l p (c # cs) =
     (if c = pad_char then
        (if 2 \<le> q then
           (if 4 \<le> q + (p + 1) then Inr [] else a2b_base64 q l (p + 1) cs)
         else a2b_base64 q l p cs)
      else
        (case b64_index c of
           None \<Rightarrow> a2b_base64 q l p cs
         | Some v \<Rightarrow>
             (if q = 0 then a2b_base64 1 v 0 cs
              else if q = 1 then
                rbind (a2b_base64 2 (v mod 16) 0 cs) (\<lambda>r. Inr (of_nat (l * 4 + v div 16) # r))
              else if q = 2 then
                rbind (a2b_base64 3 (v mod 4) 0 cs) (\<lambda>r. Inr (of_nat (l * 16 + v div 4) # r))
              else
                rbind (a2b_base64 0 0 0 cs) (\<lambda>r. Inr (of_nat (l * 64 + v) # r)))))"

definition urlsafe_b64decode :: "ustr \<Rightarrow> bytes res" where
  "urlsafe_b64decode s =
     (if \<forall>c \<in> set s. c < 0x80 then a2b_base64 0 0 0 s else Inl ValueError)"

text \<open>\<open>"=" * (-len(s) % 4)\<close>.\<close>

definition b64_padding :: "nat \<Rightarrow> ustr" where
  "b64_padding n = replicate ((4 - n mod 4) mod 4) pad_char"

definition b64url_decode :: "ustr \<Rightarrow> bytes res" where
  "b64url_decode s = urlsafe_b64decode (s @ b64_padding (length s))"

section \<open>Hex\<close>

definition hex_digit :: "nat \<Rightarrow> nat" where
  "hex_digit v = (if v < 10 then 48 + v else 97 + (v - 10))"

definition hex_value :: "nat \<Rightarrow> nat option" where
  "hex_value c =
     (if 48 \<le> c \<and> c \<le> 57 then Some (c - 48)
      else if 97 \<le> c \<and> c \<le> 102 then Some (c - 97 + 10)
      else if 65 \<le> c \<and> c \<le> 70 then Some (c - 65 + 10)
      else None)"

fun hex :: "bytes \<Rightarrow> ustr" where
  "hex [] = []"
| "hex (b # bs) = hex_digit (unat b div 16) # hex_digit (unat b mod 16) # hex bs"

definition is_ascii_space :: "nat \<Rightarrow> bool" where
  "is_ascii_space c = (c = 32 \<or> (9 \<le> c \<and> c \<le> 13))"

text \<open>\<open>bytes.fromhex\<close>: ASCII whitespace is skipped between bytes, never inside one.\<close>

fun fromhex :: "ustr \<Rightarrow> bytes res" where
  "fromhex [] = Inr []"
| "fromhex (c # cs) =
     (if is_ascii_space c then fromhex cs
      else case cs of
             [] \<Rightarrow> Inl ValueError
           | d # ds \<Rightarrow>
               (case (hex_value c, hex_value d) of
                  (Some h, Some l) \<Rightarrow> rbind (fromhex ds) (\<lambda>r. Inr (of_nat (h * 16 + l) # r))
                | _ \<Rightarrow> Inl ValueError))"

section \<open>ASCII and decimal\<close>

text \<open>\<open>s.encode("ascii")\<close>.\<close>

definition ascii_encode :: "ustr \<Rightarrow> bytes res" where
  "ascii_encode s =
     (if \<forall>c \<in> set s. c < 0x80 then Inr (map of_nat s) else Inl UnicodeEncodeError)"

text \<open>\<open>str(n)\<close> on an int.\<close>

fun str_nat :: "nat \<Rightarrow> ustr" where
  "str_nat n = (if n < 10 then [48 + n] else str_nat (n div 10) @ [48 + n mod 10])"

declare str_nat.simps [simp del]

definition str_int :: "int \<Rightarrow> ustr" where
  "str_int n = (if n < 0 then 45 # str_nat (nat (- n)) else str_nat (nat n))"

section \<open>Agent identifiers\<close>

definition AID_PREFIX :: ustr where
  "AID_PREFIX = ustr ''aid:pubkey:ed25519:''"

definition AID_PREFIX_SHORT :: ustr where
  "AID_PREFIX_SHORT = ustr ''aid:pubkey:''"

definition aid_from_pubkey :: "bytes \<Rightarrow> ustr" where
  "aid_from_pubkey pubkey = AID_PREFIX @ b64url_nopad pubkey"

definition startswith :: "'a list \<Rightarrow> 'a list \<Rightarrow> bool" where
  "startswith s p = (take (length p) s = p)"

definition aid_to_pubkey :: "ustr \<Rightarrow> bytes res" where
  "aid_to_pubkey aid =
     (if startswith aid AID_PREFIX then b64url_decode (drop (length AID_PREFIX) aid)
      else if startswith aid AID_PREFIX_SHORT then b64url_decode (drop (length AID_PREFIX_SHORT) aid)
      else Inl ValueError)"

section \<open>The base64url round trip\<close>

text \<open>The characters without the padding.\<close>

fun b64_chars :: "bytes \<Rightarrow> ustr" where
  "b64_chars [] = []"
| "b64_chars [a] = [b64_char (unat a div 4), b64_char (unat a mod 4 * 16)]"
| "b64_chars [a, b] =
     [b64_char (unat a div 4), b64_char (unat a mod 4 * 16 + unat b div 16),
      b64_char (unat b mod 16 * 4)]"
| "b64_chars (a # b # c # r) =
     b64_char (unat a div 4) # b64_char (unat a mod 4 * 16 + unat b div 16) #
     b64_char (unat b mod 16 * 4 + unat c div 64) # b64_char (unat c mod 64) # b64_chars r"

lemma b64_index_char: "v < 64 \<Longrightarrow> b64_index (b64_char v) = Some v"
  by (auto simp: b64_char_def b64_index_def)

lemma b64_char_not_pad [simp]: "b64_char v \<noteq> pad_char"
  by (auto simp: b64_char_def)

lemma b64_char_ascii: "b64_char v < 0x80"
  by (auto simp: b64_char_def)

lemma length_b64_chars: "length (b64_chars b) = (4 * length b + 2) div 3"
  by (induction b rule: b64_chars.induct) auto

lemma b64_chars_set: "c \<in> set (b64_chars b) \<Longrightarrow> \<exists>v. c = b64_char v"
  by (induction b rule: b64_chars.induct) auto

lemma b64_padding_simps:
  "b64_padding 0 = []" "b64_padding (Suc (Suc 0)) = [pad_char, pad_char]"
  "b64_padding (Suc (Suc (Suc 0))) = [pad_char]"
  "b64_padding (Suc (Suc (Suc (Suc n)))) = b64_padding n"
  by (auto simp: b64_padding_def numeral_2_eq_2)

lemma urlsafe_b64encode_chars:
  "urlsafe_b64encode b = b64_chars b @ b64_padding (length (b64_chars b))"
  by (induction b rule: b64_chars.induct) (auto simp: b64_padding_simps)

lemma rstrip_append_replicate:
  "c \<notin> set s \<Longrightarrow> rstrip c (s @ replicate n c) = s"
proof -
  assume c: "c \<notin> set s"
  have "dropWhile (\<lambda>x. x = c) (replicate n c @ rev s) = dropWhile (\<lambda>x. x = c) (rev s)"
    by (simp add: dropWhile_append)
  moreover have "dropWhile (\<lambda>x. x = c) (rev s) = rev s"
    using c hd_in_set [of "rev s"] by (auto simp: dropWhile_eq_self_iff)
  ultimately show ?thesis by (simp add: rstrip_def)
qed

lemma b64url_nopad_eq: "b64url_nopad b = b64_chars b"
proof -
  have "pad_char \<notin> set (b64_chars b)" using b64_chars_set by fastforce
  then show ?thesis
    by (simp add: b64url_nopad_def urlsafe_b64encode_chars b64_padding_def rstrip_append_replicate)
qed

lemma length_b64url_nopad: "length (b64url_nopad b) = (4 * length b + 2) div 3"
  by (simp add: b64url_nopad_eq length_b64_chars)

lemma byte_parts:
  fixes a b c :: byte
  shows "unat a div 4 < 64" "unat a mod 4 * 16 + unat b div 16 < 64" "unat a mod 4 * 16 < 64"
    "unat b mod 16 * 4 + unat c div 64 < 64" "unat b mod 16 * 4 < 64" "unat c mod 64 < 64"
  using unat_byte_lt [of a] unat_byte_lt [of b] unat_byte_lt [of c] by auto

lemma a2b_b64_chars:
  "a2b_base64 0 l p (b64_chars b @ b64_padding (length (b64_chars b))) = Inr b"
proof (induction b arbitrary: l p rule: b64_chars.induct)
  case 1
  then show ?case by (simp add: b64_padding_def)
next
  case (2 a)
  have "unat a div 4 * 4 + unat a mod 4 * 16 div 16 = unat a" by simp
  then show ?case
    by (simp add: b64_padding_simps b64_index_char byte_parts del: of_nat_add)
next
  case (3 a b)
  have "unat a div 4 * 4 + (unat a mod 4 * 16 + unat b div 16) div 16 = unat a"
    "(unat a mod 4 * 16 + unat b div 16) mod 16 * 16 + unat b mod 16 * 4 div 4 = unat b"
    using unat_byte_lt [of b] by auto
  then show ?case
    by (simp add: b64_padding_simps b64_index_char byte_parts del: of_nat_add)
next
  case (4 a b c r)
  have parts: "unat a div 4 * 4 + (unat a mod 4 * 16 + unat b div 16) div 16 = unat a"
    "(unat a mod 4 * 16 + unat b div 16) mod 16 * 16 + (unat b mod 16 * 4 + unat c div 64) div 4 = unat b"
    "(unat b mod 16 * 4 + unat c div 64) mod 4 * 64 + unat c mod 64 = unat c"
    using unat_byte_lt [of b] unat_byte_lt [of c] by auto
  show ?case using parts 4
    by (simp add: b64_padding_simps b64_index_char byte_parts del: of_nat_add)
qed

lemma b64url_ascii: "c \<in> set (b64url_nopad b) \<Longrightarrow> c < 0x80"
  using b64_chars_set b64_char_ascii by (fastforce simp: b64url_nopad_eq)

lemma b64url_roundtrip: "b64url_decode (b64url_nopad b) = Inr b"
proof -
  have "\<forall>c \<in> set (b64url_nopad b @ b64_padding n). c < 0x80" for n
    using b64url_ascii by (fastforce simp: b64_padding_def)
  then show ?thesis
    using a2b_b64_chars [of 0 0 b]
    by (simp add: b64url_decode_def urlsafe_b64decode_def b64url_nopad_eq)
qed

interpretation b64url: codec b64url_nopad b64url_decode
  by unfold_locales (rule b64url_roundtrip)

section \<open>The hex round trip\<close>

lemma hex_value_digit: "v < 16 \<Longrightarrow> hex_value (hex_digit v) = Some v"
  by (auto simp: hex_value_def hex_digit_def)

lemma hex_digit_not_space: "v < 16 \<Longrightarrow> \<not> is_ascii_space (hex_digit v)"
  by (auto simp: is_ascii_space_def hex_digit_def)

lemma fromhex_hex: "fromhex (hex b) = Inr b"
proof (induction b)
  case Nil
  then show ?case by simp
next
  case (Cons b bs)
  have "unat b div 16 < 16" "unat b mod 16 < 16" using unat_byte_lt [of b] by auto
  moreover have "unat b div 16 * 16 + unat b mod 16 = unat b" by simp
  ultimately show ?case using Cons
    by (simp add: hex_value_digit hex_digit_not_space del: of_nat_add)
qed

interpretation hexc: codec hex fromhex
  by unfold_locales (rule fromhex_hex)

lemma length_hex [simp]: "length (hex b) = 2 * length b"
  by (induction b) auto

section \<open>The AID round trip\<close>

lemma startswith_append [simp]: "startswith (p @ s) p"
  by (simp add: startswith_def)

lemma aid_roundtrip: "aid_to_pubkey (aid_from_pubkey k) = Inr k"
  by (simp add: aid_to_pubkey_def aid_from_pubkey_def b64url.roundtrip)

interpretation aid: codec aid_from_pubkey aid_to_pubkey
  by unfold_locales (rule aid_roundtrip)

section \<open>Decimal text\<close>

definition nat_of_digits :: "ustr \<Rightarrow> nat" where
  "nat_of_digits s = foldl (\<lambda>n c. 10 * n + (c - 48)) 0 s"

lemma nat_of_digits_str: "nat_of_digits (str_nat n) = n"
proof (induction n rule: str_nat.induct)
  case (1 n)
  then show ?case by (subst str_nat.simps) (simp add: nat_of_digits_def)
qed

lemma str_nat_digits: "c \<in> set (str_nat n) \<Longrightarrow> 48 \<le> c \<and> c \<le> 57"
proof (induction n arbitrary: c rule: str_nat.induct)
  case (1 n)
  from 1(2) show ?case
    by (subst (asm) str_nat.simps) (auto split: if_splits dest: 1(1))
qed

lemma str_nat_inj: "str_nat m = str_nat n \<Longrightarrow> m = n"
  by (metis nat_of_digits_str)

lemma str_nat_nonempty: "str_nat n \<noteq> []"
  by (subst str_nat.simps) simp

lemma str_int_chars: "c \<in> set (str_int n) \<Longrightarrow> 45 \<le> c \<and> c \<le> 57"
  by (auto simp: str_int_def dest: str_nat_digits split: if_splits)

lemma str_int_inj: "str_int m = str_int n \<Longrightarrow> m = n"
proof -
  have "str_nat a \<noteq> 45 # s" for a s
    using str_nat_digits [of 45 a] by auto
  moreover assume "str_int m = str_int n"
  ultimately have "(m < 0) = (n < 0)" "nat \<bar>m\<bar> = nat \<bar>n\<bar>"
    by (auto simp: str_int_def abs_if split: if_splits dest: str_nat_inj) (metis)+
  then show ?thesis by linarith
qed

end
