(* ===== verification/Pyval.thy ===== *)
theory Pyval
  imports Codecs
begin

text \<open>
  The Python values a caller may pass where the SDK type-checks at run time, and the parts of the
  language the SDK applies to them: \<open>isinstance\<close>, subscripting and \<open>get\<close> on a dict, iteration,
  \<open>str.encode\<close>, and the conversion of integers to IEEE doubles. A double is its 64-bit pattern, so
  that \<open>struct.pack(">d", x)\<close> is the big-endian layout of the word and every comparison is exact.
\<close>

section \<open>Doubles\<close>

type_synonym f64 = "64 word"

definition f64_negative :: "f64 \<Rightarrow> bool" where
  "f64_negative x = (2 ^ 63 \<le> unat x)"

definition f64_exponent :: "f64 \<Rightarrow> nat" where
  "f64_exponent x = unat x div 2 ^ 52 mod 2 ^ 11"

definition f64_fraction :: "f64 \<Rightarrow> nat" where
  "f64_fraction x = unat x mod 2 ^ 52"

definition f64_isfinite :: "f64 \<Rightarrow> bool" where
  "f64_isfinite x = (f64_exponent x \<noteq> 2047)"

definition f64_isnan :: "f64 \<Rightarrow> bool" where
  "f64_isnan x = (f64_exponent x = 2047 \<and> f64_fraction x \<noteq> 0)"

text \<open>The magnitude of a finite double, in units of \<open>2 ^ -1074\<close> (the least subnormal), and its
  signed value in the same units.\<close>

definition f64_units :: "f64 \<Rightarrow> nat" where
  "f64_units x =
     (if f64_exponent x = 0 then f64_fraction x
      else (2 ^ 52 + f64_fraction x) * 2 ^ (f64_exponent x - 1))"

definition f64_scaled :: "f64 \<Rightarrow> int" where
  "f64_scaled x = (if f64_negative x then - int (f64_units x) else int (f64_units x))"

abbreviation f64_unit :: int where
  "f64_unit \<equiv> 2 ^ 1074"

text \<open>\<open>int(x)\<close> on a finite double: truncation towards zero.\<close>

definition f64_trunc :: "f64 \<Rightarrow> int" where
  "f64_trunc x =
     (if f64_negative x then - (int (f64_units x) div f64_unit) else int (f64_units x) div f64_unit)"

text \<open>\<open>float(n)\<close> on an int: the nearest double, ties to even, \<open>OverflowError\<close> beyond the range.\<close>

fun bit_length :: "nat \<Rightarrow> nat" where
  "bit_length n = (if n = 0 then 0 else Suc (bit_length (n div 2)))"

declare bit_length.simps [simp del]

definition round_half_even :: "nat \<Rightarrow> nat \<Rightarrow> nat" where
  "round_half_even n d =
     (let q = n div d; r = n mod d
      in if 2 * r < d then q else if d < 2 * r then q + 1 else if even q then q else q + 1)"

definition f64_bits_of_nat :: "nat \<Rightarrow> nat" where
  "f64_bits_of_nat a =
     (if a = 0 then 0
      else let b = bit_length a;
               m = (if b \<le> 53 then a * 2 ^ (53 - b) else round_half_even a (2 ^ (b - 53)))
           in (b + 1021) * 2 ^ 52 + m)"

definition f64_of_int :: "int \<Rightarrow> f64 res" where
  "f64_of_int n =
     (let a = nat \<bar>n\<bar>; bits = f64_bits_of_nat a
      in if 1024 < bit_length a \<or> 2047 * 2 ^ 52 \<le> bits then Inl OverflowError
         else Inr (of_nat ((if n < 0 then 2 ^ 63 else 0) + bits)))"

text \<open>\<open>struct.pack(">d", x)\<close>.\<close>

definition pack_f64_be :: "f64 \<Rightarrow> bytes" where
  "pack_f64_be x = be_bytes 8 (unat x)"

section \<open>Values\<close>

text \<open>
  \<open>VBuffer itemsize contiguous data\<close> is an object with the buffer protocol other than \<open>bytes\<close> (a
  bytearray, an array, a memoryview); its data is \<open>None\<close> once released. \<open>VList\<close> stands for lists
  and tuples, \<open>VDict\<close> for a dict in insertion order, \<open>VObj\<close> for an object with none of the
  protocols the SDK asks for.
\<close>

datatype pyval =
    VNone
  | VBool bool
  | VInt int
  | VFloat f64
  | VStr ustr
  | VBytes bytes
  | VBuffer nat bool "bytes option"
  | VList "pyval list"
  | VDict "(pyval \<times> pyval) list"
  | VObj

definition is_str :: "pyval \<Rightarrow> bool" where
  "is_str v = (case v of VStr _ \<Rightarrow> True | _ \<Rightarrow> False)"

definition is_dict :: "pyval \<Rightarrow> bool" where
  "is_dict v = (case v of VDict _ \<Rightarrow> True | _ \<Rightarrow> False)"

text \<open>\<open>isinstance(v, int) and not isinstance(v, bool)\<close>, the integer test of the SDK.\<close>

definition is_plain_int :: "pyval \<Rightarrow> bool" where
  "is_plain_int v = (case v of VInt _ \<Rightarrow> True | _ \<Rightarrow> False)"

text \<open>\<open>v.encode()\<close>: only a str has it.\<close>

definition py_encode :: "pyval \<Rightarrow> bytes res" where
  "py_encode v = (case v of VStr s \<Rightarrow> utf8_encode s | _ \<Rightarrow> Inl AttributeError)"

text \<open>\<open>v[name]\<close> and \<open>v.get(name)\<close> with a str key.\<close>

definition py_getitem :: "pyval \<Rightarrow> ustr \<Rightarrow> pyval res" where
  "py_getitem v k =
     (case v of
        VDict d \<Rightarrow> (case map_of d (VStr k) of Some x \<Rightarrow> Inr x | None \<Rightarrow> Inl KeyError)
      | _ \<Rightarrow> Inl TypeError)"

definition py_get :: "pyval \<Rightarrow> ustr \<Rightarrow> pyval res" where
  "py_get v k =
     (case v of
        VDict d \<Rightarrow> Inr (case map_of d (VStr k) of Some x \<Rightarrow> x | None \<Rightarrow> VNone)
      | _ \<Rightarrow> Inl AttributeError)"

text \<open>\<open>list(v)\<close>. The elements of a buffer are numbers the SDK never accepts; they are opaque.\<close>

definition py_list :: "pyval \<Rightarrow> pyval list res" where
  "py_list v =
     (case v of
        VList xs \<Rightarrow> Inr xs
      | VStr s \<Rightarrow> Inr (map (\<lambda>c. VStr [c]) s)
      | VBytes b \<Rightarrow> Inr (map (\<lambda>x. VInt (uint x)) b)
      | VBuffer n _ (Some d) \<Rightarrow> Inr (replicate (length d div n) VObj)
      | VBuffer _ _ None \<Rightarrow> Inl ValueError
      | VDict d \<Rightarrow> Inr (map fst d)
      | _ \<Rightarrow> Inl TypeError)"

text \<open>\<open>bool(v)\<close>; a released buffer has no length.\<close>

definition py_truthy :: "pyval \<Rightarrow> bool res" where
  "py_truthy v =
     (case v of
        VNone \<Rightarrow> Inr False
      | VBool b \<Rightarrow> Inr b
      | VInt n \<Rightarrow> Inr (n \<noteq> 0)
      | VFloat x \<Rightarrow> Inr (f64_isnan x \<or> \<not> f64_isfinite x \<or> f64_units x \<noteq> 0)
      | VStr s \<Rightarrow> Inr (s \<noteq> [])
      | VBytes b \<Rightarrow> Inr (b \<noteq> [])
      | VBuffer _ _ (Some d) \<Rightarrow> Inr (d \<noteq> [])
      | VBuffer _ _ None \<Rightarrow> Inl ValueError
      | VList xs \<Rightarrow> Inr (xs \<noteq> [])
      | VDict d \<Rightarrow> Inr (d \<noteq> [])
      | VObj \<Rightarrow> Inr True)"

text \<open>\<open>bytes(v)\<close>: a copy of a buffer, that many zero bytes for an int, or the bytes an iterable of
  ints lists.\<close>

definition byte_of :: "pyval \<Rightarrow> byte res" where
  "byte_of v =
     (case v of
        VInt n \<Rightarrow> if 0 \<le> n \<and> n < 256 then Inr (of_int n) else Inl ValueError
      | VBool b \<Rightarrow> Inr (of_bool b)
      | _ \<Rightarrow> Inl TypeError)"

definition py_bytes :: "pyval \<Rightarrow> bytes res" where
  "py_bytes v =
     (case v of
        VBytes b \<Rightarrow> Inr b
      | VBuffer _ _ (Some d) \<Rightarrow> Inr d
      | VBuffer _ _ None \<Rightarrow> Inl ValueError
      | VInt n \<Rightarrow> if n < 0 then Inl ValueError else Inr (replicate (nat n) 0)
      | VBool b \<Rightarrow> Inr (replicate (of_bool b) 0)
      | VList xs \<Rightarrow> mapR byte_of xs
      | VDict d \<Rightarrow> mapR byte_of (map fst d)
      | _ \<Rightarrow> Inl TypeError)"

section \<open>Lemmas on doubles\<close>

lemma unat_f64_lt: "unat (x :: f64) < 2 ^ 64"
  using unsigned_less [of x] by simp

lemma unat_f64_of_nat: "n < 2 ^ 64 \<Longrightarrow> unat (of_nat n :: f64) = n"
  by (simp add: unat_of_nat)

lemma pack_f64_be_inj: "pack_f64_be x = pack_f64_be y \<Longrightarrow> x = y"
proof -
  assume "pack_f64_be x = pack_f64_be y"
  then have "unat x = unat y"
    using be_bytes_inj [of 8 "unat x" "unat y"] unat_f64_lt [of x] unat_f64_lt [of y]
    by (simp add: pack_f64_be_def)
  then show ?thesis by (simp add: word_unat_eq_iff)
qed

lemma length_pack_f64_be [simp]: "length (pack_f64_be x) = 8"
  by (simp add: pack_f64_be_def)

lemma bit_length_bounds: "n \<noteq> 0 \<Longrightarrow> 2 ^ (bit_length n - 1) \<le> n \<and> n < 2 ^ bit_length n"
proof (induction n rule: bit_length.induct)
  case (1 n)
  show ?case
  proof (cases "n div 2 = 0")
    case True
    with 1(2) have "n = 1" by linarith
    moreover have "bit_length 1 = 1" by (simp add: bit_length.simps)
    ultimately show ?thesis by simp
  next
    case False
    then have IH: "2 ^ (bit_length (n div 2) - 1) \<le> n div 2" "n div 2 < 2 ^ bit_length (n div 2)"
      using 1 by auto
    have "0 < bit_length (n div 2)"
      using False by (subst bit_length.simps) simp
    then obtain k where k: "bit_length (n div 2) = Suc k" using gr0_conv_Suc by blast
    have "bit_length n = Suc (Suc k)"
      using 1(2) k by (subst bit_length.simps) simp
    moreover have "2 * (n div 2) \<le> n" "n < 2 * (n div 2) + 2" by auto
    ultimately show ?thesis using IH k by auto
  qed
qed

lemma bit_length_pos: "n \<noteq> 0 \<Longrightarrow> 0 < bit_length n"
  by (subst bit_length.simps) simp

text \<open>An int below \<open>2 ^ 53\<close> in magnitude converts exactly.\<close>

lemma f64_bits_of_nat_small:
  assumes "a < 2 ^ 53" "a \<noteq> 0"
  shows "\<exists>b f. 1 \<le> b \<and> b \<le> 53 \<and> f < 2 ^ 52 \<and> f64_bits_of_nat a = (b + 1022) * 2 ^ 52 + f
    \<and> 2 ^ 52 + f = a * 2 ^ (53 - b)"
proof -
  let ?b = "bit_length a"
  have bnd: "2 ^ (?b - 1) \<le> a" "a < 2 ^ ?b" using bit_length_bounds assms(2) by auto
  have pos: "1 \<le> ?b" using bit_length_pos [OF assms(2)] by simp
  have le: "?b \<le> 53"
  proof (rule ccontr)
    assume "\<not> ?b \<le> 53"
    then have "(2::nat) ^ 53 \<le> 2 ^ (?b - 1)" by (intro power_increasing) auto
    with bnd(1) assms(1) show False by linarith
  qed
  have lo: "2 ^ 52 \<le> a * 2 ^ (53 - ?b)"
  proof -
    have "(2::nat) ^ (?b - 1) * 2 ^ (53 - ?b) = 2 ^ (?b - 1 + (53 - ?b))"
      by (rule power_add [symmetric])
    also have "?b - 1 + (53 - ?b) = 52" using pos le by simp
    finally have "(2::nat) ^ 52 = 2 ^ (?b - 1) * 2 ^ (53 - ?b)" by (rule sym)
    also have "\<dots> \<le> a * 2 ^ (53 - ?b)" using bnd(1) by (intro mult_right_mono) auto
    finally show ?thesis .
  qed
  have hi: "a * 2 ^ (53 - ?b) < 2 ^ 53"
  proof -
    have "a * 2 ^ (53 - ?b) < 2 ^ ?b * 2 ^ (53 - ?b)" using bnd(2) by (intro mult_strict_right_mono) auto
    also have "\<dots> = 2 ^ (?b + (53 - ?b))" by (rule power_add [symmetric])
    also have "?b + (53 - ?b) = 53" using le by simp
    finally show ?thesis .
  qed
  define f where "f = a * 2 ^ (53 - ?b) - 2 ^ 52"
  have f: "2 ^ 52 + f = a * 2 ^ (53 - ?b)" "f < 2 ^ 52" using lo hi by (auto simp: f_def)
  have "f64_bits_of_nat a = (?b + 1022) * 2 ^ 52 + f"
    using assms(2) le f(1) by (simp add: f64_bits_of_nat_def Let_def)
  with pos le f show ?thesis by blast
qed

text \<open>The fields of a double assembled from sign, exponent and fraction.\<close>

lemma f64_fields:
  assumes "e < 2047" "f < 2 ^ 52"
  shows "f64_exponent (of_nat ((if neg then 2 ^ 63 else 0) + (e * 2 ^ 52 + f))) = e"
    "f64_fraction (of_nat ((if neg then 2 ^ 63 else 0) + (e * 2 ^ 52 + f))) = f"
    "f64_negative (of_nat ((if neg then 2 ^ 63 else 0) + (e * 2 ^ 52 + f))) = neg"
proof -
  let ?s = "if neg then 2048 else 0 :: nat"
  let ?n = "(if neg then 2 ^ 63 else 0) + (e * 2 ^ 52 + f)"
  have n: "?n = (?s + e) * 2 ^ 52 + f" by simp
  have lt: "e * 2 ^ 52 + f < 2 ^ 63" using assms by simp
  then have "?n < 2 ^ 64" by auto
  then have u: "unat (of_nat ?n :: f64) = ?n" by (rule unat_f64_of_nat)
  have dm: "(k * 2 ^ 52 + f) div 2 ^ 52 = k" "(k * 2 ^ 52 + f) mod 2 ^ 52 = f" for k
    using assms(2) by simp_all
  have "?n div 2 ^ 52 = ?s + e" "?n mod 2 ^ 52 = f" unfolding n by (rule dm)+
  then show "f64_exponent (of_nat ?n) = e" "f64_fraction (of_nat ?n) = f"
    using assms unfolding f64_exponent_def f64_fraction_def u by auto
  show "f64_negative (of_nat ?n) = neg"
    unfolding f64_negative_def u using lt by auto
qed

lemma f64_of_int_exact:
  assumes "\<bar>n\<bar> < 2 ^ 53"
  shows "\<exists>x. f64_of_int n = Inr x \<and> f64_isfinite x \<and> f64_scaled x = n * f64_unit
    \<and> f64_negative x = (n < 0)"
proof (cases "n = 0")
  case True
  then show ?thesis
    by (auto simp: f64_of_int_def f64_bits_of_nat_def bit_length.simps f64_isfinite_def
        f64_exponent_def f64_scaled_def f64_units_def f64_fraction_def f64_negative_def)
next
  case False
  let ?a = "nat \<bar>n\<bar>"
  from False assms have a: "?a < 2 ^ 53" "?a \<noteq> 0" by auto
  obtain b f where b: "1 \<le> b" "b \<le> 53" "f < 2 ^ 52"
    and bits: "f64_bits_of_nat ?a = (b + 1022) * 2 ^ 52 + f" and m: "2 ^ 52 + f = ?a * 2 ^ (53 - b)"
    using f64_bits_of_nat_small [OF a] by blast
  have "bit_length ?a \<le> 1024"
  proof (rule ccontr)
    assume "\<not> bit_length ?a \<le> 1024"
    then have "(2::nat) ^ 53 \<le> 2 ^ (bit_length ?a - 1)" by (intro power_increasing) auto
    with bit_length_bounds [OF a(2)] a(1) show False by linarith
  qed
  moreover have "(b + 1022) * 2 ^ 52 + f < 2047 * 2 ^ 52" using b by simp
  ultimately have r: "f64_of_int n = Inr (of_nat ((if n < 0 then 2 ^ 63 else 0) + ((b + 1022) * 2 ^ 52 + f)))"
    by (simp add: f64_of_int_def Let_def bits)
  define x :: f64 where "x = of_nat ((if n < 0 then 2 ^ 63 else 0) + ((b + 1022) * 2 ^ 52 + f))"
  have "b + 1022 < 2047" using b by simp
  then have flds: "f64_exponent x = b + 1022" "f64_fraction x = f" "f64_negative x = (n < 0)"
    unfolding x_def using f64_fields [OF _ b(3), of "b + 1022" "n < 0"] by blast+
  have "f64_units x = ?a * 2 ^ (53 - b) * 2 ^ (b + 1021)"
    using b m by (simp add: f64_units_def flds)
  also have "\<dots> = ?a * 2 ^ (53 - b + (b + 1021))" by (simp only: power_add mult.assoc)
  also have "53 - b + (b + 1021) = 1074" using b by simp
  finally have "int (f64_units x) = \<bar>n\<bar> * f64_unit" by simp
  then have "f64_scaled x = n * f64_unit"
    unfolding f64_scaled_def flds by (auto simp: abs_if)
  moreover have "f64_isfinite x" unfolding f64_isfinite_def flds using b by simp
  ultimately show ?thesis using r flds(3) unfolding x_def by blast
qed

end
