(* ===== verification/Sha256.thy ===== *)
theory Sha256
  imports Prelude
begin

text \<open>
  The SHA-256 of the standard library's \<open>hashlib\<close>, written out from its published algorithm on
  32-bit words, so that the digests of the SDK are functions of their preimages and nothing else.
\<close>

unbundle bit_operations_syntax

type_synonym w32 = "32 word"

definition rotr32 :: "nat \<Rightarrow> w32 \<Rightarrow> w32" where
  "rotr32 n x = drop_bit n x OR push_bit (32 - n) x"

definition sha256_k :: "w32 list" where
  "sha256_k =
    [1116352408, 1899447441, 3049323471, 3921009573, 961987163, 1508970993, 2453635748,
     2870763221, 3624381080, 310598401, 607225278, 1426881987, 1925078388, 2162078206,
     2614888103, 3248222580, 3835390401, 4022224774, 264347078, 604807628, 770255983, 1249150122,
     1555081692, 1996064986, 2554220882, 2821834349, 2952996808, 3210313671, 3336571891,
     3584528711, 113926993, 338241895, 666307205, 773529912, 1294757372, 1396182291, 1695183700,
     1986661051, 2177026350, 2456956037, 2730485921, 2820302411, 3259730800, 3345764771,
     3516065817, 3600352804, 4094571909, 275423344, 430227734, 506948616, 659060556, 883997877,
     958139571, 1322822218, 1537002063, 1747873779, 1955562222, 2024104815, 2227730452,
     2361852424, 2428436474, 2756734187, 3204031479, 3329325298]"

text \<open>The eight chaining variables, as a list.\<close>

definition sha256_init :: "w32 list" where
  "sha256_init =
    [1779033703, 3144134277, 1013904242, 2773480762, 1359893119, 2600822924, 528734635,
     1541459225]"

text \<open>The padding: a one bit, zeros up to 56 bytes modulo 64, the bit length as 8 big-endian bytes.\<close>

definition sha256_pad :: "bytes \<Rightarrow> bytes" where
  "sha256_pad m =
     m @ 0x80 # replicate ((119 - length m mod 64) mod 64) 0 @ be_bytes 8 (8 * length m)"

fun be_words :: "bytes \<Rightarrow> w32 list" where
  "be_words (a # b # c # d # r) =
     (push_bit 24 (ucast a) OR push_bit 16 (ucast b) OR push_bit 8 (ucast c) OR ucast d) # be_words r"
| "be_words _ = []"

text \<open>The message schedule, kept newest first: word \<open>t\<close> reads words \<open>t-2\<close>, \<open>t-7\<close>, \<open>t-15\<close>, \<open>t-16\<close>.\<close>

definition schedule_word :: "w32 list \<Rightarrow> w32" where
  "schedule_word ws =
     (let x = ws ! 14; y = ws ! 1
      in (rotr32 17 y XOR rotr32 19 y XOR drop_bit 10 y) + ws ! 6
         + (rotr32 7 x XOR rotr32 18 x XOR drop_bit 3 x) + ws ! 15)"

primrec schedule :: "nat \<Rightarrow> w32 list \<Rightarrow> w32 list" where
  "schedule 0 ws = ws"
| "schedule (Suc n) ws = (let w = schedule_word ws in schedule n (w # ws))"

fun sha256_round :: "w32 list \<Rightarrow> w32 \<times> w32 \<Rightarrow> w32 list" where
  "sha256_round [a, b, c, d, e, f, g, h] (k, w) =
     (let t1 = h + (rotr32 6 e XOR rotr32 11 e XOR rotr32 25 e) + ((e AND f) XOR (NOT e AND g)) + k + w;
          t2 = (rotr32 2 a XOR rotr32 13 a XOR rotr32 22 a) + ((a AND b) XOR (a AND c) XOR (b AND c))
      in [t1 + t2, a, b, c, d + t1, e, f, g])"
| "sha256_round s _ = s"

definition sha256_block :: "w32 list \<Rightarrow> w32 list \<Rightarrow> w32 list" where
  "sha256_block hs ws =
     map2 (+) hs (foldl sha256_round hs (zip sha256_k (rev (schedule 48 (rev ws)))))"

fun sha256_blocks :: "w32 list \<Rightarrow> w32 list \<Rightarrow> w32 list" where
  "sha256_blocks hs ws =
     (if length ws < 16 then hs else sha256_blocks (sha256_block hs (take 16 ws)) (drop 16 ws))"

declare sha256_blocks.simps [simp del]

definition be_bytes32 :: "w32 \<Rightarrow> bytes" where
  "be_bytes32 x = map (\<lambda>n. ucast (drop_bit n x)) [24, 16, 8, 0]"

text \<open>\<open>hashlib.sha256(m).digest()\<close>.\<close>

definition sha256 :: "bytes \<Rightarrow> bytes" where
  "sha256 m = concat (map be_bytes32 (sha256_blocks sha256_init (be_words (sha256_pad m))))"

section \<open>The digest has 32 bytes\<close>

lemma length_sha256_round: "length hs = 8 \<Longrightarrow> length (sha256_round hs kw) = 8"
  by (cases "(hs, kw)" rule: sha256_round.cases) (auto simp: Let_def)

lemma length_foldl_round: "length hs = 8 \<Longrightarrow> length (foldl sha256_round hs kws) = 8"
  by (induction kws arbitrary: hs) (simp_all add: length_sha256_round)

lemma length_sha256_blocks: "length hs = 8 \<Longrightarrow> length (sha256_blocks hs ws) = 8"
proof (induction hs ws rule: sha256_blocks.induct)
  case (1 hs ws)
  then show ?case
    by (subst sha256_blocks.simps) (simp add: sha256_block_def length_foldl_round)
qed

lemma length_sha256 [simp]: "length (sha256 m) = 32"
proof -
  have "length (concat (map be_bytes32 ws)) = 4 * length ws" for ws
    by (induction ws) (simp_all add: be_bytes32_def)
  then show ?thesis
    by (simp add: sha256_def length_sha256_blocks sha256_init_def)
qed

end
