(* ===== verification/Framing.thy ===== *)
theory Framing
  imports Pyval Sha256
begin

text \<open>
  The framings of \<open>crypto.py\<close>: \<open>_frame\<close> (a little-endian 32-bit length prefix), \<open>_be64_frame\<close> (a
  big-endian 64-bit one), the presence byte of optional fields, and text encoded before it is
  framed. Each is shown self-delimiting by interpreting the interface \<open>self_delimiting\<close> on it; the
  digest and signature payloads are concatenations of these encoders, and their injectivity
  follows from the interface's lemmas.
\<close>

section \<open>Definitions\<close>

definition frame :: "bytes \<Rightarrow> bytes res" where
  "frame b = cat [pack_u32 (length b), Inr b]"

definition be64_frame :: "bytes \<Rightarrow> bytes res" where
  "be64_frame field = cat [to_bytes_8_big (length field), Inr field]"

text \<open>\<open>str.encode(s)\<close>.\<close>

definition rd_enc :: "ustr \<Rightarrow> bytes res" where
  "rd_enc s = utf8_encode s"

text \<open>\<open>opt\<close> over text, and over raw bytes.\<close>

definition rd_opt_text :: "ustr option \<Rightarrow> bytes res" where
  "rd_opt_text x =
     (case x of None \<Rightarrow> Inr [0x00] | Some s \<Rightarrow> cat [Inr [0x01], rbind (rd_enc s) frame])"

definition opt_bytes :: "bytes option \<Rightarrow> bytes res" where
  "opt_bytes x = (case x of None \<Rightarrow> Inr [0x00] | Some b \<Rightarrow> cat [Inr [0x01], frame b])"

text \<open>The compositions the payloads use: framed text under either length prefix, framed integers.\<close>

definition frame_text :: "ustr \<Rightarrow> bytes res" where
  "frame_text s = rbind (rd_enc s) frame"

definition be64_text :: "ustr \<Rightarrow> bytes res" where
  "be64_text s = rbind (utf8_encode s) be64_frame"

definition be64_opt_text :: "ustr option \<Rightarrow> bytes res" where
  "be64_opt_text x =
     (case x of None \<Rightarrow> Inr [0x00] | Some s \<Rightarrow> cat [Inr [0x01], be64_text s])"

definition frame_u32 :: "nat \<Rightarrow> bytes res" where
  "frame_u32 n = rbind (pack_u32 n) frame"

definition frame_u64 :: "nat \<Rightarrow> bytes res" where
  "frame_u64 n = rbind (pack_u64 n) frame"

section \<open>Interpretations\<close>

interpretation u32: self_delimiting pack_u32
  by (rule self_delimiting_fixed [OF pack_u32_inj length_pack_u32])

interpretation be64: self_delimiting to_bytes_8_big
  by (rule self_delimiting_fixed [OF to_bytes_8_big_inj length_to_bytes_8_big])

lemma frame_self_delimiting: "self_delimiting frame"
  using self_delimiting_length_prefix [OF u32.self_delimiting_axioms]
  by (simp add: frame_def [abs_def])

lemma be64_frame_self_delimiting: "self_delimiting be64_frame"
  using self_delimiting_length_prefix [OF be64.self_delimiting_axioms]
  by (simp add: be64_frame_def [abs_def])

interpretation fr: self_delimiting frame
  by (rule frame_self_delimiting)

interpretation bf: self_delimiting be64_frame
  by (rule be64_frame_self_delimiting)

text \<open>A presence byte in front of a self-delimiting encoding keeps the law: an absent field and a
  present one differ in their first byte.\<close>

lemma self_delimiting_presence:
  fixes enc :: "'a \<Rightarrow> 'e + bytes"
  assumes "self_delimiting enc"
  shows "self_delimiting (\<lambda>x. case x of None \<Rightarrow> Inr [0x00] | Some y \<Rightarrow> cat [Inr [0x01], enc y])"
proof
  fix x y :: "'a option" and b c r s :: bytes
  assume x: "(case x of None \<Rightarrow> Inr [0x00] | Some y \<Rightarrow> cat [Inr [0x01], enc y]) = Inr b"
    and y: "(case y of None \<Rightarrow> Inr [0x00] | Some y \<Rightarrow> cat [Inr [0x01], enc y]) = Inr c"
    and eq: "b @ r = c @ s"
  show "x = y \<and> r = s"
  proof (cases x; cases y)
    fix u v assume "x = Some u" "y = Some v"
    with x y obtain p q where pq: "enc u = Inr p" "b = 0x01 # p" "enc v = Inr q" "c = 0x01 # q"
      by (auto simp: res_simps)
    with eq have "p @ r = q @ s" by simp
    from self_delimiting.delim [OF assms pq(1,3) this] show ?thesis
      using \<open>x = Some u\<close> \<open>y = Some v\<close> by simp
  qed (use x y eq in \<open>auto simp: res_simps\<close>)
qed

interpretation ft: self_delimiting frame_text
  using self_delimiting_comp [OF frame_self_delimiting utf8_encode_inj]
  by (simp add: frame_text_def [abs_def] rd_enc_def [abs_def])

interpretation bt: self_delimiting be64_text
  using self_delimiting_comp [OF be64_frame_self_delimiting utf8_encode_inj]
  by (simp add: be64_text_def [abs_def])

lemma rd_opt_text_alt:
  "rd_opt_text = (\<lambda>x. case x of None \<Rightarrow> Inr [0x00] | Some s \<Rightarrow> cat [Inr [0x01], frame_text s])"
  by (rule ext) (simp add: rd_opt_text_def frame_text_def split: option.split)

interpretation ot: self_delimiting rd_opt_text
  unfolding rd_opt_text_alt by (rule self_delimiting_presence [OF ft.self_delimiting_axioms])

interpretation ob: self_delimiting opt_bytes
  unfolding opt_bytes_def [abs_def]
  by (rule self_delimiting_presence [OF fr.self_delimiting_axioms])

interpretation bo: self_delimiting be64_opt_text
  unfolding be64_opt_text_def [abs_def]
  by (rule self_delimiting_presence [OF bt.self_delimiting_axioms])

interpretation fu32: self_delimiting frame_u32
  unfolding frame_u32_def [abs_def]
  by (rule self_delimiting_comp [OF fr.self_delimiting_axioms pack_u32_inj])

interpretation fu64: self_delimiting frame_u64
  unfolding frame_u64_def [abs_def]
  by (rule self_delimiting_comp [OF fr.self_delimiting_axioms pack_u64_inj])

section \<open>Counted runs\<close>

text \<open>A run of self-delimiting fields behind its count: equal streams have the same count, the
  same fields, and equal rests.\<close>

lemma counted_run:
  assumes cnt: "self_delimiting cnt" and enc: "self_delimiting enc"
    and "cat (cnt (length xs) # map enc xs @ ps) = Inr b"
    and "cat (cnt (length ys) # map enc ys @ qs) = Inr b"
  shows "xs = ys \<and> (\<exists>c. cat ps = Inr c \<and> cat qs = Inr c)"
proof -
  from self_delimiting.peel [OF cnt assms(3,4)] obtain c where
    "length xs = length ys" "cat (map enc xs @ ps) = Inr c" "cat (map enc ys @ qs) = Inr c"
    by blast
  from self_delimiting.peel_map [OF enc this] show ?thesis .
qed

section \<open>Equal digests\<close>

text \<open>Two byte strings with the same SHA-256 are equal, or they are an explicit collision.\<close>

definition sha256_collision :: "bytes \<Rightarrow> bytes \<Rightarrow> bool" where
  "sha256_collision x y = (x \<noteq> y \<and> sha256 x = sha256 y)"

lemma sha256_eqD: "sha256 x = sha256 y \<Longrightarrow> x = y \<or> sha256_collision x y"
  by (auto simp: sha256_collision_def)

end
