(* ===== verification/Record_Digest.thy ===== *)
theory Record_Digest
  imports Framing
begin

text \<open>
  The v4 audit digests of \<open>crypto.py\<close>: the checks every slot passes before a byte is hashed
  (\<open>_as_bytes\<close>, \<open>_sub_digest\<close>, \<open>_rd_text\<close>, \<open>_mandatory_text\<close>, \<open>_uint_slot\<close>), the participants digest,
  the record digest and the context-provenance digest. The lemmas show that a stripped or malformed
  slot is refused with its own name and wire tag, that another schema version is refused before
  anything else is looked at, and that equal digests mean equal slots or an explicit collision.
\<close>

section \<open>Slot checks\<close>

definition SUB_DIGEST_LEN :: nat where
  "SUB_DIGEST_LEN = 32"

definition as_bytes :: "pyval \<Rightarrow> bytes option" where
  "as_bytes v =
     (case v of
        VBytes b \<Rightarrow> Some b
      | VBuffer itemsize c_contiguous (Some d) \<Rightarrow>
          (if itemsize \<noteq> 1 \<or> \<not> c_contiguous then None else Some d)
      | _ \<Rightarrow> None)"

definition sub_digest :: "string \<Rightarrow> nat \<Rightarrow> pyval \<Rightarrow> bool \<Rightarrow> bytes option res" where
  "sub_digest name tag v optional =
     (if v = VNone \<or> (\<not> optional \<and> as_bytes v = Some []) then
        (if optional then Inr None else Inl (RecordDigestStripError name tag))
      else
        (case as_bytes v of
           None \<Rightarrow> Inl (RecordDigestStripError name tag)
         | Some raw \<Rightarrow>
             (if length raw \<noteq> SUB_DIGEST_LEN then Inl (RecordDigestStripError name tag)
              else Inr (Some raw))))"

definition rd_text :: "pyval \<Rightarrow> bool \<Rightarrow> ustr option res" where
  "rd_text v optional =
     (if optional \<and> v = VNone then Inr None
      else case v of VStr s \<Rightarrow> Inr (Some s) | _ \<Rightarrow> Inl TypeError)"

definition mandatory_text :: "string \<Rightarrow> nat \<Rightarrow> pyval \<Rightarrow> ustr option res" where
  "mandatory_text name tag v =
     (if v = VNone \<or> v = VStr [] then Inl (RecordDigestStripError name tag)
      else rd_text v False)"

definition require_int :: "pyval \<Rightarrow> unit res" where
  "require_int v = guard (is_plain_int v) TypeError"

definition int_of :: "pyval \<Rightarrow> int" where
  "int_of v = (case v of VInt n \<Rightarrow> n | VBool b \<Rightarrow> of_bool b | _ \<Rightarrow> 0)"

definition uint_slot :: "pyval \<Rightarrow> nat \<Rightarrow> nat res" where
  "uint_slot v bits =
     rbind (require_int v) (\<lambda>_.
       if 0 \<le> int_of v \<and> int_of v < 2 ^ bits then Inr (nat (int_of v)) else Inl ValueError)"

text \<open>A slot declared mandatory is never \<open>None\<close> after its check; framing \<open>None\<close> would be a
  \<open>TypeError\<close> (\<open>len(None)\<close>, \<open>str.encode(None)\<close>).\<close>

definition present :: "'a option \<Rightarrow> 'a res" where
  "present x = (case x of None \<Rightarrow> Inl TypeError | Some y \<Rightarrow> Inr y)"

definition frame_present :: "bytes option \<Rightarrow> bytes res" where
  "frame_present x = rbind (present x) frame"

definition frame_present_text :: "ustr option \<Rightarrow> bytes res" where
  "frame_present_text x = rbind (present x) frame_text"

section \<open>Participants\<close>

definition PARTICIPANTS_DIGEST_DOMAIN_V4 :: bytes where
  "PARTICIPANTS_DIGEST_DOMAIN_V4 = bstr ''seam.audit.participants.v4''"

definition participants_preimage :: "ustr option list \<Rightarrow> bytes res" where
  "participants_preimage ids =
     cat (frame PARTICIPANTS_DIGEST_DOMAIN_V4 # pack_u32 (length ids) # map frame_present_text ids)"

definition participants_digest_v4 :: "pyval \<Rightarrow> bytes res" where
  "participants_digest_v4 participants =
     (case participants of
        VStr _ \<Rightarrow> Inl TypeError
      | VBytes _ \<Rightarrow> Inl TypeError
      | _ \<Rightarrow>
          rbind (py_list participants) (\<lambda>xs.
          rbind (mapR (\<lambda>x. rd_text x False) xs) (\<lambda>ids.
          rbind (participants_preimage ids) (\<lambda>pre. Inr (sha256 pre)))))"

section \<open>The record digest\<close>

definition RECORD_DIGEST_SCHEMA_VERSION :: int where
  "RECORD_DIGEST_SCHEMA_VERSION = 4"

text \<open>The arguments of \<open>record_digest_v4\<close>, in their order.\<close>

record v4_args =
  a_decision_id :: pyval
  a_tenant :: pyval
  a_namespace :: pyval
  a_ciphertext_digest :: pyval
  a_sealed_at :: pyval
  a_outcome :: pyval
  a_mode :: pyval
  a_policy_version :: pyval
  a_supersedes :: pyval
  a_context_digest :: pyval
  a_participation_digest :: pyval
  a_policy_rules_digest :: pyval
  a_classification :: pyval
  a_participants_digest :: pyval
  a_trust_basis_commitment :: pyval
  a_auth_method :: pyval
  a_schema_version :: pyval

text \<open>The slots after their checks.\<close>

record v4_slots =
  s_decision_id :: "ustr option"
  s_tenant :: "ustr option"
  s_namespace :: "ustr option"
  s_ciphertext :: bytes
  s_sealed_at :: nat
  s_outcome :: "ustr option"
  s_mode :: "ustr option"
  s_policy_version :: "ustr option"
  s_supersedes :: "ustr option"
  s_context :: "bytes option"
  s_participation :: "bytes option"
  s_policy_rules :: "bytes option"
  s_classification :: "ustr option"
  s_participants :: "bytes option"
  s_trust_basis :: "ustr option"
  s_auth_method :: "ustr option"

text \<open>The version gate and the checks, in the order of the source.\<close>

definition record_slots :: "v4_args \<Rightarrow> v4_slots res" where
  "record_slots a =
     rbind (guard (a_schema_version a = VInt RECORD_DIGEST_SCHEMA_VERSION) UnsupportedRecordDigestVersion) (\<lambda>_.
     rbind (sub_digest ''context_digest'' 11 (a_context_digest a) False) (\<lambda>ctx.
     rbind (sub_digest ''participation_digest'' 12 (a_participation_digest a) False) (\<lambda>part.
     rbind (sub_digest ''policy_rules_digest'' 13 (a_policy_rules_digest a) True) (\<lambda>rules.
     rbind (sub_digest ''participants_digest'' 15 (a_participants_digest a) False) (\<lambda>parts.
     rbind (mandatory_text ''classification'' 14 (a_classification a)) (\<lambda>cls.
     rbind (mandatory_text ''trust_basis_commitment'' 16 (a_trust_basis_commitment a)) (\<lambda>trust.
     rbind (mandatory_text ''auth_method'' 17 (a_auth_method a)) (\<lambda>auth.
     rbind (case as_bytes (a_ciphertext_digest a) of None \<Rightarrow> Inl TypeError | Some b \<Rightarrow> Inr b) (\<lambda>ct.
     rbind (rd_text (a_decision_id a) False) (\<lambda>did.
     rbind (rd_text (a_tenant a) False) (\<lambda>tenant.
     rbind (rd_text (a_namespace a) False) (\<lambda>ns.
     rbind (rd_text (a_outcome a) False) (\<lambda>outcome.
     rbind (rd_text (a_mode a) True) (\<lambda>mode.
     rbind (rd_text (a_policy_version a) True) (\<lambda>pv.
     rbind (rd_text (a_supersedes a) True) (\<lambda>sup.
     rbind (uint_slot (a_sealed_at a) 64) (\<lambda>sealed.
     Inr \<lparr>s_decision_id = did, s_tenant = tenant, s_namespace = ns, s_ciphertext = ct,
          s_sealed_at = sealed, s_outcome = outcome, s_mode = mode, s_policy_version = pv,
          s_supersedes = sup, s_context = ctx, s_participation = part, s_policy_rules = rules,
          s_classification = cls, s_participants = parts, s_trust_basis = trust,
          s_auth_method = auth\<rparr>)))))))))))))))))"

definition record_parts :: "v4_slots \<Rightarrow> bytes res list" where
  "record_parts s =
     [frame (bstr ''seam.audit.record-digest.v4''),
      frame_present_text (s_decision_id s),
      frame_present_text (s_tenant s),
      frame_present_text (s_namespace s),
      frame (s_ciphertext s),
      frame_u64 (s_sealed_at s),
      frame_present_text (s_outcome s),
      rd_opt_text (s_mode s),
      rd_opt_text (s_policy_version s),
      rd_opt_text (s_supersedes s),
      frame_present (s_context s),
      frame_present (s_participation s),
      opt_bytes (s_policy_rules s),
      frame_present_text (s_classification s),
      frame_present (s_participants s),
      frame_present_text (s_trust_basis s),
      frame_present_text (s_auth_method s),
      frame_u32 (nat RECORD_DIGEST_SCHEMA_VERSION)]"

definition record_preimage :: "v4_args \<Rightarrow> bytes res" where
  "record_preimage a = rbind (record_slots a) (\<lambda>s. cat (record_parts s))"

definition record_digest_v4 :: "v4_args \<Rightarrow> bytes res" where
  "record_digest_v4 a = rbind (record_preimage a) (\<lambda>pre. Inr (sha256 pre))"

section \<open>The context digest\<close>

definition CONTEXT_PROVENANCE_DOMAIN_V4 :: bytes where
  "CONTEXT_PROVENANCE_DOMAIN_V4 = bstr ''seam.audit.context-provenance.v4''"

definition RECEIPT_KEY_STATUSES :: "ustr list" where
  "RECEIPT_KEY_STATUSES = [ustr ''Current'', ustr ''Historical'']"

text \<open>A binding is a dict with the spec's field names, a \<open>ContextBinding\<close> message read through its
  attributes and \<open>HasField\<close>, or an object that has neither.\<close>

datatype ctx_binding =
    CtxDict "(pyval \<times> pyval) list"
  | CtxMessage "ustr \<Rightarrow> pyval" "ustr \<Rightarrow> bool"
  | CtxOther

text \<open>The argument is one str, bytes or dict, or an iterable of bindings.\<close>

datatype ctx_bindings = CtxSingle | CtxBindings "ctx_binding list"

definition ctx_get :: "ctx_binding \<Rightarrow> string \<Rightarrow> bool \<Rightarrow> pyval res" where
  "ctx_get binding name optional =
     (case binding of
        CtxDict d \<Rightarrow>
          (if optional then py_get (VDict d) (ustr name) else py_getitem (VDict d) (ustr name))
      | CtxMessage attr has \<Rightarrow>
          (if optional \<and> name \<noteq> ''derived_from'' then
             Inr (if has (ustr name) then attr (ustr name) else VNone)
           else Inr (attr (ustr name)))
      | CtxOther \<Rightarrow> Inl AttributeError)"

record ctx_row =
  c_ctx_ref :: "ustr option"
  c_fidelity :: "ustr option"
  c_classification :: "ustr option"
  c_lineage_id :: "ustr option"
  c_version :: nat
  c_derived_from :: "ustr option list"
  c_content_hash :: "ustr option"
  c_receipt_hash :: "ustr option"
  c_key_status :: "ustr option"
  c_resolved_status :: "ustr option"
  c_receipt_key_status :: "ustr option"

definition ctx_text :: "ctx_binding \<Rightarrow> string \<Rightarrow> bool \<Rightarrow> ustr option res" where
  "ctx_text bd name optional = rbind (ctx_get bd name optional) (\<lambda>v. rd_text v optional)"

definition context_row :: "nat \<Rightarrow> ctx_binding \<Rightarrow> ctx_row res" where
  "context_row i bd =
     rbind (ctx_text bd ''ctx_ref'' False) (\<lambda>ctx_ref.
     rbind (ctx_text bd ''fidelity'' False) (\<lambda>fidelity.
     rbind (ctx_text bd ''classification'' False) (\<lambda>cls.
     rbind (ctx_text bd ''lineage_id'' True) (\<lambda>lineage.
     rbind (rbind (ctx_get bd ''version'' False) (\<lambda>v. uint_slot v 32)) (\<lambda>ver.
     rbind (ctx_get bd ''derived_from'' True) (\<lambda>derived.
     rbind (if derived = VNone then Inr [] else py_list derived) (\<lambda>ds.
     rbind (mapR (\<lambda>d. rd_text d False) ds) (\<lambda>derived_from.
     rbind (ctx_text bd ''content_hash'' True) (\<lambda>content_hash.
     rbind (ctx_text bd ''receipt_hash'' True) (\<lambda>receipt_hash.
     rbind (ctx_text bd ''key_status'' True) (\<lambda>key_status.
     rbind (ctx_text bd ''resolved_status'' True) (\<lambda>resolved_status.
     rbind (ctx_text bd ''receipt_key_status'' True) (\<lambda>receipt_key_status.
     rbind (guard ((receipt_key_status = None) = (receipt_hash = None))
              (ContextProvenanceError i ''receipt_key_status'')) (\<lambda>_.
     rbind (guard (case receipt_key_status of None \<Rightarrow> True | Some s \<Rightarrow> s \<in> set RECEIPT_KEY_STATUSES)
              (ContextProvenanceError i ''receipt_key_status'')) (\<lambda>_.
     Inr \<lparr>c_ctx_ref = ctx_ref, c_fidelity = fidelity, c_classification = cls,
          c_lineage_id = lineage, c_version = ver, c_derived_from = derived_from,
          c_content_hash = content_hash, c_receipt_hash = receipt_hash, c_key_status = key_status,
          c_resolved_status = resolved_status, c_receipt_key_status = receipt_key_status\<rparr>)))))))))))))))"

text \<open>\<open>for i, bd in enumerate(bindings)\<close>.\<close>

fun context_rows :: "nat \<Rightarrow> ctx_binding list \<Rightarrow> ctx_row list res" where
  "context_rows i [] = Inr []"
| "context_rows i (bd # bds) =
     rbind (context_row i bd) (\<lambda>row. rbind (context_rows (Suc i) bds) (\<lambda>rows. Inr (row # rows)))"

definition context_row_parts :: "ctx_row \<Rightarrow> bytes res list" where
  "context_row_parts row =
     [frame_present_text (c_ctx_ref row),
      frame_present_text (c_fidelity row),
      frame_present_text (c_classification row),
      rd_opt_text (c_lineage_id row),
      frame_u32 (c_version row),
      pack_u32 (length (c_derived_from row))]
     @ map frame_present_text (c_derived_from row)
     @ [rd_opt_text (c_content_hash row),
        rd_opt_text (c_receipt_hash row),
        rd_opt_text (c_key_status row),
        rd_opt_text (c_resolved_status row),
        rd_opt_text (c_receipt_key_status row)]"

definition context_preimage :: "ctx_row list \<Rightarrow> bytes res" where
  "context_preimage rows =
     cat (frame CONTEXT_PROVENANCE_DOMAIN_V4 # pack_u32 (length rows)
          # map (\<lambda>row. cat (context_row_parts row)) rows)"

definition context_digest_v4 :: "ctx_bindings \<Rightarrow> bytes res" where
  "context_digest_v4 bindings =
     (case bindings of
        CtxSingle \<Rightarrow> Inl TypeError
      | CtxBindings bds \<Rightarrow>
          rbind (context_rows 0 bds) (\<lambda>rows.
          rbind (context_preimage rows) (\<lambda>pre. Inr (sha256 pre))))"

section \<open>Injectivity\<close>

lemma present_inj: "present x = Inr v \<Longrightarrow> present y = Inr v \<Longrightarrow> x = y"
  by (auto simp: present_def split: option.splits)

interpretation fp: self_delimiting frame_present
  unfolding frame_present_def [abs_def]
  by (rule self_delimiting_comp [OF fr.self_delimiting_axioms present_inj])

interpretation fpt: self_delimiting frame_present_text
  unfolding frame_present_text_def [abs_def]
  by (rule self_delimiting_comp [OF ft.self_delimiting_axioms present_inj])

lemma record_parts_inj:
  assumes "cat (record_parts s) = Inr b" "cat (record_parts s') = Inr b"
  shows "s = (s' :: v4_slots)"
  using assms unfolding record_parts_def
  by - ((erule (1) fr.peelE fp.peelE fpt.peelE fu32.peelE fu64.peelE ot.peelE ob.peelE)+, simp)

interpretation ctxrow: self_delimiting "\<lambda>row :: ctx_row. cat (context_row_parts row)"
proof (rule self_delimiting_parts)
  fix x y :: ctx_row and ps qs b
  assume "cat (context_row_parts x @ ps) = Inr b" "cat (context_row_parts y @ qs) = Inr b"
  then show "x = y \<and> (\<exists>c. cat ps = Inr c \<and> cat qs = Inr c)"
    unfolding context_row_parts_def append_assoc append_Cons append_Nil
    apply -
    apply (erule (1) fpt.peelE ot.peelE fu32.peelE)+
    apply (drule (1) counted_run [OF u32.self_delimiting_axioms fpt.self_delimiting_axioms])
    apply (elim conjE exE)
    apply (erule (1) ot.peelE)+
    apply auto
    done
qed

lemma context_preimage_inj:
  assumes "context_preimage rows = Inr b" "context_preimage rows' = Inr b"
  shows "rows = rows'"
proof -
  from assms obtain c where
    "cat (pack_u32 (length rows) # map (\<lambda>row. cat (context_row_parts row)) rows @ []) = Inr c"
    "cat (pack_u32 (length rows') # map (\<lambda>row. cat (context_row_parts row)) rows' @ []) = Inr c"
    unfolding context_preimage_def append_Nil2 by (rule fr.peelE)
  from counted_run [OF u32.self_delimiting_axioms ctxrow.self_delimiting_axioms this]
  show ?thesis by simp
qed

lemma participants_preimage_inj:
  assumes "participants_preimage xs = Inr b" "participants_preimage ys = Inr b"
  shows "xs = ys"
proof -
  from assms obtain c where
    "cat (pack_u32 (length xs) # map frame_present_text xs @ []) = Inr c"
    "cat (pack_u32 (length ys) # map frame_present_text ys @ []) = Inr c"
    unfolding participants_preimage_def append_Nil2 by (rule fr.peelE)
  from counted_run [OF u32.self_delimiting_axioms fpt.self_delimiting_axioms this]
  show ?thesis by simp
qed

section \<open>What the checks accept\<close>

definition is_sub_digest :: "pyval \<Rightarrow> bool" where
  "is_sub_digest v = (\<exists>b. as_bytes v = Some b \<and> length b = SUB_DIGEST_LEN)"

lemma sub_digest_mandatory:
  "sub_digest n t v False =
     (if is_sub_digest v then Inr (as_bytes v) else Inl (RecordDigestStripError n t))"
  by (auto simp: sub_digest_def is_sub_digest_def SUB_DIGEST_LEN_def as_bytes_def
      split: option.splits pyval.splits)

lemma sub_digest_optional:
  "sub_digest n t v True =
     (if v = VNone then Inr None
      else if is_sub_digest v then Inr (as_bytes v) else Inl (RecordDigestStripError n t))"
  by (auto simp: sub_digest_def is_sub_digest_def split: option.splits)

lemma mandatory_text_eq:
  "mandatory_text n t v =
     (case v of
        VStr s \<Rightarrow> if s = [] then Inl (RecordDigestStripError n t) else Inr (Some s)
      | VNone \<Rightarrow> Inl (RecordDigestStripError n t)
      | _ \<Rightarrow> Inl TypeError)"
  by (auto simp: mandatory_text_def rd_text_def split: pyval.splits)

lemma check_strip:
  "sub_digest n t v False = Inl (RecordDigestStripError n' t') \<longleftrightarrow>
     \<not> is_sub_digest v \<and> n' = n \<and> t' = t"
  "sub_digest n t v True = Inl (RecordDigestStripError n' t') \<longleftrightarrow>
     v \<noteq> VNone \<and> \<not> is_sub_digest v \<and> n' = n \<and> t' = t"
  "mandatory_text n t v = Inl (RecordDigestStripError n' t') \<longleftrightarrow>
     v \<in> {VNone, VStr []} \<and> n' = n \<and> t' = t"
  by (auto simp: sub_digest_mandatory sub_digest_optional mandatory_text_eq split: pyval.splits if_splits)

lemma mandatory_text_typed:
  "v = VNone \<or> is_str v \<Longrightarrow> mandatory_text n t v =
     (if v = VNone \<or> v = VStr [] then Inl (RecordDigestStripError n t)
      else Inr (case v of VStr s \<Rightarrow> Some s | _ \<Rightarrow> None))"
  by (auto simp: mandatory_text_eq is_str_def split: pyval.splits)

lemma no_strip_elsewhere:
  "rd_text v opt \<noteq> Inl (RecordDigestStripError n t)"
  "uint_slot w k \<noteq> Inl (RecordDigestStripError n t)"
  by (auto simp: rd_text_def uint_slot_def require_int_def res_simps split: pyval.splits if_splits)

text \<open>Nothing after the slot checks raises a strip: framing fails only on a length or a lone
  surrogate.\<close>

definition framing_exn :: "py_exn \<Rightarrow> bool" where
  "framing_exn e = (e = StructError \<or> e = UnicodeEncodeError \<or> e = TypeError)"

lemma frame_exn:
  "pack_u32 n = Inl e \<Longrightarrow> framing_exn e"
  "frame b = Inl e \<Longrightarrow> framing_exn e"
  "frame_text s = Inl e \<Longrightarrow> framing_exn e"
  "frame_present x = Inl e \<Longrightarrow> framing_exn e"
  "frame_present_text y = Inl e \<Longrightarrow> framing_exn e"
  "rd_opt_text y = Inl e \<Longrightarrow> framing_exn e"
  "opt_bytes x = Inl e \<Longrightarrow> framing_exn e"
  "frame_u32 n = Inl e \<Longrightarrow> framing_exn e"
  "frame_u64 n = Inl e \<Longrightarrow> framing_exn e"
  by (auto simp: frame_def frame_text_def frame_present_def frame_present_text_def rd_opt_text_def
      opt_bytes_def frame_u32_def frame_u64_def pack_u32_def pack_u64_def present_def rd_enc_def
      framing_exn_def res_simps dest: utf8_encode_exn split: if_splits option.splits)

lemma record_parts_exn: "cat (record_parts s) = Inl e \<Longrightarrow> framing_exn e"
  by (drule cat_eq_Inl) (auto simp: record_parts_def dest: frame_exn [OF sym])

text \<open>The seven checked slots in the order they are checked, each with whether it is refused.\<close>

definition stripped_slots :: "v4_args \<Rightarrow> (string \<times> nat \<times> bool) list" where
  "stripped_slots a =
     [(''context_digest'', 11, \<not> is_sub_digest (a_context_digest a)),
      (''participation_digest'', 12, \<not> is_sub_digest (a_participation_digest a)),
      (''policy_rules_digest'', 13,
         a_policy_rules_digest a \<noteq> VNone \<and> \<not> is_sub_digest (a_policy_rules_digest a)),
      (''participants_digest'', 15, \<not> is_sub_digest (a_participants_digest a)),
      (''classification'', 14, a_classification a \<in> {VNone, VStr []}),
      (''trust_basis_commitment'', 16, a_trust_basis_commitment a \<in> {VNone, VStr []}),
      (''auth_method'', 17, a_auth_method a \<in> {VNone, VStr []})]"

lemma record_slots_strip:
  "record_digest_v4 a = Inl (RecordDigestStripError n t) \<longleftrightarrow>
     record_slots a = Inl (RecordDigestStripError n t)"
  by (auto simp: record_digest_v4_def record_preimage_def res_simps framing_exn_def
      dest: record_parts_exn)

lemma record_slots_strip_sound:
  "record_slots a = Inl (RecordDigestStripError n t) \<Longrightarrow> (n, t, True) \<in> set (stripped_slots a)"
  unfolding record_slots_def rbind_eq_Inl guard_eq_Inl check_strip stripped_slots_def
  by (elim disjE exE conjE) (auto simp: no_strip_elsewhere split: option.splits)

lemma record_slots_strip_complete:
  assumes "a_schema_version a = VInt 4"
    and "\<And>v. v \<in> {a_classification a, a_trust_basis_commitment a, a_auth_method a} \<Longrightarrow> v = VNone \<or> is_str v"
    and "\<exists>n t. (n, t, True) \<in> set (stripped_slots a)"
  shows "\<exists>n t. record_slots a = Inl (RecordDigestStripError n t)"
proof -
  have typed: "a_classification a = VNone \<or> is_str (a_classification a)"
    "a_trust_basis_commitment a = VNone \<or> is_str (a_trust_basis_commitment a)"
    "a_auth_method a = VNone \<or> is_str (a_auth_method a)"
    using assms(2) by auto
  show ?thesis
    using assms(3)
    unfolding record_slots_def sub_digest_mandatory sub_digest_optional assms(1)
      mandatory_text_typed [OF typed(1)] mandatory_text_typed [OF typed(2)]
      mandatory_text_typed [OF typed(3)] RECORD_DIGEST_SCHEMA_VERSION_def
    by (simp add: stripped_slots_def) blast
qed

section \<open>Properties\<close>

text \<open>A record refused as stripped names the slot at fault: the field and wire tag carried by the
  exception belong to one of the seven checked slots, and that slot is absent or is not a
  32-byte digest.\<close>

theorem record_digest_v4_strip_sound:
  assumes "record_digest_v4 a = Inl (RecordDigestStripError n t)"
  shows "(n, t, True) \<in> set (stripped_slots a)"
  using assms unfolding record_slots_strip by (rule record_slots_strip_sound)

text \<open>A record with every slot filled, and the same record with one slot replaced.\<close>

definition example_digest :: bytes where
  "example_digest = replicate 32 0xAB"

definition example_args :: v4_args where
  "example_args =
     \<lparr>a_decision_id = VStr (ustr ''d''), a_tenant = VStr (ustr ''t''), a_namespace = VStr [],
      a_ciphertext_digest = VBytes [1, 2], a_sealed_at = VInt 7, a_outcome = VStr (ustr ''ok''),
      a_mode = VNone, a_policy_version = VStr [], a_supersedes = VNone,
      a_context_digest = VBytes example_digest, a_participation_digest = VBytes example_digest,
      a_policy_rules_digest = VNone, a_classification = VStr (ustr ''c''),
      a_participants_digest = VBytes example_digest, a_trust_basis_commitment = VStr (ustr ''b''),
      a_auth_method = VStr (ustr ''m''), a_schema_version = VInt 4\<rparr>"

lemma example_sub_digest: "is_sub_digest (VBytes example_digest)"
  by (simp add: is_sub_digest_def as_bytes_def SUB_DIGEST_LEN_def example_digest_def)

lemmas slot_evals = record_slots_def sub_digest_mandatory sub_digest_optional mandatory_text_eq
  rd_text_def uint_slot_def require_int_def is_plain_int_def int_of_def
  RECORD_DIGEST_SCHEMA_VERSION_def

theorem record_digest_v4_strip_sound_witness:
  "(''auth_method'', 17, True) \<in> set (stripped_slots (example_args\<lparr>a_auth_method := VStr []\<rparr>))"
  by (rule record_digest_v4_strip_sound, unfold record_slots_strip)
    (simp add: slot_evals example_args_def example_sub_digest ustr_def)



text \<open>C12: The record digest binds every slot: two records with the same digest have the same checked
  slots (all sixteen, absent and empty told apart), or their two preimages are an explicit SHA-256
  collision.\<close>

theorem record_digest_v4_binds:
  assumes "record_digest_v4 a = Inr d" and "record_digest_v4 a' = Inr d"
  shows "(\<exists>s. record_slots a = Inr s \<and> record_slots a' = Inr s) \<or>
    (\<exists>p p'. record_preimage a = Inr p \<and> record_preimage a' = Inr p' \<and> sha256_collision p p')"
proof -
  from assms obtain p p' where p: "record_preimage a = Inr p" "record_preimage a' = Inr p'"
    and eq: "sha256 p = sha256 p'"
    by (auto simp: record_digest_v4_def res_simps)
  from p obtain s s' where s: "record_slots a = Inr s" "cat (record_parts s) = Inr p"
    "record_slots a' = Inr s'" "cat (record_parts s') = Inr p'"
    by (auto simp: record_preimage_def res_simps)
  from sha256_eqD [OF eq] show ?thesis
  proof
    assume "p = p'"
    with s record_parts_inj show ?thesis by blast
  next
    assume "sha256_collision p p'"
    with p show ?thesis by blast
  qed
qed

lemmas frame_evals = record_digest_v4_def record_preimage_def record_parts_def frame_present_text_def
  frame_present_def present_def frame_text_def frame_u32_def frame_u64_def rd_opt_text_def
  opt_bytes_def frame_def rd_enc_def pack_u32_def pack_u64_def utf8_encode_def utf8_cp_def

theorem record_digest_v4_binds_witness:
  "\<exists>d. record_digest_v4 example_args = Inr d \<and>
     record_digest_v4 (example_args\<lparr>a_ciphertext_digest := VBuffer 1 True (Some [1, 2])\<rparr>) = Inr d \<and>
     (let a = example_args; a' = example_args\<lparr>a_ciphertext_digest := VBuffer 1 True (Some [1, 2])\<rparr>
      in (\<exists>s. record_slots a = Inr s \<and> record_slots a' = Inr s) \<or>
         (\<exists>p p'. record_preimage a = Inr p \<and> record_preimage a' = Inr p' \<and> sha256_collision p p'))"
proof -
  let ?a' = "example_args\<lparr>a_ciphertext_digest := VBuffer 1 True (Some [1, 2])\<rparr>"
  have "record_slots ?a' = record_slots example_args"
    by (simp add: record_slots_def example_args_def as_bytes_def)
  then have same: "record_digest_v4 ?a' = record_digest_v4 example_args"
    by (simp add: record_digest_v4_def record_preimage_def)
  have "\<exists>d. record_digest_v4 example_args = Inr d"
    by (simp add: frame_evals slot_evals example_args_def example_sub_digest as_bytes_def ustr_def)
      (simp add: example_digest_def)
  then obtain d where "record_digest_v4 example_args = Inr d" ..
  with same record_digest_v4_binds [of example_args d ?a'] show ?thesis by (auto simp: Let_def)
qed

section \<open>The records that have a digest\<close>

definition text_ok :: "ustr \<Rightarrow> bool" where
  "text_ok s = (case utf8_encode s of Inl _ \<Rightarrow> False | Inr b \<Rightarrow> length b < 2 ^ 32)"

definition str_ok :: "pyval \<Rightarrow> bool" where
  "str_ok v = (case v of VStr s \<Rightarrow> text_ok s | _ \<Rightarrow> False)"

definition v4_wellformed :: "v4_args \<Rightarrow> bool" where
  "v4_wellformed a \<longleftrightarrow>
     a_schema_version a = VInt 4 \<and>
     is_sub_digest (a_context_digest a) \<and>
     is_sub_digest (a_participation_digest a) \<and>
     is_sub_digest (a_participants_digest a) \<and>
     (a_policy_rules_digest a = VNone \<or> is_sub_digest (a_policy_rules_digest a)) \<and>
     list_all (\<lambda>v. str_ok v \<and> v \<noteq> VStr [])
       [a_classification a, a_trust_basis_commitment a, a_auth_method a] \<and>
     list_all str_ok [a_decision_id a, a_tenant a, a_namespace a, a_outcome a] \<and>
     list_all (\<lambda>v. v = VNone \<or> str_ok v) [a_mode a, a_policy_version a, a_supersedes a] \<and>
     (case as_bytes (a_ciphertext_digest a) of None \<Rightarrow> False | Some b \<Rightarrow> length b < 2 ^ 32) \<and>
     (case a_sealed_at a of VInt n \<Rightarrow> 0 \<le> n \<and> n < 2 ^ 64 | _ \<Rightarrow> False)"

lemma frame_ok: "(\<exists>c. frame b = Inr c) \<longleftrightarrow> length b < 2 ^ 32"
  by (auto simp: frame_def pack_u32_def res_simps)

lemma frame_text_ok: "(\<exists>c. frame_text s = Inr c) \<longleftrightarrow> text_ok s"
  by (cases "utf8_encode s") (auto simp: frame_text_def rd_enc_def text_ok_def frame_ok)

lemma part_oks:
  "(\<exists>c. frame_present_text (Some s) = Inr c) \<longleftrightarrow> text_ok s"
  "(\<exists>c. frame_present (Some b) = Inr c) \<longleftrightarrow> length b < 2 ^ 32"
  "(\<exists>c. frame_present_text None = Inr c) \<longleftrightarrow> False"
  "(\<exists>c. frame_present None = Inr c) \<longleftrightarrow> False"
  "(\<exists>c. rd_opt_text x = Inr c) \<longleftrightarrow> (x = None \<or> (\<exists>s. x = Some s \<and> text_ok s))"
  "(\<exists>c. opt_bytes y = Inr c) \<longleftrightarrow> (y = None \<or> (\<exists>b. y = Some b \<and> length b < 2 ^ 32))"
  "(\<exists>c. frame_u64 n = Inr c) \<longleftrightarrow> n < 2 ^ 64"
  "(\<exists>c. frame_u32 n = Inr c) \<longleftrightarrow> n < 2 ^ 32"
  using frame_ok frame_text_ok
  by (auto simp: frame_present_text_def frame_present_def present_def rd_opt_text_alt opt_bytes_def
      frame_u64_def frame_u32_def pack_u64_def pack_u32_def frame_def res_simps split: option.splits)

lemma cat_ok: "(\<exists>b. cat xs = Inr b) \<longleftrightarrow> list_all (\<lambda>x. \<exists>c. x = Inr c) xs"
  by (induction xs) (auto simp: res_simps)

lemma mandatory_text_Inr:
  "mandatory_text n t v = Inr x \<longleftrightarrow> (\<exists>s. v = VStr s \<and> s \<noteq> [] \<and> x = Some s)"
  by (auto simp: mandatory_text_eq split: pyval.splits)

lemma rd_text_Inr:
  "rd_text v False = Inr x \<longleftrightarrow> (\<exists>s. v = VStr s \<and> x = Some s)"
  "rd_text v True = Inr x \<longleftrightarrow> (v = VNone \<and> x = None \<or> (\<exists>s. v = VStr s \<and> x = Some s))"
  by (auto simp: rd_text_def split: pyval.splits if_splits)

lemma uint_slot_Inr:
  "uint_slot v bits = Inr n \<longleftrightarrow> (\<exists>i. v = VInt i \<and> 0 \<le> i \<and> i < 2 ^ bits \<and> n = nat i)"
  by (auto simp: uint_slot_def require_int_def is_plain_int_def int_of_def res_simps
      split: pyval.splits if_splits)

lemma sub_digest_short: "is_sub_digest v \<Longrightarrow> \<exists>b. as_bytes v = Some b \<and> length b < 2 ^ 32"
  by (auto simp: is_sub_digest_def SUB_DIGEST_LEN_def)

lemma sub_digest_Inr:
  "sub_digest n t v False = Inr x \<longleftrightarrow> is_sub_digest v \<and> x = as_bytes v"
  "sub_digest n t v True = Inr x \<longleftrightarrow> (v = VNone \<and> x = None) \<or> (is_sub_digest v \<and> x = as_bytes v)"
  by (auto simp: sub_digest_mandatory sub_digest_optional is_sub_digest_def as_bytes_def)

lemmas check_Inr = sub_digest_Inr mandatory_text_Inr rd_text_Inr uint_slot_Inr

lemma str_ok_iff: "str_ok v \<longleftrightarrow> (\<exists>s. v = VStr s \<and> text_ok s)"
  by (auto simp: str_ok_def split: pyval.splits)

text \<open>A check followed by its framing succeeds exactly on the values the specification allows.\<close>

lemma slot_mandatory_text:
  "(\<exists>x. mandatory_text n t v = Inr x \<and> (\<exists>c. frame_present_text x = Inr c)) \<longleftrightarrow>
     str_ok v \<and> v \<noteq> VStr []"
  by (cases v) (auto simp: mandatory_text_Inr str_ok_def part_oks)

lemma slot_text:
  "(\<exists>x. rd_text v False = Inr x \<and> (\<exists>c. frame_present_text x = Inr c)) \<longleftrightarrow> str_ok v"
  "(\<exists>x. rd_text v True = Inr x \<and> (\<exists>c. rd_opt_text x = Inr c)) \<longleftrightarrow> (v = VNone \<or> str_ok v)"
  by (cases v; simp add: rd_text_Inr str_ok_def part_oks)+

lemma slot_sub_digest:
  "(\<exists>x. sub_digest n t v False = Inr x \<and> (\<exists>c. frame_present x = Inr c)) \<longleftrightarrow> is_sub_digest v"
  "(\<exists>x. sub_digest n t v True = Inr x \<and> (\<exists>c. opt_bytes x = Inr c)) \<longleftrightarrow>
     (v = VNone \<or> is_sub_digest v)"
proof -
  show "(\<exists>x. sub_digest n t v False = Inr x \<and> (\<exists>c. frame_present x = Inr c)) \<longleftrightarrow> is_sub_digest v"
    using sub_digest_short [of v] by (auto simp: sub_digest_Inr part_oks)
  show "(\<exists>x. sub_digest n t v True = Inr x \<and> (\<exists>c. opt_bytes x = Inr c)) \<longleftrightarrow>
      (v = VNone \<or> is_sub_digest v)"
    unfolding sub_digest_Inr part_oks using sub_digest_short [of v] by blast
qed

lemma slot_uint:
  "(\<exists>n. uint_slot v 64 = Inr n \<and> (\<exists>c. frame_u64 n = Inr c)) \<longleftrightarrow>
     (case v of VInt n \<Rightarrow> 0 \<le> n \<and> n < 2 ^ 64 | _ \<Rightarrow> False)"
  by (auto simp: uint_slot_Inr part_oks split: pyval.splits)

lemma slot_bytes:
  "(\<exists>b. (case as_bytes v of None \<Rightarrow> Inl TypeError | Some b \<Rightarrow> Inr b) = Inr b \<and> (\<exists>c. frame b = Inr c))
     \<longleftrightarrow> (case as_bytes v of None \<Rightarrow> False | Some b \<Rightarrow> length b < 2 ^ 32)"
  by (auto simp: frame_ok split: option.splits)

lemmas slots_iff = slot_mandatory_text slot_text slot_sub_digest slot_uint slot_bytes

lemma slotD:
  "mandatory_text n t v = Inr x \<Longrightarrow> frame_present_text x = Inr c \<Longrightarrow> str_ok v"
  "mandatory_text n t v = Inr x \<Longrightarrow> frame_present_text x = Inr c \<Longrightarrow> v \<noteq> VStr []"
  "rd_text v False = Inr x \<Longrightarrow> frame_present_text x = Inr c \<Longrightarrow> str_ok v"
  "rd_text v True = Inr x \<Longrightarrow> rd_opt_text x = Inr c \<Longrightarrow> v = VNone \<or> str_ok v"
  "sub_digest n t v False = Inr y \<Longrightarrow> frame_present y = Inr c \<Longrightarrow> is_sub_digest v"
  "sub_digest n t v True = Inr y \<Longrightarrow> opt_bytes y = Inr c \<Longrightarrow> v = VNone \<or> is_sub_digest v"
  "uint_slot v 64 = Inr m \<Longrightarrow> frame_u64 m = Inr c \<Longrightarrow>
     (case v of VInt n \<Rightarrow> 0 \<le> n \<and> n < 2 ^ 64 | _ \<Rightarrow> False)"
  "(case as_bytes v of None \<Rightarrow> Inl TypeError | Some b \<Rightarrow> Inr b) = Inr z \<Longrightarrow> frame z = Inr c \<Longrightarrow>
     (case as_bytes v of None \<Rightarrow> False | Some b \<Rightarrow> length b < 2 ^ 32)"
  subgoal using slot_mandatory_text [of n t v] by blast
  subgoal using slot_mandatory_text [of n t v] by blast
  subgoal using slot_text(1) [of v] by blast
  subgoal using slot_text(2) [of v] by blast
  subgoal using slot_sub_digest(1) [of n t v] by blast
  subgoal using slot_sub_digest(2) [of n t v] by blast
  subgoal by (rule slot_uint [THEN iffD1], rule exI, rule conjI, assumption, rule exI)
  subgoal by (rule slot_bytes [THEN iffD1], rule exI, rule conjI, assumption, rule exI)
  done

lemma v4_wellformedI:
  assumes "record_slots a = Inr s" "list_all (\<lambda>x. \<exists>c. x = Inr c) (record_parts s)"
  shows "v4_wellformed a"
  using assms unfolding record_slots_def rbind_eq_Inr guard_eq_Inr RECORD_DIGEST_SCHEMA_VERSION_def
    record_parts_def list.pred_inject v4_wellformed_def
  by (elim exE conjE, simp only: sum.inject, hypsubst, simp only: v4_slots.simps)
    (intro conjI; (rule refl list.pred_inject(1) | erule (1) slotD))

lemma v4_wellformedE:
  assumes "v4_wellformed a"
  obtains s where "record_slots a = Inr s" "list_all (\<lambda>x. \<exists>c. x = Inr c) (record_parts s)"
proof -
  from assms obtain cls tb am did tn ns oc where texts:
    "a_classification a = VStr cls" "cls \<noteq> []" "text_ok cls"
    "a_trust_basis_commitment a = VStr tb" "tb \<noteq> []" "text_ok tb"
    "a_auth_method a = VStr am" "am \<noteq> []" "text_ok am"
    "a_decision_id a = VStr did" "text_ok did" "a_tenant a = VStr tn" "text_ok tn"
    "a_namespace a = VStr ns" "text_ok ns" "a_outcome a = VStr oc" "text_ok oc"
    by (auto simp: v4_wellformed_def str_ok_iff)
  from assms obtain ct t where nums: "as_bytes (a_ciphertext_digest a) = Some ct" "length ct < 2 ^ 32"
    "a_sealed_at a = VInt t" "0 \<le> t" "t < 2 ^ 64"
    by (auto simp: v4_wellformed_def split: option.splits pyval.splits)
  from assms have "a_mode a = VNone \<or> str_ok (a_mode a)"
    "a_policy_version a = VNone \<or> str_ok (a_policy_version a)"
    "a_supersedes a = VNone \<or> str_ok (a_supersedes a)"
    "a_policy_rules_digest a = VNone \<or> is_sub_digest (a_policy_rules_digest a)"
    by (simp_all add: v4_wellformed_def)
  note absent = this(1-3) [THEN slot_text(2) [THEN iffD2]]
    this(4) [THEN slot_sub_digest(2) [of "''policy_rules_digest''" 13, THEN iffD2]]
  from absent obtain m p u r where opts:
    "rd_text (a_mode a) True = Inr m" "\<exists>c. rd_opt_text m = Inr c"
    "rd_text (a_policy_version a) True = Inr p" "\<exists>c. rd_opt_text p = Inr c"
    "rd_text (a_supersedes a) True = Inr u" "\<exists>c. rd_opt_text u = Inr c"
    "sub_digest ''policy_rules_digest'' 13 (a_policy_rules_digest a) True = Inr r" "\<exists>c. opt_bytes r = Inr c"
    by (elim exE conjE) (rule that; (assumption | (rule exI, assumption)))
  from assms have subs: "is_sub_digest (a_context_digest a)" "is_sub_digest (a_participation_digest a)"
    "is_sub_digest (a_participants_digest a)" and ver: "a_schema_version a = VInt 4"
    by (auto simp: v4_wellformed_def)
  then obtain b c d where bs: "as_bytes (a_context_digest a) = Some b" "length b < 2 ^ 32"
    "as_bytes (a_participation_digest a) = Some c" "length c < 2 ^ 32"
    "as_bytes (a_participants_digest a) = Some d" "length d < 2 ^ 32"
    using sub_digest_short by metis
  have checks: "rd_text (VStr x) False = Inr (Some x)" "uint_slot (VInt t) 64 = Inr (nat t)" for x
    using nums(4,5) by (simp_all add: rd_text_Inr uint_slot_Inr)
  have "record_slots a = Inr \<lparr>s_decision_id = Some did, s_tenant = Some tn, s_namespace = Some ns,
      s_ciphertext = ct, s_sealed_at = nat t, s_outcome = Some oc, s_mode = m, s_policy_version = p,
      s_supersedes = u, s_context = Some b, s_participation = Some c, s_policy_rules = r,
      s_classification = Some cls, s_participants = Some d, s_trust_basis = Some tb,
      s_auth_method = Some am\<rparr>" (is "_ = Inr ?s")
    by (simp add: record_slots_def texts nums(1,3) opts(1,3,5,7) subs bs(1,3,5) ver
        sub_digest_mandatory mandatory_text_eq checks RECORD_DIGEST_SCHEMA_VERSION_def)
  moreover have "list_all (\<lambda>x. \<exists>c. x = Inr c) (record_parts ?s)"
    unfolding record_parts_def v4_slots.simps list.pred_inject part_oks(1-4,7,8) frame_ok
    using texts nums bs opts by (simp add: RECORD_DIGEST_SCHEMA_VERSION_def nat_less_iff)
  ultimately show thesis by (rule that)
qed

text \<open>C27: The records that have a digest are exactly the well-formed ones: schema version 4, the three
  mandatory sub-digests 32 bytes, the policy-rules digest absent or 32 bytes, the mandatory texts
  present and non-empty, every text encodable and below the length prefix, the ciphertext digest a
  byte sequence, the sealing time an unsigned 64-bit integer (not a bool). Everything else raises.\<close>

theorem record_digest_v4_domain:
  "(\<exists>d. record_digest_v4 a = Inr d) \<longleftrightarrow> v4_wellformed a"
proof -
  have "(\<exists>d. record_digest_v4 a = Inr d) \<longleftrightarrow>
    (\<exists>s. record_slots a = Inr s \<and> list_all (\<lambda>x. \<exists>c. x = Inr c) (record_parts s))"
    by (auto simp: record_digest_v4_def record_preimage_def rbind_eq_Inr simp flip: cat_ok)
  also have "\<dots> \<longleftrightarrow> v4_wellformed a"
    by (rule iffI; (elim exE conjE)?, erule v4_wellformedI v4_wellformedE) (assumption, blast)
  finally show ?thesis .
qed

section \<open>The context digest\<close>

text \<open>A binding whose receipt fields can be read but cannot enter the preimage: exactly one of the
  two is present, or the key status is outside the closed vocabulary.\<close>

definition receipt_fault :: "ctx_binding \<Rightarrow> bool" where
  "receipt_fault bd =
     (case (ctx_text bd ''receipt_hash'' True, ctx_text bd ''receipt_key_status'' True) of
        (Inr rh, Inr rks) \<Rightarrow>
          (rks = None) \<noteq> (rh = None) \<or>
          (case rks of None \<Rightarrow> False | Some s \<Rightarrow> s \<notin> set RECEIPT_KEY_STATUSES)
      | _ \<Rightarrow> False)"

lemma no_provenance_elsewhere:
  "rd_text v opt \<noteq> Inl (ContextProvenanceError i f)"
  "uint_slot v k \<noteq> Inl (ContextProvenanceError i f)"
  "ctx_get bd n opt \<noteq> Inl (ContextProvenanceError i f)"
  "py_list v \<noteq> Inl (ContextProvenanceError i f)"
  by (auto simp: rd_text_def uint_slot_def require_int_def ctx_get_def py_get_def py_getitem_def
      py_list_def res_simps split: pyval.splits if_splits ctx_binding.splits option.splits)

lemma ctx_text_no_provenance: "ctx_text bd n opt \<noteq> Inl (ContextProvenanceError i f)"
  by (auto simp: ctx_text_def res_simps no_provenance_elsewhere)

lemma mapR_no_exn: "(\<And>x. f x \<noteq> Inl e) \<Longrightarrow> mapR f xs \<noteq> Inl e"
  by (induction xs) (auto simp: res_simps)

lemma context_row_fault:
  "context_row i bd = Inl (ContextProvenanceError k f) \<Longrightarrow> k = i \<and> receipt_fault bd"
  unfolding context_row_def rbind_eq_Inl rbind_eq_Inr guard_eq_Inl guard_eq_Inr receipt_fault_def
  by (elim disjE exE conjE)
    (auto simp: no_provenance_elsewhere ctx_text_no_provenance mapR_no_exn split: if_splits option.splits)

lemma context_row_ok: "context_row i bd = Inr row \<Longrightarrow> \<not> receipt_fault bd"
  unfolding context_row_def rbind_eq_Inr guard_eq_Inr receipt_fault_def
  by (elim exE conjE) (auto split: option.splits)

lemma context_rows_fault:
  "context_rows i bds = Inl (ContextProvenanceError k f) \<Longrightarrow>
     \<exists>j. k = i + j \<and> j < length bds \<and> receipt_fault (bds ! j) \<and> (\<forall>m < j. \<not> receipt_fault (bds ! m))"
proof (induction bds arbitrary: i)
  case Nil
  then show ?case by simp
next
  case (Cons bd bds)
  show ?case
  proof (cases "context_row i bd")
    case (Inl e)
    with Cons.prems have "k = i" "receipt_fault bd" using context_row_fault [of i bd k f] by auto
    then show ?thesis by (intro exI [of _ 0]) simp
  next
    case (Inr row)
    with Cons.prems have "context_rows (Suc i) bds = Inl (ContextProvenanceError k f)"
      by (auto simp: res_simps)
    from Cons.IH [OF this] obtain j where "k = Suc i + j" "j < length bds" "receipt_fault (bds ! j)"
      "\<forall>m < j. \<not> receipt_fault (bds ! m)" by blast
    with context_row_ok [OF Inr] show ?thesis
      by (intro exI [of _ "Suc j"]) (auto simp: less_Suc_eq_0_disj nth_Cons')
  qed
qed

lemma context_rows_ok: "context_rows i bds = Inr rows \<Longrightarrow> bd \<in> set bds \<Longrightarrow> \<not> receipt_fault bd"
  by (induction bds arbitrary: i rows) (auto simp: res_simps dest: context_row_ok)

lemma context_row_parts_exn: "cat (context_row_parts row) = Inl e \<Longrightarrow> framing_exn e"
  by (drule cat_eq_Inl) (auto simp: context_row_parts_def dest: frame_exn [OF sym])

lemma context_preimage_exn: "context_preimage rows = Inl e \<Longrightarrow> framing_exn e"
  unfolding context_preimage_def
  by (drule cat_eq_Inl) (auto dest: context_row_parts_exn [OF sym] frame_exn [OF sym])

text \<open>A context refused for its provenance names the first binding at fault: the index carried by
  the exception is a position in stored order, the receipt fields of the binding there are unpaired
  or outside the vocabulary, and no earlier binding has such a fault.\<close>

theorem context_digest_v4_refusal:
  assumes "context_digest_v4 (CtxBindings bds) = Inl (ContextProvenanceError i f)"
  shows "i < length bds \<and> receipt_fault (bds ! i) \<and> (\<forall>m < i. \<not> receipt_fault (bds ! m))"
proof -
  have "context_rows 0 bds = Inl (ContextProvenanceError i f)"
    using assms context_preimage_exn
    by (auto simp: context_digest_v4_def res_simps framing_exn_def)
  from context_rows_fault [OF this] show ?thesis by auto
qed

text \<open>Bindings as dicts: the first has neither receipt field, the second a lower-case key status.\<close>

definition example_binding :: "(pyval \<times> pyval) list" where
  "example_binding =
     [(VStr (ustr ''ctx_ref''), VStr (ustr ''r'')), (VStr (ustr ''fidelity''), VStr (ustr ''f'')),
      (VStr (ustr ''classification''), VStr (ustr ''c'')), (VStr (ustr ''version''), VInt 1)]"

definition example_fault :: "(pyval \<times> pyval) list" where
  "example_fault = example_binding @
     [(VStr (ustr ''receipt_hash''), VStr (ustr ''h'')),
      (VStr (ustr ''receipt_key_status''), VStr (ustr ''historical''))]"

lemmas context_evals = context_digest_v4_def context_row_def ctx_text_def ctx_get_def py_get_def
  py_getitem_def rd_text_def uint_slot_def require_int_def is_plain_int_def int_of_def
  RECEIPT_KEY_STATUSES_def example_binding_def example_fault_def ustr_def

theorem context_digest_v4_refusal_witness:
  "receipt_fault (CtxDict example_fault) \<and> \<not> receipt_fault (CtxDict example_binding)"
proof -
  have "context_digest_v4 (CtxBindings [CtxDict example_binding, CtxDict example_fault])
      = Inl (ContextProvenanceError 1 ''receipt_key_status'')"
    by (simp add: context_evals)
  from context_digest_v4_refusal [OF this] show ?thesis by simp
qed

text \<open>C28: A context has a digest only when the receipt fields of every binding are paired and in the
  vocabulary, and the digest binds the bindings in stored order: two contexts with the same digest
  have the same rows, or their preimages are an explicit SHA-256 collision.\<close>

theorem context_digest_v4_binds:
  assumes "context_digest_v4 (CtxBindings bds) = Inr d" and "context_digest_v4 (CtxBindings bds') = Inr d"
  shows "\<not> list_ex receipt_fault bds \<and>
    (context_rows 0 bds = context_rows 0 bds' \<or>
     (\<exists>r r' p p'. context_rows 0 bds = Inr r \<and> context_preimage r = Inr p \<and>
        context_rows 0 bds' = Inr r' \<and> context_preimage r' = Inr p' \<and> sha256_collision p p'))"
proof -
  from assms obtain r r' p p' where r: "context_rows 0 bds = Inr r" "context_preimage r = Inr p"
    "context_rows 0 bds' = Inr r'" "context_preimage r' = Inr p'" and eq: "sha256 p = sha256 p'"
    by (auto simp: context_digest_v4_def res_simps)
  have "context_rows 0 bds = context_rows 0 bds' \<or> sha256_collision p p'"
    using sha256_eqD [OF eq] context_preimage_inj [of r p r'] r by auto
  moreover have "\<not> list_ex receipt_fault bds"
    using context_rows_ok [OF r(1)] by (simp add: list_ex_iff)
  ultimately show ?thesis using r by blast
qed

theorem context_digest_v4_binds_witness:
  "\<exists>d. context_digest_v4 (CtxBindings [CtxDict example_binding]) = Inr d \<and>
     \<not> list_ex receipt_fault [CtxDict example_binding]"
proof -
  have "\<exists>d. context_digest_v4 (CtxBindings [CtxDict example_binding]) = Inr d"
    by (simp add: context_evals context_preimage_def context_row_parts_def frame_present_text_def
        present_def frame_text_def frame_u32_def rd_opt_text_def frame_def rd_enc_def pack_u32_def
        utf8_encode_def utf8_cp_def CONTEXT_PROVENANCE_DOMAIN_V4_def)
  then obtain d where d: "context_digest_v4 (CtxBindings [CtxDict example_binding]) = Inr d" ..
  from context_digest_v4_binds [OF d d] d show ?thesis by blast
qed

end
