(* ===== verification/Credentials.thy ===== *)
theory Credentials
  imports Record_Digest "HOL-Library.Product_Lexorder" "HOL-Library.Multiset"
begin

text \<open>
  The signed credentials of \<open>crypto.py\<close>: the derived UUID and the admission presentation, the
  per-call signature payloads v2 and v3, the per-request payload, and the enrolment proof of
  possession. Ed25519 is code of another package: its operations are the fields of a record passed
  to the definitions, and \<open>ed25519_correct\<close> states what its documentation promises.
\<close>

unbundle bit_operations_syntax

section \<open>Ed25519 as a parameter\<close>

text \<open>\<open>from_private_bytes\<close>, \<open>public_key().public_bytes_raw()\<close>, \<open>sign\<close>, \<open>from_public_bytes\<close> and
  \<open>verify(signature, data)\<close>, which raises on a bad signature. A key object is its bytes.\<close>

record ed25519 =
  from_private_bytes :: "bytes \<Rightarrow> bytes res"
  public_bytes_raw :: "bytes \<Rightarrow> bytes"
  ed_sign :: "bytes \<Rightarrow> bytes \<Rightarrow> bytes"
  from_public_bytes :: "bytes \<Rightarrow> bytes res"
  ed_verify :: "bytes \<Rightarrow> bytes \<Rightarrow> bytes \<Rightarrow> unit res"

text \<open>A signature made with a private key verifies under its public key.\<close>

definition ed25519_correct :: "ed25519 \<Rightarrow> bool" where
  "ed25519_correct ed \<longleftrightarrow>
     (\<forall>seed sk. from_private_bytes ed seed = Inr sk \<longrightarrow>
        (\<exists>pk. from_public_bytes ed (public_bytes_raw ed sk) = Inr pk \<and>
           (\<forall>m. ed_verify ed pk (ed_sign ed sk m) m = Inr ())))"

section \<open>Derived UUIDs and the presentation\<close>

definition PROOF_DOMAIN :: bytes where
  "PROOF_DOMAIN = bstr ''aitp-pinned-key-v1'' @ [0x00]"

text \<open>A UUID is its 16 bytes; \<open>str\<close> of it is lower-case hex in groups of 8, 4, 4, 4 and 12.\<close>

definition derived_uuid :: "ustr \<Rightarrow> bytes \<Rightarrow> bytes res" where
  "derived_uuid tag data =
     rbind (ascii_encode tag) (\<lambda>t.
       let h = take 16 (sha256 (t @ [0x00] @ data));
           h1 = h[6 := (h ! 6 AND 0x0F) OR 0x40];
           h2 = h1[8 := (h1 ! 8 AND 0x3F) OR 0x80]
       in Inr h2)"

definition uuid_str :: "bytes \<Rightarrow> ustr" where
  "uuid_str u =
     (let s = hex u
      in take 8 s @ [45] @ take 4 (drop 8 s) @ [45] @ take 4 (drop 12 s) @ [45]
         @ take 4 (drop 16 s) @ [45] @ drop 20 s)"

definition POP_MESSAGE_ID_TAG :: ustr where
  "POP_MESSAGE_ID_TAG = ustr ''seam-pop-mid-v1''"

definition pop_message_id :: "ustr \<Rightarrow> bytes res" where
  "pop_message_id pop_nonce = rbind (ascii_encode pop_nonce) (derived_uuid POP_MESSAGE_ID_TAG)"

record descriptor =
  d_type :: ustr
  d_subject :: ustr
  d_proof :: ustr
  d_public_key :: ustr

record presentation =
  p_sender_aid :: ustr
  p_descriptor :: descriptor
  p_message_id :: ustr
  p_timestamp :: int
  p_pop_nonce :: ustr

definition proof_input :: "ustr \<Rightarrow> ustr \<Rightarrow> bytes \<Rightarrow> int \<Rightarrow> ustr \<Rightarrow> bytes res" where
  "proof_input sender_aid receiver_aid mid timestamp pop_nonce =
     cat [Inr PROOF_DOMAIN, utf8_encode sender_aid, Inr [0x00], utf8_encode receiver_aid, Inr [0x00],
          utf8_encode (uuid_str mid), Inr [0x00], ascii_encode (str_int timestamp), Inr [0x00],
          b64url_decode pop_nonce]"

definition build_presentation ::
    "ed25519 \<Rightarrow> bytes \<Rightarrow> ustr \<Rightarrow> ustr \<Rightarrow> int \<Rightarrow> presentation res" where
  "build_presentation ed agent_seed receiver_aid pop_nonce now_ms =
     rbind (from_private_bytes ed agent_seed) (\<lambda>sk.
     let pub = public_bytes_raw ed sk; sender_aid = aid_from_pubkey pub in
     rbind (pop_message_id pop_nonce) (\<lambda>mid.
     let timestamp = now_ms div 1000 in
     rbind (proof_input sender_aid receiver_aid mid timestamp pop_nonce) (\<lambda>inp.
     let proof = b64url_nopad (ed_sign ed sk (sha256 inp)) in
     Inr \<lparr>p_sender_aid = sender_aid,
          p_descriptor = \<lparr>d_type = ustr ''pinned_key'', d_subject = sender_aid, d_proof = proof,
                          d_public_key = b64url_nopad pub\<rparr>,
          p_message_id = uuid_str mid, p_timestamp = timestamp, p_pop_nonce = pop_nonce\<rparr>)))"

section \<open>The per-call and per-request payloads\<close>

definition CALL_SIG_CONTEXT :: bytes where
  "CALL_SIG_CONTEXT = bstr ''seam-authorize-call-v2''"

definition call_sig_payload :: "bytes \<Rightarrow> ustr \<Rightarrow> ustr \<Rightarrow> ustr \<Rightarrow> bytes res" where
  "call_sig_payload ticket tool_input_digest tool_name agent_id =
     rbind (utf8_encode tool_input_digest) (\<lambda>d.
     rbind (utf8_encode tool_name) (\<lambda>n.
     rbind (utf8_encode agent_id) (\<lambda>a.
     cat (map frame [CALL_SIG_CONTEXT, ticket, d, n, a]))))"

definition call_sig :: "ed25519 \<Rightarrow> bytes \<Rightarrow> bytes \<Rightarrow> ustr \<Rightarrow> ustr \<Rightarrow> ustr \<Rightarrow> bytes res" where
  "call_sig ed agent_seed ticket digest tool_name agent_id =
     rbind (from_private_bytes ed agent_seed) (\<lambda>sk.
     rbind (call_sig_payload ticket digest tool_name agent_id) (\<lambda>p. Inr (ed_sign ed sk p)))"

definition REQUEST_SIG_CONTEXT :: bytes where
  "REQUEST_SIG_CONTEXT = bstr ''seam-request-call-v1''"

definition request_sig_payload :: "bytes \<Rightarrow> ustr \<Rightarrow> ustr \<Rightarrow> ustr \<Rightarrow> bytes res" where
  "request_sig_payload ticket rpc_full_name resource_id body_digest =
     rbind (utf8_encode rpc_full_name) (\<lambda>r.
     rbind (utf8_encode resource_id) (\<lambda>i.
     rbind (utf8_encode body_digest) (\<lambda>b.
     cat (map frame [REQUEST_SIG_CONTEXT, ticket, r, i, b]))))"

definition request_sig :: "ed25519 \<Rightarrow> bytes \<Rightarrow> bytes \<Rightarrow> ustr \<Rightarrow> ustr \<Rightarrow> ustr \<Rightarrow> bytes res" where
  "request_sig ed agent_seed ticket rpc_full_name resource_id body_digest =
     rbind (from_private_bytes ed agent_seed) (\<lambda>sk.
     rbind (request_sig_payload ticket rpc_full_name resource_id body_digest) (\<lambda>p.
       Inr (ed_sign ed sk p)))"

text \<open>The attribution fields v3 signs on top of v2; \<open>features\<close> is a dict in insertion order, or
  \<open>None\<close>.\<close>

record v3_fields =
  f_ticket :: bytes
  f_tool_input_digest :: ustr
  f_tool_name :: ustr
  f_agent_id :: ustr
  f_subject :: ustr
  f_subjects :: "ustr list"
  f_client_request_id :: ustr
  f_session_id :: ustr
  f_features :: "(ustr \<times> ustr) list option"

definition CALL_SIG_V3_CONTEXT :: bytes where
  "CALL_SIG_V3_CONTEXT = bstr ''seam-authorize-call-v3''"

definition encode_feature :: "ustr \<times> ustr \<Rightarrow> (bytes \<times> bytes) res" where
  "encode_feature kv =
     rbind (utf8_encode (fst kv)) (\<lambda>k. rbind (utf8_encode (snd kv)) (\<lambda>v. Inr (k, v)))"

definition features_of :: "v3_fields \<Rightarrow> (ustr \<times> ustr) list" where
  "features_of f = (case f_features f of None \<Rightarrow> [] | Some kvs \<Rightarrow> kvs)"

definition frame_pair :: "bytes \<times> bytes \<Rightarrow> bytes res" where
  "frame_pair kv = cat [frame (fst kv), frame (snd kv)]"

definition call_sig_v3_payload :: "v3_fields \<Rightarrow> bytes res" where
  "call_sig_v3_payload f =
     rbind (mapR encode_feature (features_of f)) (\<lambda>encoded.
     let feats = sort encoded in
     cat ([frame CALL_SIG_V3_CONTEXT,
           frame (f_ticket f),
           frame_text (f_tool_input_digest f),
           frame_text (f_tool_name f),
           frame_text (f_agent_id f),
           frame_text (f_subject f),
           frame_u32 (length (f_subjects f))]
          @ map frame_text (f_subjects f)
          @ [frame_text (f_client_request_id f),
             frame_text (f_session_id f),
             frame_u32 (length feats)]
          @ map frame_pair feats))"

definition call_sig_v3 :: "ed25519 \<Rightarrow> bytes \<Rightarrow> v3_fields \<Rightarrow> bytes res" where
  "call_sig_v3 ed agent_seed f =
     rbind (from_private_bytes ed agent_seed) (\<lambda>sk.
     rbind (call_sig_v3_payload f) (\<lambda>p. Inr (ed_sign ed sk p)))"

section \<open>The enrolment proof\<close>

definition ENROLL_POP_V1_CONTEXT :: bytes where
  "ENROLL_POP_V1_CONTEXT = bstr ''seam-enroll-pop-v1''"

definition ENROLL_POP_NONCE_MAX_LEN :: nat where
  "ENROLL_POP_NONCE_MAX_LEN = 128"

definition ENROLL_POP_NONCE_CHARS :: "ustr" where
  "ENROLL_POP_NONCE_CHARS = ustr ''ABCDEFGHIJKLMNOPQRSTUVWXYZabcdefghijklmnopqrstuvwxyz0123456789_-''"

definition validate_enroll_pop_nonce :: "pyval \<Rightarrow> ustr res" where
  "validate_enroll_pop_nonce nonce =
     (case nonce of
        VStr s \<Rightarrow>
          (if \<not> (1 \<le> length s \<and> length s \<le> ENROLL_POP_NONCE_MAX_LEN) then Inl ValueError
           else if \<not> set s \<subseteq> set ENROLL_POP_NONCE_CHARS then Inl ValueError
           else Inr s)
      | _ \<Rightarrow> Inl TypeError)"

text \<open>The 16 bytes \<open>secrets.token_bytes\<close> returned are an argument.\<close>

definition new_enroll_pop_nonce :: "bytes \<Rightarrow> ustr" where
  "new_enroll_pop_nonce random16 = b64url_nopad random16"

definition enroll_pop_payload :: "ustr \<Rightarrow> ustr \<Rightarrow> ustr \<Rightarrow> pyval \<Rightarrow> ustr \<Rightarrow> bytes res" where
  "enroll_pop_payload subject_aid tenant namespace issued_at_ms nonce =
     cat [frame ENROLL_POP_V1_CONTEXT,
          frame_text subject_aid,
          frame_text tenant,
          frame_text namespace,
          rbind (uint_slot issued_at_ms 64) frame_u64,
          frame_text nonce]"

record enroll_proof =
  ep_issued_at_ms :: pyval
  ep_nonce :: ustr
  ep_signature :: bytes

definition signature_b64url :: "enroll_proof \<Rightarrow> ustr" where
  "signature_b64url p = b64url_nopad (ep_signature p)"

definition to_rest :: "enroll_proof \<Rightarrow> pyval" where
  "to_rest p =
     VDict [(VStr (ustr ''issued_at_ms''), ep_issued_at_ms p), (VStr (ustr ''nonce''), VStr (ep_nonce p)),
            (VStr (ustr ''signature''), VStr (signature_b64url p))]"

definition enroll_pop ::
    "ed25519 \<Rightarrow> bytes \<Rightarrow> ustr \<Rightarrow> ustr \<Rightarrow> pyval \<Rightarrow> pyval \<Rightarrow> enroll_proof res" where
  "enroll_pop ed agent_seed tenant namespace issued n =
     rbind (validate_enroll_pop_nonce n) (\<lambda>s.
     rbind (from_private_bytes ed agent_seed) (\<lambda>sk.
     let subject_aid = aid_from_pubkey (public_bytes_raw ed sk) in
     rbind (enroll_pop_payload subject_aid tenant namespace issued s) (\<lambda>payload.
     Inr \<lparr>ep_issued_at_ms = issued, ep_nonce = s, ep_signature = ed_sign ed sk payload\<rparr>)))"

definition verify_enroll_pop ::
    "ed25519 \<Rightarrow> ustr \<Rightarrow> ustr \<Rightarrow> ustr \<Rightarrow> pyval \<Rightarrow> ustr \<Rightarrow> bytes \<Rightarrow> bool" where
  "verify_enroll_pop ed subject_aid tenant namespace issued n sig =
     (case rbind (aid_to_pubkey subject_aid) (\<lambda>raw.
           rbind (from_public_bytes ed raw) (\<lambda>pk.
           rbind (enroll_pop_payload subject_aid tenant namespace issued n) (\<lambda>payload.
             ed_verify ed pk sig payload))) of
        Inr _ \<Rightarrow> True
      | Inl _ \<Rightarrow> False)"

section \<open>Every payload binds its fields\<close>

interpretation fpair: self_delimiting frame_pair
proof -
  have "self_delimiting (\<lambda>kv. cat [frame (fst kv), frame (snd kv)])"
  proof (rule self_delimiting_parts)
    fix x y :: "bytes \<times> bytes" and ps qs b
    assume "cat ([frame (fst x), frame (snd x)] @ ps) = Inr b"
      "cat ([frame (fst y), frame (snd y)] @ qs) = Inr b"
    then show "x = y \<and> (\<exists>c. cat ps = Inr c \<and> cat qs = Inr c)"
      unfolding append_Cons append_Nil
      by - ((erule (1) fr.peelE)+, auto simp: prod_eq_iff)
  qed
  then show "self_delimiting frame_pair" by (simp add: frame_pair_def [abs_def])
qed

text \<open>Each payload is a context frame followed by the rest, so equal payloads have equal contexts.\<close>

lemma payload_context:
  "call_sig_payload t d n a = Inr p \<Longrightarrow> \<exists>r. cat (frame CALL_SIG_CONTEXT # r) = Inr p"
  "request_sig_payload t d n a = Inr p \<Longrightarrow> \<exists>r. cat (frame REQUEST_SIG_CONTEXT # r) = Inr p"
  "call_sig_v3_payload f = Inr p \<Longrightarrow> \<exists>r. cat (frame CALL_SIG_V3_CONTEXT # r) = Inr p"
  "enroll_pop_payload s tn ns i nn = Inr p \<Longrightarrow> \<exists>r. cat (frame ENROLL_POP_V1_CONTEXT # r) = Inr p"
  unfolding call_sig_payload_def request_sig_payload_def call_sig_v3_payload_def
    enroll_pop_payload_def rbind_eq_Inr Let_def list.map append_Cons append_Nil
  by blast+

lemma contexts_distinct:
  "distinct [CALL_SIG_CONTEXT, REQUEST_SIG_CONTEXT, CALL_SIG_V3_CONTEXT, ENROLL_POP_V1_CONTEXT]"
  by (simp add: CALL_SIG_CONTEXT_def REQUEST_SIG_CONTEXT_def CALL_SIG_V3_CONTEXT_def
      ENROLL_POP_V1_CONTEXT_def bstr_def)

lemma same_context: "cat (frame c # r) = Inr p \<Longrightarrow> cat (frame c' # r') = Inr p \<Longrightarrow> c = c'"
  by (erule (1) fr.peelE)

lemma call_sig_payload_inj:
  assumes "call_sig_payload t d n a = Inr p" "call_sig_payload t' d' n' a' = Inr p"
  shows "t = t' \<and> d = d' \<and> n = n' \<and> a = a'"
  using assms unfolding call_sig_payload_def rbind_eq_Inr list.map
  by - ((elim exE conjE), (erule (1) fr.peelE)+, auto dest: utf8_encode_inj)

lemma request_sig_payload_inj:
  assumes "request_sig_payload t r i b = Inr p" "request_sig_payload t' r' i' b' = Inr p"
  shows "t = t' \<and> r = r' \<and> i = i' \<and> b = b'"
  using assms unfolding request_sig_payload_def rbind_eq_Inr list.map
  by - ((elim exE conjE), (erule (1) fr.peelE)+, auto dest: utf8_encode_inj)

lemma uint_slot_inj: "uint_slot v k = Inr n \<Longrightarrow> uint_slot w k = Inr n \<Longrightarrow> v = w"
  by (auto simp: uint_slot_Inr)

interpretation fslot: self_delimiting "\<lambda>v. rbind (uint_slot v 64) frame_u64"
  by (rule self_delimiting_comp [OF fu64.self_delimiting_axioms uint_slot_inj])

lemma enroll_pop_payload_inj:
  assumes "enroll_pop_payload s t n i nn = Inr p" "enroll_pop_payload s' t' n' i' nn' = Inr p"
  shows "s = s' \<and> t = t' \<and> n = n' \<and> i = i' \<and> nn = nn'"
  using assms unfolding enroll_pop_payload_def
  by - ((erule (1) fr.peelE ft.peelE fslot.peelE)+, simp)

text \<open>The features are bound up to their order: sorting the encoded pairs is injective on multisets.\<close>

lemma encode_feature_inj: "encode_feature x = Inr b \<Longrightarrow> encode_feature y = Inr b \<Longrightarrow> x = y"
  by (auto simp: encode_feature_def res_simps prod_eq_iff dest: utf8_encode_inj)

lemma mapR_mset_inj:
  assumes inj: "\<And>x y b. f x = Inr b \<Longrightarrow> f y = Inr b \<Longrightarrow> x = y"
    and "mapR f xs = Inr bs" "mapR f ys = Inr cs" "mset bs = mset cs"
  shows "mset xs = mset ys"
proof -
  define g where "g b = (SOME x. f x = Inr b)" for b
  have g: "f x = Inr b \<Longrightarrow> g b = x" for x b
    unfolding g_def using inj by (metis (mono_tags, lifting) someI)
  have "mapR f zs = Inr ds \<Longrightarrow> zs = map g ds" for zs ds
    unfolding mapR_eq_Inr by (induction rule: list_all2_induct) (auto simp: g)
  with assms(2-4) show ?thesis by (metis mset_map)
qed

text \<open>Two v3 requests that differ at most in the order of their features.\<close>

definition same_v3 :: "v3_fields \<Rightarrow> v3_fields \<Rightarrow> bool" where
  "same_v3 f g \<longleftrightarrow>
     f_ticket f = f_ticket g \<and> f_tool_input_digest f = f_tool_input_digest g \<and>
     f_tool_name f = f_tool_name g \<and> f_agent_id f = f_agent_id g \<and>
     f_subject f = f_subject g \<and> f_subjects f = f_subjects g \<and>
     f_client_request_id f = f_client_request_id g \<and> f_session_id f = f_session_id g \<and>
     mset (features_of f) = mset (features_of g)"

lemma call_sig_v3_payload_inj:
  assumes "call_sig_v3_payload f = Inr p" "call_sig_v3_payload g = Inr p"
  shows "same_v3 f g"
proof -
  let ?head = "\<lambda>f r. frame CALL_SIG_V3_CONTEXT # frame (f_ticket f) # frame_text (f_tool_input_digest f)
      # frame_text (f_tool_name f) # frame_text (f_agent_id f) # frame_text (f_subject f) # r"
  let ?tail = "\<lambda>f fs. frame_text (f_client_request_id f) # frame_text (f_session_id f)
      # frame_u32 (length fs) # map frame_pair fs @ []"
  let ?subj = "\<lambda>f fs. frame_u32 (length (f_subjects f)) # map frame_text (f_subjects f) @ ?tail f fs"
  from assms obtain fs gs where fs: "mapR encode_feature (features_of f) = Inr fs"
      "mapR encode_feature (features_of g) = Inr gs"
    and p: "cat (?head f (?subj f (sort fs))) = Inr p" "cat (?head g (?subj g (sort gs))) = Inr p"
    unfolding call_sig_v3_payload_def rbind_eq_Inr Let_def append_assoc append_Cons append_Nil append_Nil2
    by blast
  from p obtain c where heads: "f_ticket f = f_ticket g" "f_tool_input_digest f = f_tool_input_digest g"
      "f_tool_name f = f_tool_name g" "f_agent_id f = f_agent_id g" "f_subject f = f_subject g"
    and c: "cat (?subj f (sort fs)) = Inr c" "cat (?subj g (sort gs)) = Inr c"
    by - ((erule (1) fr.peelE ft.peelE)+, rule that)
  from counted_run [OF fu32.self_delimiting_axioms ft.self_delimiting_axioms c]
  obtain d where subj: "f_subjects f = f_subjects g"
    and d: "cat (?tail f (sort fs)) = Inr d" "cat (?tail g (sort gs)) = Inr d" by blast
  from d obtain e where ids: "f_client_request_id f = f_client_request_id g" "f_session_id f = f_session_id g"
    and e: "cat (frame_u32 (length (sort fs)) # map frame_pair (sort fs) @ []) = Inr e"
      "cat (frame_u32 (length (sort gs)) # map frame_pair (sort gs) @ []) = Inr e"
    by - ((erule (1) ft.peelE)+, rule that)
  from counted_run [OF fu32.self_delimiting_axioms fpair.self_delimiting_axioms e]
  have "sort fs = sort gs" by simp
  then have "mset fs = mset gs" by (metis mset_sort)
  from mapR_mset_inj [OF encode_feature_inj fs this] heads subj ids
  show ?thesis by (simp add: same_v3_def)
qed

text \<open>What an agent key signs, one constructor per payload function.\<close>

datatype signed_message =
    SignedCall bytes ustr ustr ustr
  | SignedCallV3 v3_fields
  | SignedRequest bytes ustr ustr ustr
  | SignedEnroll ustr ustr ustr pyval ustr

definition signed_payload :: "signed_message \<Rightarrow> bytes res" where
  "signed_payload m =
     (case m of
        SignedCall t d n a \<Rightarrow> call_sig_payload t d n a
      | SignedCallV3 f \<Rightarrow> call_sig_v3_payload f
      | SignedRequest t r i b \<Rightarrow> request_sig_payload t r i b
      | SignedEnroll s t n i c \<Rightarrow> enroll_pop_payload s t n i c)"

fun same_message :: "signed_message \<Rightarrow> signed_message \<Rightarrow> bool" where
  "same_message (SignedCallV3 f) (SignedCallV3 g) = same_v3 f g"
| "same_message m m' = (m = m')"

lemma signed_context:
  assumes "signed_payload m = Inr p"
  shows "\<exists>r. cat (frame (case m of SignedCall _ _ _ _ \<Rightarrow> CALL_SIG_CONTEXT
      | SignedCallV3 _ \<Rightarrow> CALL_SIG_V3_CONTEXT | SignedRequest _ _ _ _ \<Rightarrow> REQUEST_SIG_CONTEXT
      | SignedEnroll _ _ _ _ _ \<Rightarrow> ENROLL_POP_V1_CONTEXT) # r) = Inr p"
  using assms payload_context by (cases m) (simp_all add: signed_payload_def del: cat.simps)

text \<open>C25: A signature is good for one message only: if two of the four payload functions (authorize
  call v2, authorize call v3, request credential, enrolment proof) produce the same bytes, they are
  the same function on the same fields, the v3 features compared up to the order of the dict. No
  credential of one kind can be spent as another, and no field can be moved into its neighbour.\<close>

theorem signed_payload_binds:
  assumes "signed_payload m = Inr p" and "signed_payload m' = Inr p"
  shows "same_message m m'"
proof -
  obtain r r' where r: "cat (frame (case m of SignedCall _ _ _ _ \<Rightarrow> CALL_SIG_CONTEXT
      | SignedCallV3 _ \<Rightarrow> CALL_SIG_V3_CONTEXT | SignedRequest _ _ _ _ \<Rightarrow> REQUEST_SIG_CONTEXT
      | SignedEnroll _ _ _ _ _ \<Rightarrow> ENROLL_POP_V1_CONTEXT) # r) = Inr p"
    "cat (frame (case m' of SignedCall _ _ _ _ \<Rightarrow> CALL_SIG_CONTEXT
      | SignedCallV3 _ \<Rightarrow> CALL_SIG_V3_CONTEXT | SignedRequest _ _ _ _ \<Rightarrow> REQUEST_SIG_CONTEXT
      | SignedEnroll _ _ _ _ _ \<Rightarrow> ENROLL_POP_V1_CONTEXT) # r') = Inr p"
    using signed_context [OF assms(1)] signed_context [OF assms(2)] by blast
  note ctx = same_context [OF r]
  show ?thesis
    using assms ctx contexts_distinct call_sig_payload_inj call_sig_v3_payload_inj
      request_sig_payload_inj enroll_pop_payload_inj
    by (cases m; cases m'; simp add: signed_payload_def del: cat.simps)
qed

text \<open>The same v3 request with its features in two insertion orders.\<close>

definition example_v3 :: "(ustr \<times> ustr) list \<Rightarrow> v3_fields" where
  "example_v3 feats =
     \<lparr>f_ticket = [1, 2, 3], f_tool_input_digest = ustr ''sha256:00'', f_tool_name = ustr ''read'',
      f_agent_id = [], f_subject = ustr ''s'', f_subjects = [ustr ''a'', ustr ''b''],
      f_client_request_id = [], f_session_id = ustr ''x'', f_features = Some feats\<rparr>"

theorem signed_payload_binds_witness:
  "\<exists>p. signed_payload (SignedCallV3 (example_v3 [([98], [49]), ([97], [50])])) = Inr p \<and>
     signed_payload (SignedCallV3 (example_v3 [([97], [50]), ([98], [49])])) = Inr p \<and>
     same_message (SignedCallV3 (example_v3 [([98], [49]), ([97], [50])]))
       (SignedCallV3 (example_v3 [([97], [50]), ([98], [49])]))"
proof -
  let ?m = "SignedCallV3 (example_v3 [([98], [49]), ([97], [50])])"
  let ?m' = "SignedCallV3 (example_v3 [([97], [50]), ([98], [49])])"
  have "\<exists>p. signed_payload ?m = Inr p \<and> signed_payload ?m' = Inr p"
    by (simp add: signed_payload_def call_sig_v3_payload_def example_v3_def features_of_def
        encode_feature_def frame_pair_def frame_text_def frame_u32_def frame_def rd_enc_def
        pack_u32_def utf8_encode_def utf8_cp_def CALL_SIG_V3_CONTEXT_def ustr_def)
  then obtain p where "signed_payload ?m = Inr p" "signed_payload ?m' = Inr p" by blast
  with signed_payload_binds [of ?m p ?m'] show ?thesis by blast
qed

section \<open>The enrolment proof verifies\<close>

text \<open>C29: An enrolment proof verifies for exactly the subject, tenant, namespace, time and nonce it was
  made for: \<open>verify_enroll_pop\<close> accepts what \<open>enroll_pop\<close> returns under the AID of the signing key,
  for every Ed25519 whose signatures verify under their own key.\<close>

theorem enroll_pop_verifies:
  assumes "ed25519_correct ed" and "from_private_bytes ed seed = Inr sk"
    and "enroll_pop ed seed tenant namespace issued n = Inr pr"
  shows "verify_enroll_pop ed (aid_from_pubkey (public_bytes_raw ed sk)) tenant namespace
    (ep_issued_at_ms pr) (ep_nonce pr) (ep_signature pr)"
proof -
  from assms(2,3) obtain s payload where
    pr: "pr = \<lparr>ep_issued_at_ms = issued, ep_nonce = s, ep_signature = ed_sign ed sk payload\<rparr>"
    and payload: "enroll_pop_payload (aid_from_pubkey (public_bytes_raw ed sk)) tenant namespace issued s = Inr payload"
    by (auto simp: enroll_pop_def res_simps Let_def)
  from assms(1,2) obtain pk where "from_public_bytes ed (public_bytes_raw ed sk) = Inr pk"
    "ed_verify ed pk (ed_sign ed sk payload) payload = Inr ()"
    unfolding ed25519_correct_def by blast
  with payload show ?thesis by (simp add: verify_enroll_pop_def pr aid.roundtrip)
qed

text \<open>A toy signature scheme in which the hypothesis holds: the key signs by prefixing itself.\<close>

definition example_ed :: ed25519 where
  "example_ed =
     \<lparr>from_private_bytes = (\<lambda>b. if length b = 32 then Inr b else Inl ValueError),
      public_bytes_raw = (\<lambda>b. b), ed_sign = (\<lambda>k m. k @ m),
      from_public_bytes = (\<lambda>b. if length b = 32 then Inr b else Inl ValueError),
      ed_verify = (\<lambda>k s m. if s = k @ m then Inr () else Inl InvalidSignature)\<rparr>"

lemma example_ed_correct: "ed25519_correct example_ed"
  by (auto simp: ed25519_correct_def example_ed_def)

lemmas text_evals = frame_text_def frame_u32_def frame_u64_def frame_def rd_enc_def pack_u32_def
  pack_u64_def utf8_encode_def utf8_cp_def ustr_def

lemma aid_ascii: "c \<in> set (aid_from_pubkey k) \<Longrightarrow> c \<noteq> 0 \<and> c < 0x80"
proof -
  have "c \<in> set (b64url_nopad k) \<Longrightarrow> c \<noteq> 0"
    using b64_chars_set [of c k] by (auto simp: b64url_nopad_eq b64_char_def split: if_splits)
  then show "c \<in> set (aid_from_pubkey k) \<Longrightarrow> c \<noteq> 0 \<and> c < 0x80"
    using b64url_ascii [of c k] by (auto simp: aid_from_pubkey_def AID_PREFIX_def ustr_def)
qed

lemma frame_text_ascii:
  "\<forall>c \<in> set s. c < 0x80 \<Longrightarrow> length s < 2 ^ 32 \<Longrightarrow> \<exists>b. frame_text s = Inr b"
  by (simp add: frame_text_ok text_ok_def utf8_encode_ascii)

theorem enroll_pop_verifies_witness:
  "\<exists>pr. enroll_pop example_ed (replicate 32 7) (ustr ''acme'') (ustr ''prod'') (VInt 1000) (VStr (ustr ''n-1'')) = Inr pr \<and>
     verify_enroll_pop example_ed (aid_from_pubkey (replicate 32 7)) (ustr ''acme'') (ustr ''prod'')
       (ep_issued_at_ms pr) (ep_nonce pr) (ep_signature pr)"
proof -
  let ?k = "replicate 32 7 :: bytes"
  have "length (aid_from_pubkey ?k) < 2 ^ 32"
    by (simp add: aid_from_pubkey_def AID_PREFIX_def length_b64url_nopad)
  then obtain b where "frame_text (aid_from_pubkey ?k) = Inr b"
    using frame_text_ascii aid_ascii by meson
  then have "\<exists>pr. enroll_pop example_ed ?k (ustr ''acme'') (ustr ''prod'') (VInt 1000) (VStr (ustr ''n-1'')) = Inr pr"
    by (simp add: enroll_pop_def validate_enroll_pop_nonce_def ENROLL_POP_NONCE_MAX_LEN_def
        ENROLL_POP_NONCE_CHARS_def example_ed_def enroll_pop_payload_def uint_slot_Inr Let_def res_simps)
      (simp add: text_evals ENROLL_POP_V1_CONTEXT_def)
  then obtain pr where pr: "enroll_pop example_ed ?k (ustr ''acme'') (ustr ''prod'') (VInt 1000) (VStr (ustr ''n-1'')) = Inr pr" ..
  have "from_private_bytes example_ed ?k = Inr ?k" "public_bytes_raw example_ed ?k = ?k"
    by (simp_all add: example_ed_def)
  with enroll_pop_verifies [OF example_ed_correct _ pr, of ?k] pr show ?thesis by auto
qed

section \<open>The presentation\<close>

text \<open>C31: A derived id is an RFC 9562 version 4 UUID: 16 bytes whose version nibble is 4 and whose
  variant bits are 10, whatever the tag and the data.\<close>

theorem derived_uuid_v4:
  assumes "derived_uuid tag data = Inr u"
  shows "length u = 16 \<and> drop_bit 4 (u ! 6) = 4 \<and> drop_bit 6 (u ! 8) = 2"
  using assms by (auto simp: derived_uuid_def res_simps Let_def drop_bit_and drop_bit_or)

theorem derived_uuid_v4_witness:
  "\<exists>u. derived_uuid POP_MESSAGE_ID_TAG [1, 2] = Inr u \<and> length u = 16 \<and> drop_bit 4 (u ! 6) = 4 \<and>
     drop_bit 6 (u ! 8) = 2"
proof -
  have "\<exists>u. derived_uuid POP_MESSAGE_ID_TAG [1, 2] = Inr u"
    by (simp add: derived_uuid_def POP_MESSAGE_ID_TAG_def ascii_encode_def ustr_def Let_def)
  then show ?thesis using derived_uuid_v4 by blast
qed

text \<open>C30: The proof of a presentation verifies: the key recovered from the sender AID accepts the decoded
  proof over the SHA-256 of the documented layout, recomputed from the presentation's own sender
  AID, message id, timestamp and nonce and from the receiver it was built for.\<close>

theorem build_presentation_verifies:
  assumes "ed25519_correct ed" and "build_presentation ed seed receiver_aid pop_nonce now_ms = Inr p"
  shows "\<exists>raw pk mid inp sig. aid_to_pubkey (p_sender_aid p) = Inr raw \<and>
    from_public_bytes ed raw = Inr pk \<and> d_subject (p_descriptor p) = p_sender_aid p \<and>
    b64url_decode (d_public_key (p_descriptor p)) = Inr raw \<and>
    pop_message_id (p_pop_nonce p) = Inr mid \<and> p_message_id p = uuid_str mid \<and>
    proof_input (p_sender_aid p) receiver_aid mid (p_timestamp p) (p_pop_nonce p) = Inr inp \<and>
    b64url_decode (d_proof (p_descriptor p)) = Inr sig \<and> ed_verify ed pk sig (sha256 inp) = Inr ()"
proof -
  from assms(2) obtain sk mid inp where sk: "from_private_bytes ed seed = Inr sk"
    and mid: "pop_message_id pop_nonce = Inr mid"
    and inp: "proof_input (aid_from_pubkey (public_bytes_raw ed sk)) receiver_aid mid (now_ms div 1000) pop_nonce = Inr inp"
    and p: "p = \<lparr>p_sender_aid = aid_from_pubkey (public_bytes_raw ed sk),
        p_descriptor = \<lparr>d_type = ustr ''pinned_key'', d_subject = aid_from_pubkey (public_bytes_raw ed sk),
          d_proof = b64url_nopad (ed_sign ed sk (sha256 inp)),
          d_public_key = b64url_nopad (public_bytes_raw ed sk)\<rparr>,
        p_message_id = uuid_str mid, p_timestamp = now_ms div 1000, p_pop_nonce = pop_nonce\<rparr>"
    unfolding build_presentation_def rbind_eq_Inr Let_def by blast
  from assms(1) sk obtain pk where "from_public_bytes ed (public_bytes_raw ed sk) = Inr pk"
    "ed_verify ed pk (ed_sign ed sk (sha256 inp)) (sha256 inp) = Inr ()"
    unfolding ed25519_correct_def by blast
  with mid inp show ?thesis by (simp add: p aid.roundtrip b64url.roundtrip)
qed

lemma hex_chars: "c \<in> set (hex b) \<Longrightarrow> 48 \<le> c \<and> c \<le> 102"
proof (induction b)
  case (Cons x b)
  have "unat x div 16 < 16" using unat_byte_lt [of x] by simp
  moreover have "v < 16 \<Longrightarrow> 48 \<le> hex_digit v \<and> hex_digit v \<le> 102" for v
    by (simp add: hex_digit_def)
  ultimately show ?case using Cons by auto
qed simp

lemma uuid_str_chars: "c \<in> set (uuid_str u) \<Longrightarrow> 45 \<le> c \<and> c < 0x80"
  using hex_chars [of c u]
  by (auto simp: uuid_str_def Let_def dest!: in_set_takeD in_set_dropD)

lemma byte_nonzero: "0 < n \<Longrightarrow> n < 256 \<Longrightarrow> (of_nat n :: byte) \<noteq> 0"
  by (metis unat_0 unat_byte_of_nat less_irrefl)

lemma utf8_cp_no_nul:
  assumes p: "utf8_cp c = Inr p" and c: "c \<noteq> 0"
  shows "0 \<notin> set p"
proof -
  have "\<exists>ns. p = map of_nat ns \<and> (\<forall>n \<in> set ns. 0 < n \<and> n < 256)"
  proof (cases "c < 0x80")
    case True
    with p c show ?thesis by (intro exI [of _ "[c]"]) (auto simp: utf8_cp_def)
  next
    case ge80: False
    show ?thesis
    proof (cases "c < 0x800")
      case True
      with ge80 p show ?thesis
        by (intro exI [of _ "[0xC0 + c div 64, 0x80 + c mod 64]"]) (auto simp: utf8_cp_def div_less_iff_less_mult)
    next
      case ge800: False
      show ?thesis
      proof (cases "c < 0x10000")
        case True
        with ge80 ge800 p show ?thesis
          by (intro exI [of _ "[0xE0 + c div 4096, 0x80 + c div 64 mod 64, 0x80 + c mod 64]"])
            (auto simp: utf8_cp_def div_less_iff_less_mult split: if_splits)
      next
        case False
        with ge80 ge800 p show ?thesis
          by (intro exI [of _ "[0xF0 + c div 262144, 0x80 + c div 4096 mod 64, 0x80 + c div 64 mod 64,
                0x80 + c mod 64]"]) (auto simp: utf8_cp_def div_less_iff_less_mult split: if_splits)
      qed
    qed
  qed
  then show ?thesis using byte_nonzero by (auto simp: image_iff)
qed

lemma utf8_no_nul: "utf8_encode s = Inr b \<Longrightarrow> 0 \<notin> set s \<Longrightarrow> 0 \<notin> set b"
proof (induction s arbitrary: b)
  case Nil
  then show ?case by (simp add: utf8_encode_def)
next
  case (Cons c s)
  then obtain p q where "utf8_cp c = Inr p" "utf8_encode s = Inr q" "b = p @ q" "c \<noteq> 0"
    by (auto simp: utf8_encode_def res_simps)
  then show ?case using Cons utf8_cp_no_nul [of c p] by auto
qed

lemma nul_split:
  "0 \<notin> set a \<Longrightarrow> 0 \<notin> set b \<Longrightarrow> a @ (0 :: byte) # x = b @ 0 # y \<Longrightarrow> a = b \<and> x = y"
  by (induction a arbitrary: b) (auto simp: Cons_eq_append_conv append_eq_Cons_conv)

lemma ascii_encode_no_nul:
  assumes "ascii_encode s = Inr b" "0 \<notin> set s"
  shows "0 \<notin> set b"
proof -
  have "(of_nat c :: byte) \<noteq> 0" if "c \<in> set s" for c
  proof (rule byte_nonzero)
    show "0 < c" using that assms(2) by (metis gr0I)
    show "c < 256" using that assms(1) by (force simp: ascii_encode_def split: if_splits)
  qed
  with assms(1) show ?thesis by (auto simp: ascii_encode_def image_iff split: if_splits)
qed

text \<open>The NUL-separated layout the presentation signs is injective wherever the two AIDs contain no
  NUL: equal layouts have the same sender, receiver, message id, timestamp and nonce bytes.\<close>

theorem proof_input_binds:
  assumes "proof_input s r m t n = Inr inp" and "proof_input s' r' m' t' n' = Inr inp"
    and "0 \<notin> set s" "0 \<notin> set s'" "0 \<notin> set r" "0 \<notin> set r'"
  shows "s = s' \<and> r = r' \<and> uuid_str m = uuid_str m' \<and> t = t' \<and> b64url_decode n = b64url_decode n'"
proof -
  have parts: "\<exists>a b c d e. utf8_encode s = Inr a \<and> utf8_encode r = Inr b \<and> utf8_encode (uuid_str m) = Inr c \<and>
      ascii_encode (str_int t) = Inr d \<and> b64url_decode n = Inr e \<and>
      inp = PROOF_DOMAIN @ a @ 0 # b @ 0 # c @ 0 # d @ 0 # e \<and> 0 \<notin> set a \<and> 0 \<notin> set b \<and> 0 \<notin> set c \<and> 0 \<notin> set d"
    if "proof_input s r m t n = Inr inp" "0 \<notin> set s" "0 \<notin> set r" for s r m t n
  proof -
    have "0 \<notin> set (uuid_str m)" using uuid_str_chars by fastforce
    moreover have "0 \<notin> set (str_int t)" using str_int_chars by fastforce
    ultimately show ?thesis using that
      by (auto simp: proof_input_def res_simps dest: utf8_no_nul ascii_encode_no_nul)
  qed
  obtain a b c d e where 1: "utf8_encode s = Inr a" "utf8_encode r = Inr b" "utf8_encode (uuid_str m) = Inr c"
      "ascii_encode (str_int t) = Inr d" "b64url_decode n = Inr e" "0 \<notin> set a" "0 \<notin> set b" "0 \<notin> set c" "0 \<notin> set d"
    and i1: "inp = PROOF_DOMAIN @ a @ 0 # b @ 0 # c @ 0 # d @ 0 # e"
    using parts [OF assms(1,3,5)] by blast
  obtain a' b' c' d' e' where 2: "utf8_encode s' = Inr a'" "utf8_encode r' = Inr b'" "utf8_encode (uuid_str m') = Inr c'"
      "ascii_encode (str_int t') = Inr d'" "b64url_decode n' = Inr e'" "0 \<notin> set a'" "0 \<notin> set b'" "0 \<notin> set c'" "0 \<notin> set d'"
    and i2: "inp = PROOF_DOMAIN @ a' @ 0 # b' @ 0 # c' @ 0 # d' @ 0 # e'"
    using parts [OF assms(2,4,6)] by blast
  from i1 i2 have "a @ 0 # b @ 0 # c @ 0 # d @ 0 # e = a' @ 0 # b' @ 0 # c' @ 0 # d' @ 0 # e'" by simp
  with 1 2 have eqs: "a = a'" "b = b'" "c = c'" "d = d'" "e = e'" using nul_split by metis+
  have "ascii_encode x = Inr y \<Longrightarrow> utf8_encode x = Inr y" for x y
    by (auto simp: ascii_encode_def utf8_encode_ascii split: if_splits)
  with 1(4) 2(4) eqs have "str_int t = str_int t'" by (metis utf8_encode_inj)
  with eqs 1 2 show ?thesis using utf8_encode_inj str_int_inj by metis
qed

text \<open>A layout exists for any ASCII receiver and any nonce that decodes.\<close>

lemma proof_input_exists:
  assumes "\<forall>c \<in> set r. c < 0x80" "b64url_decode n = Inr e"
  shows "\<exists>inp. proof_input (aid_from_pubkey k) r m t n = Inr inp"
proof -
  have "\<forall>c \<in> set (aid_from_pubkey k). c < 0x80" "\<forall>c \<in> set (uuid_str m). c < 0x80"
    "\<forall>c \<in> set (str_int t). c < 0x80"
    using aid_ascii uuid_str_chars str_int_chars by fastforce+
  with assms show ?thesis
    by (simp add: proof_input_def utf8_encode_ascii ascii_encode_def)
qed

theorem proof_input_binds_witness:
  "\<exists>inp. proof_input (aid_from_pubkey [1]) (ustr ''r'') (replicate 16 0) 5 (b64url_nopad [7, 0, 9]) = Inr inp \<and>
     b64url_decode (b64url_nopad [7, 0, 9]) = b64url_decode (b64url_nopad [7, 0, 9])"
proof -
  obtain inp where i: "proof_input (aid_from_pubkey [1]) (ustr ''r'') (replicate 16 0) 5 (b64url_nopad [7, 0, 9]) = Inr inp"
    using proof_input_exists [of "ustr ''r''" "b64url_nopad [7, 0, 9]" "[7, 0, 9]" "[1]"]
    by (auto simp: ustr_def b64url.roundtrip)
  have "0 \<notin> set (aid_from_pubkey [1])" "0 \<notin> set (ustr ''r'')"
    using aid_ascii [of 0 "[1]"] by (auto simp: ustr_def)
  from proof_input_binds [OF i i this(1,1,2,2)] i show ?thesis by blast
qed

theorem build_presentation_verifies_witness:
  "\<exists>p raw pk. build_presentation example_ed (replicate 32 7) (ustr ''rx'') (b64url_nopad [1, 2]) 5999 = Inr p \<and>
     aid_to_pubkey (p_sender_aid p) = Inr raw \<and> from_public_bytes example_ed raw = Inr pk \<and> p_timestamp p = 5"
proof -
  have n: "\<forall>c \<in> set (b64url_nopad [1, 2]). c < 0x80" using b64url_ascii by blast
  then obtain mid where mid: "pop_message_id (b64url_nopad [1, 2]) = Inr mid"
    by (auto simp: pop_message_id_def derived_uuid_def ascii_encode_def POP_MESSAGE_ID_TAG_def ustr_def Let_def)
  obtain inp where "proof_input (aid_from_pubkey (replicate 32 7)) (ustr ''rx'') mid 5 (b64url_nopad [1, 2]) = Inr inp"
    using proof_input_exists [of "ustr ''rx''" "b64url_nopad [1, 2]" "[1, 2]" "replicate 32 7" mid 5]
    by (auto simp: ustr_def b64url.roundtrip)
  with mid have "\<exists>p. build_presentation example_ed (replicate 32 7) (ustr ''rx'') (b64url_nopad [1, 2]) 5999 = Inr p \<and> p_timestamp p = 5"
    by (simp add: build_presentation_def example_ed_def Let_def)
  then show ?thesis using build_presentation_verifies [OF example_ed_correct] by blast
qed

end
