(* ===== verification/Attestation.thy ===== *)
theory Attestation
  imports Credentials
begin

text \<open>
  Chain-head attestations (\<open>crypto.py\<close>): the two signed framings (v1 without a tenant, v2 with one),
  the verifier that checks every type before any range and answers tampered input with \<open>False\<close>, and
  the form that takes its fields from the message. The lemmas show that the verifier's answer is
  the signature check over exactly one framing, and that the framings bind every field.
\<close>

section \<open>Definitions\<close>

definition CHAIN_HEAD_ATTESTATION_DOMAIN_V1 :: bytes where
  "CHAIN_HEAD_ATTESTATION_DOMAIN_V1 = bstr ''seam.audit.chain-head-attestation.v1''"

definition CHAIN_HEAD_ATTESTATION_DOMAIN_V2 :: bytes where
  "CHAIN_HEAD_ATTESTATION_DOMAIN_V2 = bstr ''seam.audit.chain-head-attestation.v2''"

definition attestation_preimage ::
    "nat \<Rightarrow> bytes \<Rightarrow> nat \<Rightarrow> nat \<Rightarrow> ustr \<Rightarrow> ustr option \<Rightarrow> bytes res" where
  "attestation_preimage attested_len attested_head attested_at digest_schema issuer_aid tenant =
     cat ([frame (if tenant = None then CHAIN_HEAD_ATTESTATION_DOMAIN_V1
                  else CHAIN_HEAD_ATTESTATION_DOMAIN_V2),
           frame_u64 attested_len,
           frame attested_head,
           frame_u64 attested_at,
           frame_u32 digest_schema,
           frame_text issuer_aid]
          @ (case tenant of None \<Rightarrow> [] | Some t \<Rightarrow> [frame_text t]))"

definition chain_head_attestation_digest ::
    "nat \<Rightarrow> bytes \<Rightarrow> nat \<Rightarrow> nat \<Rightarrow> ustr \<Rightarrow> ustr option \<Rightarrow> bytes res" where
  "chain_head_attestation_digest attested_len attested_head attested_at digest_schema issuer_aid tenant =
     rbind (attestation_preimage attested_len attested_head attested_at digest_schema issuer_aid tenant)
       (\<lambda>pre. Inr (sha256 pre))"

text \<open>The arguments of \<open>verify_chain_head_attestation\<close>, and the fields of the message.\<close>

record attestation =
  t_issuer_aid :: pyval
  t_attested_len :: pyval
  t_attested_head :: pyval
  t_attested_at :: pyval
  t_digest_schema :: pyval
  t_signature :: pyval
  t_tenant :: pyval

text \<open>The type checks of every argument, before any range is looked at.\<close>

definition attestation_types :: "attestation \<Rightarrow> (bytes \<times> ustr \<times> ustr \<times> bytes) res" where
  "attestation_types a =
     rbind (require_int (t_attested_len a)) (\<lambda>_.
     rbind (require_int (t_attested_at a)) (\<lambda>_.
     rbind (require_int (t_digest_schema a)) (\<lambda>_.
     rbind (case as_bytes (t_attested_head a) of None \<Rightarrow> Inl TypeError | Some h \<Rightarrow> Inr h) (\<lambda>head.
     rbind (case t_issuer_aid a of VStr s \<Rightarrow> Inr s | _ \<Rightarrow> Inl TypeError) (\<lambda>issuer.
     rbind (case t_tenant a of VStr s \<Rightarrow> Inr s | _ \<Rightarrow> Inl TypeError) (\<lambda>tenant.
     rbind (case as_bytes (t_signature a) of None \<Rightarrow> Inl TypeError | Some s \<Rightarrow> Inr s) (\<lambda>sig.
     Inr (head, issuer, tenant, sig))))))))"

text \<open>\<open>try: _uint_slot(...) except ValueError: return False\<close>, over the three slots.\<close>

definition attestation_ranges :: "attestation \<Rightarrow> (nat \<times> nat \<times> nat) res" where
  "attestation_ranges a =
     rbind (uint_slot (t_attested_len a) 64) (\<lambda>l.
     rbind (uint_slot (t_attested_at a) 64) (\<lambda>at.
     rbind (uint_slot (t_digest_schema a) 32) (\<lambda>sch. Inr (l, at, sch))))"

definition verify_chain_head_attestation :: "ed25519 \<Rightarrow> attestation \<Rightarrow> bool res" where
  "verify_chain_head_attestation ed a =
     rbind (attestation_types a) (\<lambda>(head, issuer, tenant, sig).
     (case attestation_ranges a of
        Inl e \<Rightarrow> if is_ValueError e then Inr False else Inl e
      | Inr (l, at, sch) \<Rightarrow>
          (case rbind (aid_to_pubkey issuer) (from_public_bytes ed) of
             Inl _ \<Rightarrow> Inr False
           | Inr key \<Rightarrow>
               rbind (chain_head_attestation_digest l head at sch issuer
                        (if tenant = [] then None else Some tenant)) (\<lambda>digest.
               (case ed_verify ed key sig digest of Inl _ \<Rightarrow> Inr False | Inr _ \<Rightarrow> Inr True)))))"

definition verify_chain_head_attestation_message ::
    "ed25519 \<Rightarrow> pyval \<Rightarrow> attestation \<Rightarrow> bool res" where
  "verify_chain_head_attestation_message ed issuer_aid a =
     (if \<not> is_str issuer_aid then Inl TypeError
      else if t_issuer_aid a \<noteq> issuer_aid then Inr False
      else verify_chain_head_attestation ed (a\<lparr>t_issuer_aid := issuer_aid\<rparr>))"

section \<open>The framings bind every field\<close>

lemma attestation_domains:
  "CHAIN_HEAD_ATTESTATION_DOMAIN_V1 \<noteq> CHAIN_HEAD_ATTESTATION_DOMAIN_V2"
  by (simp add: CHAIN_HEAD_ATTESTATION_DOMAIN_V1_def CHAIN_HEAD_ATTESTATION_DOMAIN_V2_def bstr_def)

lemma attestation_preimage_inj:
  assumes "attestation_preimage l h t s i tn = Inr p" "attestation_preimage l' h' t' s' i' tn' = Inr p"
  shows "l = l' \<and> h = h' \<and> t = t' \<and> s = s' \<and> i = i' \<and> tn = tn'"
proof -
  let ?dom = "\<lambda>tn. if tn = None then CHAIN_HEAD_ATTESTATION_DOMAIN_V1 else CHAIN_HEAD_ATTESTATION_DOMAIN_V2"
  let ?last = "\<lambda>tn. case tn of None \<Rightarrow> [] | Some t \<Rightarrow> [frame_text t]"
  obtain c where flds: "?dom tn = ?dom tn'" "l = l'" "h = h'" "t = t'" "s = s'" "i = i'"
    and c: "cat (?last tn) = Inr c" "cat (?last tn') = Inr c"
    using assms unfolding attestation_preimage_def append_Cons append_Nil
    by - ((erule (1) fr.peelE fu64.peelE fu32.peelE ft.peelE)+, rule that)
  from flds(1) attestation_domains have "(tn = None) = (tn' = None)" by (auto split: if_splits)
  with c have "tn = tn'"
    by (cases tn; cases tn') (auto simp del: cat.simps elim: ft.peelE)
  with flds show ?thesis by blast
qed

text \<open>C23: The digest a chain-head attestation signs binds the length, head, time, schema, issuer and
  tenant, and the framing itself: two attestations with the same digest agree on all of them (a
  v1 attestation never equals a v2 one, so a tenant cannot be added, removed or relabelled), or
  their preimages are an explicit SHA-256 collision.\<close>

theorem attestation_digest_binds:
  assumes "chain_head_attestation_digest l h t s i tn = Inr d"
    and "chain_head_attestation_digest l' h' t' s' i' tn' = Inr d"
  shows "(l = l' \<and> h = h' \<and> t = t' \<and> s = s' \<and> i = i' \<and> tn = tn') \<or>
    (\<exists>p p'. attestation_preimage l h t s i tn = Inr p \<and> attestation_preimage l' h' t' s' i' tn' = Inr p' \<and>
       sha256_collision p p')"
proof -
  from assms obtain p p' where p: "attestation_preimage l h t s i tn = Inr p"
    "attestation_preimage l' h' t' s' i' tn' = Inr p'" and eq: "sha256 p = sha256 p'"
    by (auto simp: chain_head_attestation_digest_def res_simps)
  from sha256_eqD [OF eq] show ?thesis using p attestation_preimage_inj by blast
qed

lemmas attestation_evals = chain_head_attestation_digest_def attestation_preimage_def text_evals
  CHAIN_HEAD_ATTESTATION_DOMAIN_V1_def CHAIN_HEAD_ATTESTATION_DOMAIN_V2_def

theorem attestation_digest_binds_witness:
  "\<exists>d. chain_head_attestation_digest 5 [1, 2] 7 1 (ustr ''i'') (Some (ustr ''acme'')) = Inr d \<and>
    ((5::nat) = 5 \<and> Some (ustr ''acme'') = Some (ustr ''acme'') \<or>
     (\<exists>p p'. attestation_preimage 5 [1, 2] 7 1 (ustr ''i'') (Some (ustr ''acme'')) = Inr p \<and> sha256_collision p p'))"
proof -
  have "\<exists>d. chain_head_attestation_digest 5 [1, 2] 7 1 (ustr ''i'') (Some (ustr ''acme'')) = Inr d"
    by (simp add: attestation_evals)
  then obtain d where d: "chain_head_attestation_digest 5 [1, 2] 7 1 (ustr ''i'') (Some (ustr ''acme'')) = Inr d" ..
  from attestation_digest_binds [OF d d] d show ?thesis by blast
qed

section \<open>The verifier\<close>

definition attestation_well_typed :: "attestation \<Rightarrow> bool" where
  "attestation_well_typed a \<longleftrightarrow>
     is_plain_int (t_attested_len a) \<and> is_plain_int (t_attested_at a) \<and> is_plain_int (t_digest_schema a) \<and>
     as_bytes (t_attested_head a) \<noteq> None \<and> is_str (t_issuer_aid a) \<and> is_str (t_tenant a) \<and>
     as_bytes (t_signature a) \<noteq> None"

lemma attestation_types_Inr:
  "attestation_types a = Inr (h, i, t, g) \<longleftrightarrow>
     is_plain_int (t_attested_len a) \<and> is_plain_int (t_attested_at a) \<and> is_plain_int (t_digest_schema a) \<and>
     as_bytes (t_attested_head a) = Some h \<and> t_issuer_aid a = VStr i \<and> t_tenant a = VStr t \<and>
     as_bytes (t_signature a) = Some g"
  by (auto simp: attestation_types_def require_int_def res_simps split: option.splits pyval.splits)

lemma attestation_types_Inl: "attestation_types a = Inl e \<Longrightarrow> e = TypeError"
  by (auto simp: attestation_types_def require_int_def res_simps split: option.splits pyval.splits)

lemma attestation_well_typed_iff:
  "attestation_well_typed a \<longleftrightarrow> (\<exists>h i t g. attestation_types a = Inr (h, i, t, g))"
  by (auto simp: attestation_well_typed_def attestation_types_Inr is_str_def split: pyval.splits)

lemma attestation_ranges_exn:
  "attestation_well_typed a \<Longrightarrow> attestation_ranges a = Inl e \<Longrightarrow> is_ValueError e"
  by (auto simp: attestation_well_typed_def attestation_ranges_def uint_slot_def require_int_def
      is_ValueError_def res_simps split: if_splits)

lemma pack_exn:
  "frame b = Inl e \<Longrightarrow> e = StructError \<or> e = UnicodeEncodeError"
  "frame_text i = Inl e \<Longrightarrow> e = StructError \<or> e = UnicodeEncodeError"
  "frame_u32 n = Inl e \<Longrightarrow> e = StructError \<or> e = UnicodeEncodeError"
  "frame_u64 n = Inl e \<Longrightarrow> e = StructError \<or> e = UnicodeEncodeError"
  by (auto simp: frame_def frame_text_def frame_u32_def frame_u64_def pack_u32_def pack_u64_def
      rd_enc_def res_simps dest: utf8_encode_exn split: if_splits)

lemma attestation_digest_exn:
  "chain_head_attestation_digest l h t s i tn = Inl e \<Longrightarrow> e = StructError \<or> e = UnicodeEncodeError"
proof -
  assume "chain_head_attestation_digest l h t s i tn = Inl e"
  then have "attestation_preimage l h t s i tn = Inl e"
    by (auto simp: chain_head_attestation_digest_def res_simps)
  then have "Inl e \<in> set ([frame (if tn = None then CHAIN_HEAD_ATTESTATION_DOMAIN_V1 else CHAIN_HEAD_ATTESTATION_DOMAIN_V2),
      frame_u64 l, frame h, frame_u64 t, frame_u32 s, frame_text i]
      @ (case tn of None \<Rightarrow> [] | Some x \<Rightarrow> [frame_text x]))"
    unfolding attestation_preimage_def by (rule cat_eq_Inl)
  then show ?thesis
    by (auto dest: pack_exn [OF sym] split: option.splits)
qed

text \<open>On well-typed arguments the verifier answers, or fails to build the preimage.\<close>

lemma verify_cases:
  assumes "attestation_well_typed a"
  shows "verify_chain_head_attestation ed a \<in> {Inr True, Inr False, Inl StructError, Inl UnicodeEncodeError}"
proof -
  obtain h i t g where r: "attestation_types a = Inr (h, i, t, g)"
    using assms by (auto simp: attestation_well_typed_iff)
  show ?thesis
  proof (cases "attestation_ranges a")
    case (Inl e)
    with r attestation_ranges_exn [OF assms Inl] show ?thesis
      by (simp add: verify_chain_head_attestation_def)
  next
    case (Inr x)
    then obtain l at sch where x: "attestation_ranges a = Inr (l, at, sch)" by (cases x) auto
    show ?thesis
    proof (cases "rbind (aid_to_pubkey i) (from_public_bytes ed)")
      case (Inl e)
      with r x show ?thesis by (simp add: verify_chain_head_attestation_def)
    next
      case (Inr key)
      then show ?thesis using r x
        attestation_digest_exn [of l h at sch i "if t = [] then None else Some t"]
        by (cases "chain_head_attestation_digest l h at sch i (if t = [] then None else Some t)")
          (auto simp: verify_chain_head_attestation_def split: sum.splits)
    qed
  qed
qed

text \<open>The verifier raises \<open>TypeError\<close> exactly when some argument has the wrong type. A tampered
  value in one slot never hides a caller's type mistake in another, whatever the order.\<close>

theorem attestation_type_errors:
  "verify_chain_head_attestation ed a = Inl TypeError \<longleftrightarrow> \<not> attestation_well_typed a"
proof (cases "attestation_well_typed a")
  case False
  then obtain e where e: "attestation_types a = Inl e"
    by (cases "attestation_types a") (auto simp: attestation_well_typed_iff)
  with False attestation_types_Inl [OF e] show ?thesis by (simp add: verify_chain_head_attestation_def)
next
  case True
  from verify_cases [OF True, of ed] have "verify_chain_head_attestation ed a \<noteq> Inl TypeError" by auto
  with True show ?thesis by simp
qed

text \<open>What an accepted attestation is: well typed, in range, issued under a key recovered from the
  pinned AID, and signed over the one framing its tenant selects.\<close>

definition attested :: "ed25519 \<Rightarrow> attestation \<Rightarrow> bool" where
  "attested ed a \<longleftrightarrow>
     (\<exists>l head at sch issuer tenant sig raw key pre.
        t_attested_len a = VInt (int l) \<and> l < 2 ^ 64 \<and>
        t_attested_at a = VInt (int at) \<and> at < 2 ^ 64 \<and>
        t_digest_schema a = VInt (int sch) \<and> sch < 2 ^ 32 \<and>
        as_bytes (t_attested_head a) = Some head \<and> as_bytes (t_signature a) = Some sig \<and>
        t_issuer_aid a = VStr issuer \<and> t_tenant a = VStr tenant \<and>
        aid_to_pubkey issuer = Inr raw \<and> from_public_bytes ed raw = Inr key \<and>
        attestation_preimage l head at sch issuer (if tenant = [] then None else Some tenant) = Inr pre \<and>
        ed_verify ed key sig (sha256 pre) = Inr ())"

lemma uint_slot_nat: "uint_slot v k = Inr n \<longleftrightarrow> v = VInt (int n) \<and> n < 2 ^ k"
  by (auto simp: uint_slot_Inr nat_less_iff)

lemma attestation_ranges_Inr:
  "attestation_ranges a = Inr (l, at, sch) \<longleftrightarrow>
     t_attested_len a = VInt (int l) \<and> l < 2 ^ 64 \<and> t_attested_at a = VInt (int at) \<and> at < 2 ^ 64 \<and>
     t_digest_schema a = VInt (int sch) \<and> sch < 2 ^ 32"
  by (auto simp: attestation_ranges_def rbind_eq_Inr uint_slot_nat)

text \<open>C9: The verifier answers \<open>True\<close> exactly for an attestation that is well typed, in range, and
  signed by the key of the pinned issuer over the framing its own tenant selects: v1 alone for the
  empty tenant, v2 alone for any other.\<close>

theorem attestation_verified_iff:
  "verify_chain_head_attestation ed a = Inr True \<longleftrightarrow> attested ed a"
proof
  assume v: "verify_chain_head_attestation ed a = Inr True"
  then obtain h i t g where r: "attestation_types a = Inr (h, i, t, g)"
    by (auto simp: verify_chain_head_attestation_def rbind_eq_Inr)
  with v obtain l at sch where x: "attestation_ranges a = Inr (l, at, sch)"
    by (cases "attestation_ranges a") (auto simp: verify_chain_head_attestation_def split: if_splits)
  from v r x obtain key where k: "rbind (aid_to_pubkey i) (from_public_bytes ed) = Inr key"
    by (cases "rbind (aid_to_pubkey i) (from_public_bytes ed)") (auto simp: verify_chain_head_attestation_def)
  with v r x obtain pre where
    pre: "attestation_preimage l h at sch i (if t = [] then None else Some t) = Inr pre"
    and sig: "ed_verify ed key g (sha256 pre) = Inr ()"
    by (cases "attestation_preimage l h at sch i (if t = [] then None else Some t)")
      (auto simp: verify_chain_head_attestation_def chain_head_attestation_digest_def split: sum.splits)
  from k obtain raw where "aid_to_pubkey i = Inr raw" "from_public_bytes ed raw = Inr key"
    unfolding rbind_eq_Inr by blast
  with r x pre sig show "attested ed a"
    unfolding attested_def attestation_types_Inr attestation_ranges_Inr by blast
next
  assume "attested ed a"
  then obtain l head at sch issuer tenant sig raw key pre where
    "attestation_types a = Inr (head, issuer, tenant, sig)" "attestation_ranges a = Inr (l, at, sch)"
    "aid_to_pubkey issuer = Inr raw" "from_public_bytes ed raw = Inr key"
    "attestation_preimage l head at sch issuer (if tenant = [] then None else Some tenant) = Inr pre"
    "ed_verify ed key sig (sha256 pre) = Inr ()"
    unfolding attested_def attestation_types_Inr attestation_ranges_Inr by (auto simp: is_plain_int_def)
  then show "verify_chain_head_attestation ed a = Inr True"
    by (simp add: verify_chain_head_attestation_def chain_head_attestation_digest_def)
qed

section \<open>Well-typed input is always answered\<close>

lemma b64url_decode_ascii: "b64url_decode s = Inr b \<Longrightarrow> \<forall>c \<in> set s. c < 0x80"
  by (auto simp: b64url_decode_def urlsafe_b64decode_def split: if_splits)

lemma aid_to_pubkey_ascii: "aid_to_pubkey s = Inr b \<Longrightarrow> \<forall>c \<in> set s. c < 0x80"
proof -
  assume "aid_to_pubkey s = Inr b"
  then obtain p where "p \<in> {AID_PREFIX, AID_PREFIX_SHORT}" "take (length p) s = p"
    "b64url_decode (drop (length p) s) = Inr b"
    by (auto simp: aid_to_pubkey_def startswith_def split: if_splits)
  then have "\<forall>c \<in> set (take (length p) s). c < 0x80" "\<forall>c \<in> set (drop (length p) s). c < 0x80"
    using b64url_decode_ascii
    by (auto simp: AID_PREFIX_def AID_PREFIX_SHORT_def ustr_def)
  then show ?thesis by (metis append_take_drop_id Un_iff set_append)
qed

text \<open>C22: On well-typed arguments whose texts and head fit a length prefix and whose tenant is encodable,
  the verifier answers \<open>True\<close> or \<open>False\<close>: no tampered integer, issuer, head or signature makes it
  raise.\<close>

theorem attestation_answers:
  assumes "attestation_well_typed a" and "t_issuer_aid a = VStr i" "length i < 2 ^ 32"
    and "t_tenant a = VStr t" "text_ok t" and "as_bytes (t_attested_head a) = Some h" "length h < 2 ^ 32"
  shows "verify_chain_head_attestation ed a = Inr True \<or> verify_chain_head_attestation ed a = Inr False"
proof -
  from assms obtain g where r: "attestation_types a = Inr (h, i, t, g)"
    by (auto simp: attestation_well_typed_iff attestation_types_Inr)
  show ?thesis
  proof (cases "attestation_ranges a")
    case (Inl e)
    with r attestation_ranges_exn [OF assms(1) Inl] show ?thesis
      by (simp add: verify_chain_head_attestation_def)
  next
    case (Inr x)
    then obtain l at sch where x: "attestation_ranges a = Inr (l, at, sch)" by (cases x) auto
    show ?thesis
    proof (cases "rbind (aid_to_pubkey i) (from_public_bytes ed)")
      case (Inl e)
      with r x show ?thesis by (simp add: verify_chain_head_attestation_def)
    next
      case (Inr key)
      then have "text_ok i" using assms(3) aid_to_pubkey_ascii
        by (auto simp: rbind_eq_Inr text_ok_def utf8_encode_ascii)
      then have "\<exists>p. attestation_preimage l h at sch i (if t = [] then None else Some t) = Inr p"
        using x assms(5,7) unfolding attestation_preimage_def cat_ok
        by (auto simp: attestation_ranges_Inr frame_ok frame_text_ok part_oks CHAIN_HEAD_ATTESTATION_DOMAIN_V1_def
            CHAIN_HEAD_ATTESTATION_DOMAIN_V2_def)
      with r x Inr show ?thesis
        by (auto simp: verify_chain_head_attestation_def chain_head_attestation_digest_def split: sum.splits)
    qed
  qed
qed

definition example_attestation :: attestation where
  "example_attestation =
     \<lparr>t_issuer_aid = VStr (aid_from_pubkey (replicate 32 7)), t_attested_len = VInt (2 ^ 64),
      t_attested_head = VBytes [1, 2], t_attested_at = VInt 7, t_digest_schema = VInt 4,
      t_signature = VBytes [], t_tenant = VStr (ustr ''acme'')\<rparr>"

theorem attestation_answers_witness:
  "verify_chain_head_attestation example_ed example_attestation = Inr True \<or>
   verify_chain_head_attestation example_ed example_attestation = Inr False"
  by (rule attestation_answers [of _ "aid_from_pubkey (replicate 32 7)" "ustr ''acme''" "[1, 2]"])
    (simp_all add: example_attestation_def attestation_well_typed_def is_plain_int_def is_str_def
      as_bytes_def aid_from_pubkey_def AID_PREFIX_def length_b64url_nopad text_ok_def utf8_encode_def
      utf8_cp_def ustr_def)

text \<open>The tenant must be encodable: a lone surrogate in it escapes as \<open>UnicodeEncodeError\<close>, because
  the digest is recomputed outside the \<open>try\<close>.\<close>

lemma attestation_surrogate_tenant:
  "verify_chain_head_attestation example_ed
     (example_attestation\<lparr>t_attested_len := VInt 1, t_tenant := VStr [0xD800]\<rparr>) = Inl UnicodeEncodeError"
proof -
  have "\<exists>b. frame_text (aid_from_pubkey (replicate 32 7)) = Inr b"
    using frame_text_ascii [of "aid_from_pubkey (replicate 32 7)"] aid_ascii
    by (simp add: aid_from_pubkey_def AID_PREFIX_def length_b64url_nopad)
  then obtain b where b: "frame_text (aid_from_pubkey (replicate 32 7)) = Inr b" ..
  have s: "frame_text [0xD800] = Inl UnicodeEncodeError"
    by (simp add: frame_text_def rd_enc_def utf8_encode_def utf8_cp_def)
  have "from_public_bytes example_ed (replicate 32 7) = Inr (replicate 32 7)"
    by (simp add: example_ed_def)
  then show ?thesis
    by (simp add: verify_chain_head_attestation_def attestation_types_def attestation_ranges_def
        example_attestation_def require_int_def is_plain_int_def as_bytes_def uint_slot_def int_of_def
        aid.roundtrip chain_head_attestation_digest_def attestation_preimage_def b s
        frame_u64_def frame_u32_def frame_def pack_u32_def pack_u64_def CHAIN_HEAD_ATTESTATION_DOMAIN_V2_def)
qed

end
