(* ===== verification/Commitment.thy ===== *)
theory Commitment
  imports Attestation
begin

text \<open>
  The explanation digest and the commitment digest of \<open>crypto.py\<close>. An explanation entry is a dict
  whose confidence may be absent or a canonical double in the unit interval; a commitment is a dict
  that carries the entries, their published digest, or neither. The lemmas show which confidences
  are accepted, that both digests bind everything they are computed from, and that entries which
  disagree with a published digest are refused.
\<close>

section \<open>The explanation digest\<close>

definition EXPLANATION_KINDS :: "ustr list" where
  "EXPLANATION_KINDS = [ustr ''vote'', ustr ''evaluation'', ustr ''objection'', ustr ''ballot'']"

text \<open>The confidence slot: absent, or a finite double in the unit interval that is not a negative
  zero. \<open>float\<close> of an int beyond the range raises \<open>OverflowError\<close>.\<close>

definition canonical_confidence :: "f64 \<Rightarrow> bool" where
  "canonical_confidence x =
     (f64_isfinite x \<and> 0 \<le> f64_scaled x \<and> f64_scaled x \<le> f64_unit \<and> \<not> f64_negative x)"

definition confidence_of :: "pyval \<Rightarrow> f64 option res" where
  "confidence_of conf =
     (if conf = VNone then Inr None
      else
        rbind (case conf of VInt n \<Rightarrow> f64_of_int n | VFloat x \<Rightarrow> Inr x | _ \<Rightarrow> Inl ValueError) (\<lambda>x.
          if canonical_confidence x then Inr (Some x) else Inl ValueError))"

definition confidence_bytes :: "f64 option \<Rightarrow> bytes res" where
  "confidence_bytes c =
     (case c of None \<Rightarrow> Inr [0x00] | Some x \<Rightarrow> cat [Inr [0x01], Inr (pack_f64_be x)])"

text \<open>\<open>None\<close> or \<open>x.encode()\<close>.\<close>

definition optional_text :: "pyval \<Rightarrow> bytes option res" where
  "optional_text v = (if v = VNone then Inr None else rbind (py_encode v) (\<lambda>b. Inr (Some b)))"

definition be64_opt_bytes :: "bytes option \<Rightarrow> bytes res" where
  "be64_opt_bytes x = (case x of None \<Rightarrow> Inr [0x00] | Some b \<Rightarrow> cat [Inr [0x01], be64_frame b])"

definition field_bytes :: "pyval \<Rightarrow> string \<Rightarrow> bytes res" where
  "field_bytes e name = rbind (py_getitem e (ustr name)) py_encode"

definition explanation_entry :: "pyval \<Rightarrow> bytes res" where
  "explanation_entry e =
     rbind (py_getitem e (ustr ''kind'')) (\<lambda>kind.
     rbind (guard (kind \<in> VStr ` set EXPLANATION_KINDS) ValueError) (\<lambda>_.
     cat [rbind (py_encode kind) be64_frame,
          rbind (field_bytes e ''participant'') be64_frame,
          rbind (field_bytes e ''proposal_id'') be64_frame,
          rbind (field_bytes e ''value'') be64_frame,
          rbind (field_bytes e ''reason'') be64_frame,
          rbind (rbind (py_get e (ustr ''confidence'')) confidence_of) confidence_bytes,
          rbind (rbind (py_get e (ustr ''rationale_ref'')) optional_text) be64_opt_bytes]))"

definition explanation_preimage :: "pyval list \<Rightarrow> bytes res" where
  "explanation_preimage entries =
     cat (be64_frame (bstr ''seam-explanation-digest:v1'') # to_bytes_8_big (length entries)
          # map explanation_entry entries)"

definition explanation_digest :: "pyval \<Rightarrow> bytes res" where
  "explanation_digest entries =
     rbind (py_list entries) (\<lambda>es. rbind (explanation_preimage es) (\<lambda>pre. Inr (sha256 pre)))"

section \<open>The commitment digest\<close>

text \<open>The published digest: hex text, bytes, or absent.\<close>

definition published_digest :: "pyval \<Rightarrow> bytes option res" where
  "published_digest commitment =
     rbind (py_get commitment (ustr ''explanation_digest'')) (\<lambda>published.
       case published of
         VStr s \<Rightarrow> rbind (fromhex s) (\<lambda>b. Inr (Some b))
       | VNone \<Rightarrow> Inr None
       | v \<Rightarrow> rbind (py_bytes v) (\<lambda>b. Inr (Some b)))"

definition commitment_explanation_digest :: "pyval \<Rightarrow> bytes res" where
  "commitment_explanation_digest commitment =
     rbind (published_digest commitment) (\<lambda>published.
     rbind (py_get commitment (ustr ''explanation'')) (\<lambda>entries.
       if entries = VNone then
         (case published of Some b \<Rightarrow> Inr b | None \<Rightarrow> explanation_digest (VList []))
       else
         rbind (explanation_digest entries) (\<lambda>computed.
           if published \<noteq> None \<and> published \<noteq> Some computed then Inl ValueError else Inr computed)))"

definition committer_bytes :: "pyval \<Rightarrow> bytes res" where
  "committer_bytes commitment =
     rbind (py_get commitment (ustr ''committer'')) (\<lambda>v.
     rbind (py_truthy v) (\<lambda>t. if t then py_encode v else Inr []))"

definition commitment_preimage :: "pyval \<Rightarrow> bytes res" where
  "commitment_preimage commitment =
     rbind (py_get commitment (ustr ''supersedes'')) (\<lambda>supersedes.
     cat [be64_frame (bstr ''seam-commitment-digest:v3''),
          rbind (field_bytes commitment ''id'') be64_frame,
          rbind (field_bytes commitment ''action'') be64_frame,
          rbind (field_bytes commitment ''authority'') be64_frame,
          rbind (optional_text supersedes) be64_opt_bytes,
          rbind (field_bytes commitment ''auth_method'') be64_frame,
          rbind (field_bytes commitment ''trust_basis'') be64_frame,
          rbind (committer_bytes commitment) be64_frame,
          rbind (commitment_explanation_digest commitment) be64_frame])"

definition seam_commitment_digest :: "pyval \<Rightarrow> ustr res" where
  "seam_commitment_digest commitment =
     rbind (commitment_preimage commitment) (\<lambda>pre. Inr (hex (sha256 pre)))"

section \<open>What an entry and a commitment say\<close>

text \<open>The values an entry contributes to its digest, and the encoder of those values.\<close>

record expl_fields =
  x_kind :: pyval
  x_participant :: pyval
  x_proposal_id :: pyval
  x_value :: pyval
  x_reason :: pyval
  x_confidence :: "f64 option"
  x_rationale_ref :: pyval

definition expl_view :: "pyval \<Rightarrow> expl_fields res" where
  "expl_view e =
     rbind (py_getitem e (ustr ''kind'')) (\<lambda>kind.
     rbind (py_getitem e (ustr ''participant'')) (\<lambda>participant.
     rbind (py_getitem e (ustr ''proposal_id'')) (\<lambda>proposal.
     rbind (py_getitem e (ustr ''value'')) (\<lambda>val.
     rbind (py_getitem e (ustr ''reason'')) (\<lambda>reason.
     rbind (rbind (py_get e (ustr ''confidence'')) confidence_of) (\<lambda>conf.
     rbind (py_get e (ustr ''rationale_ref'')) (\<lambda>ref.
     Inr \<lparr>x_kind = kind, x_participant = participant, x_proposal_id = proposal, x_value = val,
          x_reason = reason, x_confidence = conf, x_rationale_ref = ref\<rparr>)))))))"

definition be64_value :: "pyval \<Rightarrow> bytes res" where
  "be64_value v = rbind (py_encode v) be64_frame"

definition be64_optional :: "pyval \<Rightarrow> bytes res" where
  "be64_optional v = rbind (optional_text v) be64_opt_bytes"

definition expl_parts :: "expl_fields \<Rightarrow> bytes res list" where
  "expl_parts x =
     [be64_value (x_kind x), be64_value (x_participant x), be64_value (x_proposal_id x),
      be64_value (x_value x), be64_value (x_reason x), confidence_bytes (x_confidence x),
      be64_optional (x_rationale_ref x)]"

record commitment_fields =
  m_id :: pyval
  m_action :: pyval
  m_authority :: pyval
  m_supersedes :: pyval
  m_auth_method :: pyval
  m_trust_basis :: pyval
  m_committer :: bytes
  m_explanation :: bytes

definition commitment_view_of :: "pyval \<Rightarrow> commitment_fields res" where
  "commitment_view_of c =
     rbind (py_get c (ustr ''supersedes'')) (\<lambda>supersedes.
     rbind (py_getitem c (ustr ''id'')) (\<lambda>i.
     rbind (py_getitem c (ustr ''action'')) (\<lambda>action.
     rbind (py_getitem c (ustr ''authority'')) (\<lambda>authority.
     rbind (py_getitem c (ustr ''auth_method'')) (\<lambda>auth_method.
     rbind (py_getitem c (ustr ''trust_basis'')) (\<lambda>trust_basis.
     rbind (committer_bytes c) (\<lambda>committer.
     rbind (commitment_explanation_digest c) (\<lambda>explanation.
     Inr \<lparr>m_id = i, m_action = action, m_authority = authority, m_supersedes = supersedes,
          m_auth_method = auth_method, m_trust_basis = trust_basis, m_committer = committer,
          m_explanation = explanation\<rparr>))))))))"

definition commitment_parts :: "commitment_fields \<Rightarrow> bytes res list" where
  "commitment_parts m =
     [be64_frame (bstr ''seam-commitment-digest:v3''), be64_value (m_id m), be64_value (m_action m),
      be64_value (m_authority m), be64_optional (m_supersedes m), be64_value (m_auth_method m),
      be64_value (m_trust_basis m), be64_frame (m_committer m), be64_frame (m_explanation m)]"

lemma py_encode_inj: "py_encode v = Inr b \<Longrightarrow> py_encode w = Inr b \<Longrightarrow> v = w"
  by (auto simp: py_encode_def split: pyval.splits dest: utf8_encode_inj)

lemma optional_text_inj: "optional_text v = Inr b \<Longrightarrow> optional_text w = Inr b \<Longrightarrow> v = w"
  by (auto simp: optional_text_def res_simps split: if_splits dest: py_encode_inj)

interpretation bv: self_delimiting be64_value
  unfolding be64_value_def [abs_def]
  by (rule self_delimiting_comp [OF bf.self_delimiting_axioms py_encode_inj])

interpretation bob: self_delimiting be64_opt_bytes
  unfolding be64_opt_bytes_def [abs_def]
  by (rule self_delimiting_presence [OF bf.self_delimiting_axioms])

interpretation bopt: self_delimiting be64_optional
  unfolding be64_optional_def [abs_def]
  by (rule self_delimiting_comp [OF bob.self_delimiting_axioms optional_text_inj])

lemma double_self_delimiting: "self_delimiting (\<lambda>x. Inr (pack_f64_be x) :: 'e + bytes)"
  by (rule self_delimiting_fixed [where k = 8]) (auto dest: pack_f64_be_inj)

interpretation cf: self_delimiting confidence_bytes
  unfolding confidence_bytes_def [abs_def]
  by (rule self_delimiting_presence [OF double_self_delimiting])

interpretation expl: self_delimiting "\<lambda>x. cat (expl_parts x)"
proof (rule self_delimiting_parts)
  fix x y :: expl_fields and ps qs b
  assume "cat (expl_parts x @ ps) = Inr b" "cat (expl_parts y @ qs) = Inr b"
  then show "x = y \<and> (\<exists>c. cat ps = Inr c \<and> cat qs = Inr c)"
    unfolding expl_parts_def append_Cons append_Nil
    by - ((erule (1) bv.peelE cf.peelE bopt.peelE)+, auto)
qed

lemma commitment_parts_inj:
  "cat (commitment_parts m) = Inr b \<Longrightarrow> cat (commitment_parts m') = Inr b \<Longrightarrow> m = (m' :: commitment_fields)"
  unfolding commitment_parts_def
  by ((erule (1) bv.peelE bf.peelE bopt.peelE)+, simp)

lemma explanation_entry_view:
  assumes "explanation_entry e = Inr b"
  shows "\<exists>x. expl_view e = Inr x \<and> cat (expl_parts x) = Inr b"
  using assms unfolding explanation_entry_def
  by (clarsimp simp: rbind_eq_Inr field_bytes_def expl_view_def expl_parts_def be64_value_def be64_optional_def)

lemma commitment_preimage_view:
  assumes "commitment_preimage c = Inr b"
  shows "\<exists>m. commitment_view_of c = Inr m \<and> cat (commitment_parts m) = Inr b"
  using assms unfolding commitment_preimage_def
  by (clarsimp simp: rbind_eq_Inr field_bytes_def commitment_view_of_def commitment_parts_def
      be64_value_def be64_optional_def)

lemma explanation_preimage_view:
  assumes "explanation_preimage es = Inr p"
  shows "\<exists>vs. mapR expl_view es = Inr vs \<and>
    cat (be64_frame (bstr ''seam-explanation-digest:v1'') # to_bytes_8_big (length vs)
      # map (\<lambda>x. cat (expl_parts x)) vs @ []) = Inr p"
proof -
  have run: "\<exists>vs. mapR expl_view es = Inr vs \<and> cat (map (\<lambda>x. cat (expl_parts x)) vs) = Inr b"
    if "cat (map explanation_entry es) = Inr b" for b
    using that
  proof (induction es arbitrary: b)
    case Nil
    then show ?case by simp
  next
    case (Cons e es)
    then obtain u w where e: "explanation_entry e = Inr u" "cat (map explanation_entry es) = Inr w" "b = u @ w"
      by (auto simp: rbind_eq_Inr)
    from explanation_entry_view [OF e(1)] Cons.IH [OF e(2)] e(3) show ?case by auto
  qed
  from assms obtain d n b where parts: "be64_frame (bstr ''seam-explanation-digest:v1'') = Inr d"
    "to_bytes_8_big (length es) = Inr n" "cat (map explanation_entry es) = Inr b" "p = d @ n @ b"
    unfolding explanation_preimage_def by (auto simp: rbind_eq_Inr)
  from run [OF parts(3)] obtain vs where vs: "mapR expl_view es = Inr vs"
    "cat (map (\<lambda>x. cat (expl_parts x)) vs) = Inr b" by blast
  with mapR_length [OF vs(1)] parts show ?thesis by (intro exI [of _ vs]) simp
qed

lemma explanation_preimage_inj:
  assumes "explanation_preimage es = Inr p" "explanation_preimage es' = Inr p"
  shows "\<exists>vs. mapR expl_view es = Inr vs \<and> mapR expl_view es' = Inr vs"
proof -
  let ?run = "\<lambda>vs. to_bytes_8_big (length vs) # map (\<lambda>x. cat (expl_parts x)) vs @ []"
  obtain vs ws where vs: "mapR expl_view es = Inr vs" "mapR expl_view es' = Inr ws"
    and "cat (be64_frame (bstr ''seam-explanation-digest:v1'') # ?run vs) = Inr p"
      "cat (be64_frame (bstr ''seam-explanation-digest:v1'') # ?run ws) = Inr p"
    using explanation_preimage_view [OF assms(1)] explanation_preimage_view [OF assms(2)] by blast
  then obtain c where "cat (?run vs) = Inr c" "cat (?run ws) = Inr c" by - (erule (1) bf.peelE)
  from counted_run [OF be64.self_delimiting_axioms expl.self_delimiting_axioms this] vs show ?thesis by auto
qed

text \<open>The two explanations are the same list of entries, field by field, or collide.\<close>

definition same_explanation :: "pyval \<Rightarrow> pyval \<Rightarrow> bool" where
  "same_explanation es es' \<longleftrightarrow>
     (\<exists>xs ys vs. py_list es = Inr xs \<and> py_list es' = Inr ys \<and>
        mapR expl_view xs = Inr vs \<and> mapR expl_view ys = Inr vs)"

definition explanation_collision :: "pyval \<Rightarrow> pyval \<Rightarrow> bool" where
  "explanation_collision es es' \<longleftrightarrow>
     (\<exists>xs ys p q. py_list es = Inr xs \<and> py_list es' = Inr ys \<and>
        explanation_preimage xs = Inr p \<and> explanation_preimage ys = Inr q \<and> sha256_collision p q)"

lemma explanation_digest_eq:
  assumes "explanation_digest es = Inr d" "explanation_digest es' = Inr d"
  shows "same_explanation es es' \<or> explanation_collision es es'"
proof -
  from assms obtain xs ys p q where l: "py_list es = Inr xs" "py_list es' = Inr ys"
    "explanation_preimage xs = Inr p" "explanation_preimage ys = Inr q" and eq: "sha256 p = sha256 q"
    by (auto simp: explanation_digest_def rbind_eq_Inr)
  from sha256_eqD [OF eq] show ?thesis
  proof
    assume "p = q"
    with l explanation_preimage_inj [of xs p ys] show ?thesis unfolding same_explanation_def by blast
  next
    assume "sha256_collision p q"
    with l show ?thesis unfolding explanation_collision_def by blast
  qed
qed

text \<open>C24: The explanation digest binds the sealed explanation: two explanations with the same digest have
  the same entries in the same order, each with the same kind, participant, proposal, value, reason,
  rationale reference and confidence, where an absent confidence and a stated 0.0 differ, or their
  preimages are an explicit SHA-256 collision.\<close>

theorem explanation_digest_binds:
  assumes "explanation_digest es = Inr d" and "explanation_digest es' = Inr d"
  shows "same_explanation es es' \<or> explanation_collision es es'"
  using assms by (rule explanation_digest_eq)

lemma commitment_explanation_checked:
  assumes "commitment_explanation_digest c = Inr d" "py_get c (ustr ''explanation'') = Inr es" "es \<noteq> VNone"
  shows "explanation_digest es = Inr d \<and> published_digest c \<in> {Inr None, Inr (Some d)}"
  using assms by (auto simp: commitment_explanation_digest_def rbind_eq_Inr split: if_splits)

definition commitment_collision :: "pyval \<Rightarrow> pyval \<Rightarrow> bool" where
  "commitment_collision c c' \<longleftrightarrow>
     (\<exists>p q. commitment_preimage c = Inr p \<and> commitment_preimage c' = Inr q \<and> sha256_collision p q)"

lemma commitment_digest_eq:
  assumes "seam_commitment_digest c = Inr h" and "seam_commitment_digest c' = Inr h"
  shows "(\<exists>m. commitment_view_of c = Inr m \<and> commitment_view_of c' = Inr m) \<or> commitment_collision c c'"
proof -
  from assms obtain p q where p: "commitment_preimage c = Inr p" "commitment_preimage c' = Inr q"
    and eq: "sha256 p = sha256 q"
    by (auto simp: seam_commitment_digest_def rbind_eq_Inr hexc.eq_iff)
  from sha256_eqD [OF eq] show ?thesis
  proof
    assume "p = q"
    with commitment_preimage_view [OF p(1)] commitment_preimage_view [OF p(2)] show ?thesis
      by (auto dest: commitment_parts_inj)
  next
    assume "sha256_collision p q"
    with p show ?thesis unfolding commitment_collision_def by blast
  qed
qed

text \<open>C14: The commitment digest binds the whole commitment: two commitments with the same digest agree on
  id, action, authority, supersedes (absent and empty told apart), authentication method, trust
  basis, committer and explanation digest, and, when both carry their explanation entries, on
  every entry; otherwise an explicit SHA-256 collision is at hand.\<close>

theorem commitment_digest_binds:
  assumes "seam_commitment_digest c = Inr h" and "seam_commitment_digest c' = Inr h"
    and "py_get c (ustr ''explanation'') = Inr es" "es \<noteq> VNone"
    and "py_get c' (ustr ''explanation'') = Inr es'" "es' \<noteq> VNone"
  shows "((\<exists>m. commitment_view_of c = Inr m \<and> commitment_view_of c' = Inr m) \<and>
      (same_explanation es es' \<or> explanation_collision es es')) \<or> commitment_collision c c'"
  using commitment_digest_eq [OF assms(1,2)]
proof
  assume "\<exists>m. commitment_view_of c = Inr m \<and> commitment_view_of c' = Inr m"
  then obtain m where m: "commitment_view_of c = Inr m" "commitment_view_of c' = Inr m" by blast
  then have "commitment_explanation_digest c = Inr (m_explanation m)"
    "commitment_explanation_digest c' = Inr (m_explanation m)"
    by (auto simp: commitment_view_of_def rbind_eq_Inr)
  with assms(3-6) have "explanation_digest es = Inr (m_explanation m)" "explanation_digest es' = Inr (m_explanation m)"
    using commitment_explanation_checked by blast+
  from explanation_digest_eq [OF this] m show ?thesis by blast
qed simp

section \<open>Examples\<close>

text \<open>An entry with confidence 0.5, given as a double; and the same with an absent confidence.\<close>

definition example_entry :: "pyval \<Rightarrow> pyval" where
  "example_entry conf =
     VDict [(VStr (ustr ''kind''), VStr (ustr ''vote'')), (VStr (ustr ''participant''), VStr (ustr ''p'')),
            (VStr (ustr ''proposal_id''), VStr (ustr ''1'')), (VStr (ustr ''value''), VStr (ustr ''yes'')),
            (VStr (ustr ''reason''), VStr []), (VStr (ustr ''confidence''), conf)]"

definition example_commitment :: "pyval \<Rightarrow> pyval" where
  "example_commitment es =
     VDict [(VStr (ustr ''id''), VStr (ustr ''c1'')), (VStr (ustr ''action''), VStr (ustr ''pay'')),
            (VStr (ustr ''authority''), VStr (ustr ''a'')), (VStr (ustr ''auth_method''), VStr (ustr ''m'')),
            (VStr (ustr ''trust_basis''), VStr (ustr ''t'')), (VStr (ustr ''explanation''), es)]"

lemma half_canonical: "canonical_confidence 0x3FE0000000000000"
  by (simp add: canonical_confidence_def f64_isfinite_def f64_exponent_def f64_scaled_def f64_units_def
      f64_fraction_def f64_negative_def)

lemmas entry_evals = explanation_entry_def example_entry_def py_getitem_def py_get_def py_encode_def
  field_bytes_def EXPLANATION_KINDS_def confidence_of_def confidence_bytes_def half_canonical
  optional_text_def be64_opt_bytes_def be64_frame_def to_bytes_8_big_def utf8_encode_def utf8_cp_def
  ustr_def pack_f64_be_def

lemma example_explanation:
  "\<exists>d. explanation_digest (VList [example_entry (VFloat 0x3FE0000000000000), example_entry VNone]) = Inr d"
  by (simp add: explanation_digest_def py_list_def explanation_preimage_def entry_evals)

lemma example_commitment_digest:
  "\<exists>h. seam_commitment_digest (example_commitment (VList [example_entry VNone])) = Inr h"
proof -
  let ?es = "VList [example_entry VNone]"
  let ?c = "example_commitment ?es"
  obtain d where d: "explanation_digest ?es = Inr d"
    by (simp add: explanation_digest_def py_list_def explanation_preimage_def entry_evals)
  then have "length d = 32" by (auto simp: explanation_digest_def rbind_eq_Inr)
  have x: "commitment_explanation_digest ?c = Inr d"
    using d by (simp add: commitment_explanation_digest_def published_digest_def example_commitment_def
        py_get_def ustr_def)
  show ?thesis
    unfolding seam_commitment_digest_def commitment_preimage_def x
    using \<open>length d = 32\<close>
    by (simp add: example_commitment_def field_bytes_def py_getitem_def py_get_def py_encode_def
        optional_text_def be64_opt_bytes_def committer_bytes_def py_truthy_def be64_frame_def
        to_bytes_8_big_def utf8_encode_def utf8_cp_def ustr_def)
qed

theorem explanation_digest_binds_witness:
  "\<exists>d. explanation_digest (VList [example_entry (VFloat 0x3FE0000000000000), example_entry VNone]) = Inr d \<and>
     (let es = VList [example_entry (VFloat 0x3FE0000000000000), example_entry VNone]
      in same_explanation es es \<or> explanation_collision es es)"
  using example_explanation explanation_digest_binds by (metis (no_types, lifting))

theorem commitment_digest_binds_witness:
  "\<exists>h. seam_commitment_digest (example_commitment (VList [example_entry VNone])) = Inr h \<and>
     (let es = VList [example_entry VNone]; c = example_commitment es
      in ((\<exists>m. commitment_view_of c = Inr m \<and> commitment_view_of c = Inr m) \<and>
        (same_explanation es es \<or> explanation_collision es es)) \<or> commitment_collision c c)"
proof -
  let ?es = "VList [example_entry VNone]"
  obtain h where h: "seam_commitment_digest (example_commitment ?es) = Inr h"
    using example_commitment_digest ..
  have "py_get (example_commitment ?es) (ustr ''explanation'') = Inr ?es"
    by (simp add: example_commitment_def py_get_def ustr_def)
  from commitment_digest_binds [OF h h this _ this] h show ?thesis by simp
qed

end
