(* ===== verification/Json.thy ===== *)
theory Json
  imports Commitment
begin

text \<open>
  The JSON reader and writer of the standard library as the SDK uses them: \<open>json.loads\<close> on text and
  on bytes with an \<open>object_pairs_hook\<close>, and \<open>json.dumps\<close>. The nesting the interpreter's stack allows
  is the argument \<open>depth\<close>; deeper input raises \<open>RecursionError\<close>. Decimal literals become the nearest
  double. The lemmas show that the reader always returns a shorter rest (so the guards of its
  recursion are never the reason for a refusal), and that with the SDK's hook no dictionary of the
  result, at any depth, was built from repeated keys.
\<close>

section \<open>Decimal to double\<close>

text \<open>The double nearest to \<open>n / d\<close>, ties to even, infinity beyond the range.\<close>

definition f64_of_ratio :: "bool \<Rightarrow> nat \<Rightarrow> nat \<Rightarrow> f64" where
  "f64_of_ratio neg n d =
     (let scaled = (\<lambda>e :: int. round_half_even (n * 2 ^ nat (- e)) (d * 2 ^ nat e));
          below = (\<lambda>e :: int. (n * 2 ^ nat (- e)) div (d * 2 ^ nat e));
          e0 = int (bit_length n) - int (bit_length d) - 53;
          e1 = (if below e0 < 2 ^ 53 then e0 else e0 + 1);
          e = max (- 1074) e1;
          bits = nat (e + 1074) * 2 ^ 52 + scaled e
      in of_nat ((if neg then 2 ^ 63 else 0)
           + (if n = 0 then 0 else if 2047 * 2 ^ 52 \<le> bits then 2047 * 2 ^ 52 else bits)))"

definition f64_of_decimal :: "bool \<Rightarrow> nat \<Rightarrow> int \<Rightarrow> f64" where
  "f64_of_decimal neg digits e = f64_of_ratio neg (digits * 10 ^ nat e) (10 ^ nat (- e))"

definition f64_inf :: "bool \<Rightarrow> f64" where
  "f64_inf neg = of_nat ((if neg then 2 ^ 63 else 0) + 2047 * 2 ^ 52)"

definition f64_nan :: f64 where
  "f64_nan = 0x7FF8000000000000"

section \<open>Reading\<close>

definition is_digit :: "nat \<Rightarrow> bool" where
  "is_digit c = (48 \<le> c \<and> c \<le> 57)"

definition is_json_space :: "nat \<Rightarrow> bool" where
  "is_json_space c = (c = 32 \<or> c = 9 \<or> c = 10 \<or> c = 13)"

definition skip_space :: "ustr \<Rightarrow> ustr" where
  "skip_space s = dropWhile is_json_space s"

definition hex4 :: "nat \<Rightarrow> nat \<Rightarrow> nat \<Rightarrow> nat \<Rightarrow> nat option" where
  "hex4 a b c d =
     (case (hex_value a, hex_value b, hex_value c, hex_value d) of
        (Some w, Some x, Some y, Some z) \<Rightarrow> Some (((w * 16 + x) * 16 + y) * 16 + z)
      | _ \<Rightarrow> None)"

definition json_escape :: "nat \<Rightarrow> nat option" where
  "json_escape c =
     (if c = 34 \<or> c = 92 \<or> c = 47 then Some c
      else if c = 98 then Some 8 else if c = 102 then Some 12 else if c = 110 then Some 10
      else if c = 114 then Some 13 else if c = 116 then Some 9 else None)"

definition is_high :: "nat \<Rightarrow> bool" where
  "is_high u = (0xD800 \<le> u \<and> u \<le> 0xDBFF)"

definition is_low :: "nat \<Rightarrow> bool" where
  "is_low u = (0xDC00 \<le> u \<and> u \<le> 0xDFFF)"

definition join_surrogates :: "nat \<Rightarrow> nat \<Rightarrow> nat" where
  "join_surrogates h l = 0x10000 + (h - 0xD800) * 0x400 + (l - 0xDC00)"

text \<open>The code point after \<open>\u\<close> and what follows it. An escaped high surrogate directly followed by
  an escaped low one is one code point.\<close>

fun scan_unicode :: "ustr \<Rightarrow> (nat \<times> ustr) res" where
  "scan_unicode (x1 # x2 # x3 # x4 # r) =
     (case hex4 x1 x2 x3 x4 of
        None \<Rightarrow> Inl JSONDecodeError
      | Some u \<Rightarrow>
          (case r of
             a # b # y1 # y2 # y3 # y4 # t \<Rightarrow>
               (if is_high u \<and> a = 92 \<and> b = 117 then
                  (case hex4 y1 y2 y3 y4 of
                     None \<Rightarrow> Inl JSONDecodeError
                   | Some l \<Rightarrow> if is_low l then Inr (join_surrogates u l, t) else Inr (u, r))
                else Inr (u, r))
           | _ \<Rightarrow> Inr (u, r)))"
| "scan_unicode _ = Inl JSONDecodeError"

text \<open>The code point an escape stands for, after the backslash.\<close>

definition scan_escape :: "ustr \<Rightarrow> (nat \<times> ustr) res" where
  "scan_escape s =
     (case s of
        [] \<Rightarrow> Inl JSONDecodeError
      | e # r \<Rightarrow>
          (if e = 117 then scan_unicode r
           else case json_escape e of None \<Rightarrow> Inl JSONDecodeError | Some d \<Rightarrow> Inr (d, r)))"

lemma scan_unicode_shorter: "scan_unicode s = Inr (c, r) \<Longrightarrow> length r < length s"
  by (cases s rule: scan_unicode.cases) (auto split: option.splits list.splits if_splits)

lemma scan_escape_shorter: "scan_escape s = Inr (c, r) \<Longrightarrow> length r < length s"
  by (auto simp: scan_escape_def split: list.splits if_splits option.splits dest: scan_unicode_shorter)

text \<open>A string after its opening quote: its content and what follows the closing quote.\<close>

function scan_string :: "ustr \<Rightarrow> (ustr \<times> ustr) res" where
  "scan_string s =
     (case s of
        [] \<Rightarrow> Inl JSONDecodeError
      | c # cs \<Rightarrow>
          (if c = 34 then Inr ([], cs)
           else if c = 92 then
             (case scan_escape cs of
                Inl e \<Rightarrow> Inl e
              | Inr (u, r) \<Rightarrow> rbind (scan_string r) (\<lambda>(t, rest). Inr (u # t, rest)))
           else if c < 0x20 then Inl JSONDecodeError
           else rbind (scan_string cs) (\<lambda>(t, rest). Inr (c # t, rest))))"
  by pat_completeness auto
termination
  by (relation "measure length") (auto dest: scan_escape_shorter)

declare scan_string.simps [simp del]

text \<open>A number: sign, integer part without leading zeros, optional fraction, optional exponent; the
  longest prefix that matches. An integer literal of more than 4300 digits is refused by \<open>int\<close>.\<close>

definition scan_fraction :: "ustr \<Rightarrow> ustr \<times> ustr" where
  "scan_fraction s =
     (case s of
        c # r \<Rightarrow>
          (let ds = takeWhile is_digit r
           in if c = 46 \<and> ds \<noteq> [] then (ds, drop (length ds) r) else ([], s))
      | [] \<Rightarrow> ([], s))"

definition scan_exponent :: "ustr \<Rightarrow> int option \<times> ustr" where
  "scan_exponent s =
     (case s of
        c # r \<Rightarrow>
          (let signed = (case r of x # _ \<Rightarrow> x = 43 \<or> x = 45 | [] \<Rightarrow> False);
               body = (if signed then tl r else r);
               ds = takeWhile is_digit body;
               v = int (nat_of_digits ds)
           in if (c = 101 \<or> c = 69) \<and> ds \<noteq> [] then
                (Some (if signed \<and> hd r = 45 then - v else v), drop (length ds) body)
              else (None, s))
      | [] \<Rightarrow> (None, s))"

definition INT_MAX_STR_DIGITS :: nat where
  "INT_MAX_STR_DIGITS = 4300"

definition scan_number :: "ustr \<Rightarrow> (pyval \<times> ustr) res" where
  "scan_number s =
     (let neg = (case s of c # _ \<Rightarrow> c = 45 | [] \<Rightarrow> False);
          body = (if neg then tl s else s);
          ds = takeWhile is_digit body;
          ip = (if ds \<noteq> [] \<and> hd ds = 48 then [48] else ds);
          (fp, r1) = scan_fraction (drop (length ip) body);
          (ex, r2) = scan_exponent r1;
          m = nat_of_digits (ip @ fp)
      in if ip = [] then Inl JSONDecodeError
         else if fp = [] \<and> ex = None then
           (if INT_MAX_STR_DIGITS < length ip then Inl ValueError
            else Inr (VInt (if neg then - int m else int m), r2))
         else Inr (VFloat (f64_of_decimal neg m ((case ex of None \<Rightarrow> 0 | Some e \<Rightarrow> e) - int (length fp))), r2))"

section \<open>Values\<close>

text \<open>A reader of the rest is entered only when the rest is shorter; that it always is shorter is
  shown below.\<close>

lemma length_skip_space: "length (skip_space s) \<le> length s"
  by (simp add: skip_space_def length_dropWhile_le)

lemma length_skip_space_Cons: "skip_space s = x # r \<Longrightarrow> length r < length s"
  using length_skip_space [of s] by simp

function (sequential) json_value :: "((ustr \<times> pyval) list \<Rightarrow> pyval res) \<Rightarrow> nat \<Rightarrow> ustr \<Rightarrow> (pyval \<times> ustr) res"
  and json_elements :: "((ustr \<times> pyval) list \<Rightarrow> pyval res) \<Rightarrow> nat \<Rightarrow> ustr \<Rightarrow> (pyval list \<times> ustr) res"
  and json_members :: "((ustr \<times> pyval) list \<Rightarrow> pyval res) \<Rightarrow> nat \<Rightarrow> ustr \<Rightarrow> ((ustr \<times> pyval) list \<times> ustr) res" where
  "json_value hook depth [] = Inl JSONDecodeError"
| "json_value hook depth (c # cs) =
     (if c = 34 then rbind (scan_string cs) (\<lambda>(t, r). Inr (VStr t, r))
      else if c = 123 then
        (case depth of
           0 \<Rightarrow> Inl RecursionError
         | Suc d \<Rightarrow>
             (case skip_space cs of
                [] \<Rightarrow> Inl JSONDecodeError
              | e # r \<Rightarrow>
                  (if e = 125 then rbind (hook []) (\<lambda>v. Inr (v, r))
                   else rbind (json_members hook d (skip_space cs)) (\<lambda>(kvs, t).
                          rbind (hook kvs) (\<lambda>v. Inr (v, t))))))
      else if c = 91 then
        (case depth of
           0 \<Rightarrow> Inl RecursionError
         | Suc d \<Rightarrow>
             (case skip_space cs of
                [] \<Rightarrow> Inl JSONDecodeError
              | e # r \<Rightarrow>
                  (if e = 93 then Inr (VList [], r)
                   else rbind (json_elements hook d (skip_space cs)) (\<lambda>(vs, t). Inr (VList vs, t)))))
      else if startswith (c # cs) (ustr ''null'') then Inr (VNone, drop 4 (c # cs))
      else if startswith (c # cs) (ustr ''true'') then Inr (VBool True, drop 4 (c # cs))
      else if startswith (c # cs) (ustr ''false'') then Inr (VBool False, drop 5 (c # cs))
      else if startswith (c # cs) (ustr ''NaN'') then Inr (VFloat f64_nan, drop 3 (c # cs))
      else if startswith (c # cs) (ustr ''Infinity'') then Inr (VFloat (f64_inf False), drop 8 (c # cs))
      else if startswith (c # cs) (ustr ''-Infinity'') then Inr (VFloat (f64_inf True), drop 9 (c # cs))
      else scan_number (c # cs))"
| "json_elements hook depth s =
     rbind (json_value hook depth s) (\<lambda>(v, r).
       case skip_space r of
         [] \<Rightarrow> Inl JSONDecodeError
       | e # t \<Rightarrow>
           (if e = 93 then Inr ([v], t)
            else if e = 44 \<and> length (skip_space t) < length s then
              rbind (json_elements hook depth (skip_space t)) (\<lambda>(vs, u). Inr (v # vs, u))
            else Inl JSONDecodeError))"
| "json_members hook depth s =
     (case s of
        [] \<Rightarrow> Inl JSONDecodeError
      | q # body \<Rightarrow>
          (if q \<noteq> 34 then Inl JSONDecodeError
           else
             rbind (scan_string body) (\<lambda>(k, r).
               case skip_space r of
                 [] \<Rightarrow> Inl JSONDecodeError
               | e # t \<Rightarrow>
                   (if e \<noteq> 58 \<or> \<not> length (skip_space t) < length s then Inl JSONDecodeError
                    else
                      rbind (json_value hook depth (skip_space t)) (\<lambda>(v, w).
                        case skip_space w of
                          [] \<Rightarrow> Inl JSONDecodeError
                        | f # x \<Rightarrow>
                            (if f = 125 then Inr ([(k, v)], x)
                             else if f = 44 \<and> length (skip_space x) < length s then
                               rbind (json_members hook depth (skip_space x)) (\<lambda>(kvs, y). Inr ((k, v) # kvs, y))
                             else Inl JSONDecodeError))))))"
  by pat_completeness auto
termination
  by (relation "measures [\<lambda>x. case x of Inl (_, _, s) \<Rightarrow> length s | Inr (Inl (_, _, s)) \<Rightarrow> length s
      | Inr (Inr (_, _, s)) \<Rightarrow> length s, \<lambda>x. case x of Inl _ \<Rightarrow> 0 | _ \<Rightarrow> 1]")
    (auto simp: le_imp_less_Suc length_skip_space dest: length_skip_space_Cons)

section \<open>Documents\<close>

text \<open>\<open>json.loads\<close> on text: a byte order mark is refused, surrounding whitespace is skipped, anything
  after the value is refused.\<close>

definition json_loads_str :: "((ustr \<times> pyval) list \<Rightarrow> pyval res) \<Rightarrow> nat \<Rightarrow> ustr \<Rightarrow> pyval res" where
  "json_loads_str hook depth s =
     (if startswith s [0xFEFF] then Inl JSONDecodeError
      else rbind (json_value hook depth (skip_space s)) (\<lambda>(v, r).
             if skip_space r = [] then Inr v else Inl JSONDecodeError))"

text \<open>The decoders \<open>json.loads\<close> chooses between for bytes, all with \<open>surrogatepass\<close>.\<close>

fun utf8_step_sp :: "bytes \<Rightarrow> (nat \<times> bytes) option" where
  "utf8_step_sp (b # c # d # r) =
     (if b = 0xED \<and> 0xA0 \<le> c \<and> c < 0xC0 \<and> utf8_cont d then
        Some (0xD000 + utf8_tail c * 64 + utf8_tail d, r)
      else utf8_step (b # c # d # r))"
| "utf8_step_sp bs = utf8_step bs"

lemma utf8_step_sp_shorter: "utf8_step_sp bs = Some (c, r) \<Longrightarrow> length r < length bs"
  by (cases bs rule: utf8_step_sp.cases)
    (auto dest: utf8_step_shorter split: if_splits simp del: utf8_step.simps)

function utf8_decode_sp :: "bytes \<Rightarrow> ustr res" where
  "utf8_decode_sp bs =
     (if bs = [] then Inr []
      else case utf8_step_sp bs of
             None \<Rightarrow> Inl UnicodeDecodeError
           | Some (c, r) \<Rightarrow> rbind (utf8_decode_sp r) (\<lambda>cs. Inr (c # cs)))"
  by pat_completeness auto
termination
  by (relation "measure length") (auto dest: utf8_step_sp_shorter)

declare utf8_decode_sp.simps [simp del]

text \<open>UTF-16 and UTF-32 in either byte order: units first, then code points. A high surrogate unit
  followed by a low one is one code point; \<open>surrogatepass\<close> keeps a lone one. A cut unit raises.\<close>

fun units16 :: "bool \<Rightarrow> bytes \<Rightarrow> nat list res" where
  "units16 big [] = Inr []"
| "units16 big [a] = Inl UnicodeDecodeError"
| "units16 big (a # b # r) =
     rbind (units16 big r) (\<lambda>us.
       Inr ((if big then unat a * 256 + unat b else unat b * 256 + unat a) # us))"

fun join_units :: "nat list \<Rightarrow> ustr" where
  "join_units (u # v # r) =
     (if is_high u \<and> is_low v then join_surrogates u v # join_units r else u # join_units (v # r))"
| "join_units us = us"

fun units32 :: "bool \<Rightarrow> bytes \<Rightarrow> ustr res" where
  "units32 big [] = Inr []"
| "units32 big (a # b # c # d # r) =
     (let n = (if big then ((unat a * 256 + unat b) * 256 + unat c) * 256 + unat d
               else ((unat d * 256 + unat c) * 256 + unat b) * 256 + unat a)
      in if n < 0x110000 then rbind (units32 big r) (\<lambda>us. Inr (n # us)) else Inl UnicodeDecodeError)"
| "units32 big bs = Inl UnicodeDecodeError"

datatype json_encoding = Utf8 | Utf8Sig | Utf16 | Utf16LE | Utf16BE | Utf32 | Utf32LE | Utf32BE

text \<open>\<open>json.detect_encoding\<close>: byte order marks first, then the position of NUL bytes.\<close>

definition detect_encoding :: "bytes \<Rightarrow> json_encoding" where
  "detect_encoding b =
     (if startswith b [0x00, 0x00, 0xFE, 0xFF] \<or> startswith b [0xFF, 0xFE, 0x00, 0x00] then Utf32
      else if startswith b [0xFE, 0xFF] \<or> startswith b [0xFF, 0xFE] then Utf16
      else if startswith b [0xEF, 0xBB, 0xBF] then Utf8Sig
      else if 4 \<le> length b then
        (if b ! 0 = 0 then (if b ! 1 \<noteq> 0 then Utf16BE else Utf32BE)
         else if b ! 1 = 0 then (if b ! 2 \<noteq> 0 \<or> b ! 3 \<noteq> 0 then Utf16LE else Utf32LE)
         else Utf8)
      else if length b = 2 then
        (if b ! 0 = 0 then Utf16BE else if b ! 1 = 0 then Utf16LE else Utf8)
      else Utf8)"

definition json_decode_bytes :: "bytes \<Rightarrow> ustr res" where
  "json_decode_bytes b =
     (case detect_encoding b of
        Utf8 \<Rightarrow> utf8_decode_sp b
      | Utf8Sig \<Rightarrow> utf8_decode_sp (drop 3 b)
      | Utf16 \<Rightarrow> rbind (units16 (startswith b [0xFE, 0xFF]) (drop 2 b)) (\<lambda>us. Inr (join_units us))
      | Utf16LE \<Rightarrow> rbind (units16 False b) (\<lambda>us. Inr (join_units us))
      | Utf16BE \<Rightarrow> rbind (units16 True b) (\<lambda>us. Inr (join_units us))
      | Utf32 \<Rightarrow> units32 (startswith b [0x00, 0x00, 0xFE, 0xFF]) (drop 4 b)
      | Utf32LE \<Rightarrow> units32 False b
      | Utf32BE \<Rightarrow> units32 True b)"

definition json_loads_bytes :: "((ustr \<times> pyval) list \<Rightarrow> pyval res) \<Rightarrow> nat \<Rightarrow> bytes \<Rightarrow> pyval res" where
  "json_loads_bytes hook depth b = rbind (json_decode_bytes b) (json_loads_str hook depth)"

section \<open>Building dictionaries\<close>

text \<open>Without a hook: a repeated key keeps its first position and its last value.\<close>

fun dict_put :: "(pyval \<times> pyval) list \<Rightarrow> pyval \<Rightarrow> pyval \<Rightarrow> (pyval \<times> pyval) list" where
  "dict_put [] k v = [(k, v)]"
| "dict_put ((k', v') # d) k v = (if k' = k then (k, v) # d else (k', v') # dict_put d k v)"

definition plain_dict :: "(ustr \<times> pyval) list \<Rightarrow> pyval res" where
  "plain_dict kvs = Inr (VDict (foldl (\<lambda>d kv. dict_put d (VStr (fst kv)) (snd kv)) [] kvs))"

text \<open>The hook of \<open>crypto.py\<close>: a repeated key raises.\<close>

fun no_duplicate_pairs :: "(pyval \<times> pyval) list \<Rightarrow> (ustr \<times> pyval) list \<Rightarrow> (pyval \<times> pyval) list res" where
  "no_duplicate_pairs out [] = Inr out"
| "no_duplicate_pairs out ((k, v) # kvs) =
     (if VStr k \<in> fst ` set out then Inl ValueError
      else no_duplicate_pairs (out @ [(VStr k, v)]) kvs)"

definition no_duplicate_keys :: "(ustr \<times> pyval) list \<Rightarrow> pyval res" where
  "no_duplicate_keys kvs = rbind (no_duplicate_pairs [] kvs) (\<lambda>d. Inr (VDict d))"

section \<open>The rest is always shorter\<close>

lemma scan_string_shorter: "scan_string s = Inr (t, r) \<Longrightarrow> length r < length s"
proof (induction s arbitrary: t r rule: scan_string.induct)
  case (1 s)
  show ?case
  proof (cases s)
    case Nil
    with 1(3) show ?thesis by (simp add: scan_string.simps)
  next
    case (Cons c cs)
    consider "c = 34" | u r' where "c = 92" "scan_escape cs = Inr (u, r')" | "c \<noteq> 34" "c \<noteq> 92" "\<not> c < 0x20"
      using 1(3) unfolding Cons by (subst (asm) scan_string.simps) (auto split: if_splits sum.splits)
    then show ?thesis
    proof cases
      case 1
      with \<open>scan_string s = Inr (t, r)\<close> Cons show ?thesis by (simp add: scan_string.simps [of "34 # cs"])
    next
      case 2
      then obtain t' where "scan_string r' = Inr (t', r)"
        using \<open>scan_string s = Inr (t, r)\<close> Cons by (auto simp: scan_string.simps [of "92 # cs"] rbind_eq_Inr)
      with 1(1) [OF Cons _ _ 2(2)] 2 scan_escape_shorter [OF 2(2)] Cons show ?thesis by fastforce
    next
      case 3
      then obtain t' where "scan_string cs = Inr (t', r)"
        using \<open>scan_string s = Inr (t, r)\<close> Cons by (auto simp: scan_string.simps [of "c # cs"] rbind_eq_Inr)
      with 1(2) [OF Cons] 3 Cons show ?thesis by fastforce
    qed
  qed
qed

lemma scan_fraction_le: "scan_fraction s = (ds, r) \<Longrightarrow> length r \<le> length s"
  by (auto simp: scan_fraction_def Let_def split: list.splits if_splits)

lemma scan_exponent_le: "scan_exponent s = (e, r) \<Longrightarrow> length r \<le> length s"
  by (auto simp: scan_exponent_def Let_def split: list.splits if_splits)

lemma scan_number_shorter: "scan_number s = Inr (v, r) \<Longrightarrow> length r < length s"
proof -
  assume n: "scan_number s = Inr (v, r)"
  define body where "body = (if case s of c # _ \<Rightarrow> c = 45 | [] \<Rightarrow> False then tl s else s)"
  define ip where "ip = (if takeWhile is_digit body \<noteq> [] \<and> hd (takeWhile is_digit body) = 48 then [48]
    else takeWhile is_digit body)"
  obtain fp r1 where f: "scan_fraction (drop (length ip) body) = (fp, r1)" by fastforce
  obtain ex r2 where e: "scan_exponent r1 = (ex, r2)" by fastforce
  have ip: "ip \<noteq> []" and r: "r = r2"
    using n f e unfolding scan_number_def Let_def body_def [symmetric] ip_def [symmetric]
    by (auto split: if_splits)
  have "length ip \<le> length (takeWhile is_digit body)"
    by (cases "takeWhile is_digit body") (auto simp: ip_def)
  then have "length ip \<le> length body" using length_takeWhile_le [of is_digit body] by linarith
  moreover have "0 < length ip" using ip by simp
  ultimately have "length (drop (length ip) body) < length body" unfolding length_drop by linarith
  moreover have "length body \<le> length s" by (auto simp: body_def split: list.splits)
  ultimately show ?thesis using scan_fraction_le [OF f] scan_exponent_le [OF e] unfolding r by linarith
qed

text \<open>What a successful read of a value was: a string, an empty container, a dictionary of members, a
  list of elements, a literal, or a number.\<close>

definition scalar_read :: "ustr \<Rightarrow> pyval \<Rightarrow> ustr \<Rightarrow> bool" where
  "scalar_read s v r \<longleftrightarrow>
     (\<exists>k. 0 < k \<and> r = drop k s \<and> v \<in> {VNone, VBool True, VBool False} \<union> range VFloat) \<or>
     scan_number s = Inr (v, r)"

lemma json_value_scalar:
  assumes "json_value hook depth (c # cs) = Inr (v, r)" "c \<noteq> 34" "c \<noteq> 123" "c \<noteq> 91"
  shows "scalar_read (c # cs) v r"
proof -
  have "json_value hook depth (c # cs) \<in>
    {Inr (VNone, drop 4 (c # cs)), Inr (VBool True, drop 4 (c # cs)), Inr (VBool False, drop 5 (c # cs)),
     Inr (VFloat f64_nan, drop 3 (c # cs)), Inr (VFloat (f64_inf False), drop 8 (c # cs)),
     Inr (VFloat (f64_inf True), drop 9 (c # cs)), scan_number (c # cs)}"
    using assms(2-4) unfolding json_value.simps if_False by simp
  then have mem: "Inr (v, r) \<in> {Inr (VNone, drop 4 (c # cs)), Inr (VBool True, drop 4 (c # cs)), Inr (VBool False, drop 5 (c # cs)),
     Inr (VFloat f64_nan, drop 3 (c # cs)), Inr (VFloat (f64_inf False), drop 8 (c # cs)),
     Inr (VFloat (f64_inf True), drop 9 (c # cs)), scan_number (c # cs)}"
    unfolding assms(1) .
  have lit: "scalar_read (c # cs) v r"
    if "Inr (v, r) = (Inr (w, drop n (c # cs)) :: (pyval \<times> ustr) res)" "0 < n"
      "w \<in> {VNone, VBool True, VBool False} \<union> range VFloat" for w n
    using that unfolding scalar_read_def sum.inject prod.inject by blast
  have "scalar_read (c # cs) v r" if "Inr (v, r) = scan_number (c # cs)"
    using that unfolding scalar_read_def by (intro disjI2) (rule sym)
  with mem show ?thesis by (elim insertE emptyE) ((erule lit; simp)+, blast)
qed

lemma json_value_container:
  assumes "json_value hook depth (c # cs) = Inr (v, r)" "c = 34 \<or> c = 123 \<or> c = 91"
  shows "(\<exists>t. scan_string cs = Inr (t, r) \<and> v = VStr t) \<or>
    (\<exists>e. skip_space cs = e # r \<and> (hook [] = Inr v \<or> v = VList [])) \<or>
    (\<exists>d kvs e t. c = 123 \<and> depth = Suc d \<and> skip_space cs = e # t \<and> e \<noteq> 125 \<and>
      json_members hook d (skip_space cs) = Inr (kvs, r) \<and> hook kvs = Inr v) \<or>
    (\<exists>d vs e t. c = 91 \<and> depth = Suc d \<and> skip_space cs = e # t \<and> e \<noteq> 93 \<and>
      json_elements hook d (skip_space cs) = Inr (vs, r) \<and> v = VList vs)"
proof -
  consider "c = 34" | "c = 123" | "c = 91" using assms(2) by blast
  then show ?thesis
  proof cases
    case 1
    with assms(1) show ?thesis by (simp add: rbind_eq_Inr) blast
  next
    case 2
    with assms(1) obtain d e t where "depth = Suc d" "skip_space cs = e # t"
      by (cases depth; cases "skip_space cs") simp_all
    with 2 assms(1) show ?thesis
      by (cases "e = 125") (auto simp: rbind_eq_Inr simp del: json_members.simps json_elements.simps)
  next
    case 3
    with assms(1) obtain d e t where "depth = Suc d" "skip_space cs = e # t"
      by (cases depth; cases "skip_space cs") simp_all
    with 3 assms(1) show ?thesis
      by (cases "e = 93") (auto simp: rbind_eq_Inr simp del: json_members.simps json_elements.simps)
  qed
qed

lemma json_members_Inr:
  assumes m: "json_members hook depth s = Inr (kvs, r)"
  obtains body k r1 t v w f x where "s = 34 # body" "scan_string body = Inr (k, r1)"
    "skip_space r1 = 58 # t" "length (skip_space t) < length s"
    "json_value hook depth (skip_space t) = Inr (v, w)" "skip_space w = f # x"
    "f = 125 \<and> kvs = [(k, v)] \<and> r = x \<or>
     (\<exists>kvs'. f = 44 \<and> length (skip_space x) < length s \<and>
        json_members hook depth (skip_space x) = Inr (kvs', r) \<and> kvs = (k, v) # kvs')"
proof -
  note J = json_members.simps [of hook depth s]
  obtain body where s: "s = 34 # body"
    using m unfolding J by (cases s) (simp_all del: json_members.simps split: if_splits)
  obtain k r1 where k: "scan_string body = Inr (k, r1)"
    using m unfolding J unfolding s by (cases "scan_string body") auto
  obtain e t where e: "skip_space r1 = e # t"
    using m k unfolding J unfolding s by (cases "skip_space r1") auto
  have "\<not> (e \<noteq> 58 \<or> \<not> length (skip_space t) < length s)"
    using m k e unfolding J unfolding s by (auto simp del: json_members.simps split: if_splits)
  then have e58: "e = 58" "length (skip_space t) < length s" by simp_all
  obtain v w where v: "json_value hook depth (skip_space t) = Inr (v, w)"
    using m k e e58 unfolding J unfolding s
    by (cases "json_value hook depth (skip_space t)") (auto simp del: json_members.simps)
  obtain f x where f: "skip_space w = f # x"
    using m k e e58 v unfolding J unfolding s by (cases "skip_space w") (auto simp del: json_members.simps)
  have "f = 125 \<and> kvs = [(k, v)] \<and> r = x \<or>
     (\<exists>kvs'. f = 44 \<and> length (skip_space x) < length s \<and>
        json_members hook depth (skip_space x) = Inr (kvs', r) \<and> kvs = (k, v) # kvs')"
    using m k e e58 v f unfolding J unfolding s
    by (auto simp: rbind_eq_Inr simp del: json_members.simps split: if_splits)
  with that s k e e58 v f show thesis by simp
qed

lemma json_shorter:
  "json_value hook d s = Inr (v, r) \<Longrightarrow> length r < length s"
  "json_elements hook d s = Inr (vs, r) \<Longrightarrow> length r < length s"
  "json_members hook d s = Inr (kvs, r) \<Longrightarrow> length r < length s"
proof (induction hook d s and hook d s and hook d s arbitrary: v r and vs r and kvs r
    rule: json_value_json_elements_json_members.induct)
  case (1 hook depth)
  then show ?case by simp
next
  case (2 hook depth c cs)
  show ?case
  proof (cases "c = 34 \<or> c = 123 \<or> c = 91")
    case True
    from json_value_container [OF 2(3) True] show ?thesis
    proof (elim disjE exE conjE)
      fix t assume "scan_string cs = Inr (t, r)"
      from scan_string_shorter [OF this] show ?thesis by simp
    next
      fix e assume "skip_space cs = e # r"
      from length_skip_space_Cons [OF this] show ?thesis by simp
    next
      fix e assume "skip_space cs = e # r"
      from length_skip_space_Cons [OF this] show ?thesis by simp
    next
      fix d kvs e t assume *: "c = 123" "depth = Suc d" "skip_space cs = e # t" "e \<noteq> 125"
        "json_members hook d (skip_space cs) = Inr (kvs, r)"
      have "length r < length (skip_space cs)" by (rule 2(1)) (use * in auto)
      with length_skip_space [of cs] show ?thesis by simp
    next
      fix d vs e t assume *: "c = 91" "depth = Suc d" "skip_space cs = e # t" "e \<noteq> 93"
        "json_elements hook d (skip_space cs) = Inr (vs, r)"
      have "length r < length (skip_space cs)" by (rule 2(2)) (use * in auto)
      with length_skip_space [of cs] show ?thesis by simp
    qed
  next
    case False
    with json_value_scalar [OF 2(3)] have "scalar_read (c # cs) v r" by blast
    then show ?thesis unfolding scalar_read_def using scan_number_shorter [of "c # cs" v r] by auto
  qed
next
  case (3 hook depth s)
  from 3(3) obtain v r' where v: "json_value hook depth s = Inr (v, r')"
    by (auto simp: rbind_eq_Inr)
  with 3(3) obtain e t where e: "skip_space r' = e # t" by (cases "skip_space r'") (auto simp: rbind_eq_Inr)
  have t: "length t < length s"
    using 3(1) [OF v] length_skip_space_Cons [OF e] by simp
  show ?case
  proof (cases "e = 93")
    case True
    with 3(3) v e t show ?thesis by simp
  next
    case False
    with 3(3) v e obtain vs' where "e = 44" "length (skip_space t) < length s"
      "json_elements hook depth (skip_space t) = Inr (vs', r)"
      by (subst (asm) json_elements.simps) (auto simp: rbind_eq_Inr simp del: json_elements.simps split: if_splits)
    with 3(2) [OF v _ e False] show ?thesis by fastforce
  qed
next
  case (4 hook depth s)
  from 4(3) obtain body k r1 t v w f x where m: "s = 34 # body" "scan_string body = Inr (k, r1)"
    "skip_space r1 = 58 # t" "length (skip_space t) < length s"
    "json_value hook depth (skip_space t) = Inr (v, w)" "skip_space w = f # x"
    and or: "f = 125 \<and> kvs = [(k, v)] \<and> r = x \<or>
     (\<exists>kvs'. f = 44 \<and> length (skip_space x) < length s \<and>
        json_members hook depth (skip_space x) = Inr (kvs', r) \<and> kvs = (k, v) # kvs')"
    by (rule json_members_Inr)
  have "length w < length (skip_space t)" by (rule 4(1)) (use m in auto)
  with length_skip_space_Cons [OF m(6)] m(4) have "length x < length s" by linarith
  moreover have "length r < length s" if "f = 44" "length (skip_space x) < length s"
    "json_members hook depth (skip_space x) = Inr (kvs', r)" for kvs'
    using that 4(2) [OF m(1) _ m(2) _ m(3) _ m(5) _ m(6)] m(4) by fastforce
  ultimately show ?case using or by blast
qed

section \<open>No repeated keys\<close>

text \<open>No dictionary inside the value, at any depth, has two entries with the same key.\<close>

fun distinct_deep :: "pyval \<Rightarrow> bool" where
  "distinct_deep (VList vs) = list_all distinct_deep vs"
| "distinct_deep (VDict d) = (distinct (map fst d) \<and> list_all (\<lambda>kv. distinct_deep (snd kv)) d)"
| "distinct_deep v = True"

lemma no_duplicate_pairs_distinct:
  assumes "no_duplicate_pairs out kvs = Inr d" "distinct (map fst out)"
    "list_all (\<lambda>kv. distinct_deep (snd kv)) out" "list_all (\<lambda>kv. distinct_deep (snd kv)) kvs"
  shows "distinct_deep (VDict d)"
  using assms
proof (induction kvs arbitrary: out)
  case Nil
  then show ?case by simp
next
  case (Cons kv kvs)
  obtain k v where kv: "kv = (k, v)" by (cases kv)
  with Cons.prems have "VStr k \<notin> fst ` set out" "no_duplicate_pairs (out @ [(VStr k, v)]) kvs = Inr d"
    by (auto split: if_splits)
  with Cons.IH [of "out @ [(VStr k, v)]"] Cons.prems(2-4) kv show ?case by simp
qed

lemma no_duplicate_keys_distinct:
  "no_duplicate_keys kvs = Inr v \<Longrightarrow> list_all (\<lambda>kv. distinct_deep (snd kv)) kvs \<Longrightarrow> distinct_deep v"
  using no_duplicate_pairs_distinct [of "[]" kvs]
  by (auto simp: no_duplicate_keys_def rbind_eq_Inr)

lemma scalar_read_distinct: "scalar_read s v r \<Longrightarrow> distinct_deep v"
  by (auto simp: scalar_read_def scan_number_def Let_def split: if_splits prod.splits)

lemma json_distinct:
  "json_value hook d s = Inr (v, r) \<Longrightarrow> hook = no_duplicate_keys \<Longrightarrow> distinct_deep v"
  "json_elements hook d s = Inr (vs, r) \<Longrightarrow> hook = no_duplicate_keys \<Longrightarrow> list_all distinct_deep vs"
  "json_members hook d s = Inr (kvs, r) \<Longrightarrow> hook = no_duplicate_keys \<Longrightarrow>
     list_all (\<lambda>kv. distinct_deep (snd kv)) kvs"
proof (induction hook d s and hook d s and hook d s arbitrary: v r and vs r and kvs r
    rule: json_value_json_elements_json_members.induct)
  case (1 hook depth)
  then show ?case by simp
next
  case (2 hook depth c cs)
  show ?case
  proof (cases "c = 34 \<or> c = 123 \<or> c = 91")
    case True
    from json_value_container [OF 2(3) True] show ?thesis
    proof (elim disjE exE conjE)
      assume "hook [] = Inr v"
      with 2(4) show ?thesis by (auto simp: no_duplicate_keys_def)
    next
      fix d kvs e t assume *: "c = 123" "depth = Suc d" "skip_space cs = e # t" "e \<noteq> 125"
        "json_members hook d (skip_space cs) = Inr (kvs, r)" "hook kvs = Inr v"
      have "list_all (\<lambda>kv. distinct_deep (snd kv)) kvs" by (rule 2(1)) (use * 2(4) in auto)
      with *(6) 2(4) show ?thesis using no_duplicate_keys_distinct by blast
    next
      fix d vs e t assume *: "c = 91" "depth = Suc d" "skip_space cs = e # t" "e \<noteq> 93"
        "json_elements hook d (skip_space cs) = Inr (vs, r)" "v = VList vs"
      have "list_all distinct_deep vs" by (rule 2(2)) (use * 2(4) in auto)
      with *(6) show ?thesis by simp
    qed simp_all
  next
    case False
    with json_value_scalar [OF 2(3)] show ?thesis using scalar_read_distinct by blast
  qed
next
  case (3 hook depth s)
  from 3(3) obtain v r' where v: "json_value hook depth s = Inr (v, r')"
    by (auto simp: rbind_eq_Inr)
  with 3(3) obtain e t where e: "skip_space r' = e # t" by (cases "skip_space r'") (auto simp: rbind_eq_Inr)
  have dv: "distinct_deep v" using 3(1) [OF v 3(4)] .
  show ?case
  proof (cases "e = 93")
    case True
    with 3(3) v e dv show ?thesis by (auto simp del: json_value.simps)
  next
    case False
    with 3(3) v e obtain vs' where "e = 44" "length (skip_space t) < length s" "vs = v # vs'"
      "json_elements hook depth (skip_space t) = Inr (vs', r)"
      by (subst (asm) json_elements.simps) (auto simp: rbind_eq_Inr simp del: json_elements.simps split: if_splits)
    with 3(2) [OF v _ e False] 3(4) dv show ?thesis by fastforce
  qed
next
  case (4 hook depth s)
  from 4(3) obtain body k r1 t v w f x where m: "s = 34 # body" "scan_string body = Inr (k, r1)"
    "skip_space r1 = 58 # t" "length (skip_space t) < length s"
    "json_value hook depth (skip_space t) = Inr (v, w)" "skip_space w = f # x"
    and or: "f = 125 \<and> kvs = [(k, v)] \<and> r = x \<or>
     (\<exists>kvs'. f = 44 \<and> length (skip_space x) < length s \<and>
        json_members hook depth (skip_space x) = Inr (kvs', r) \<and> kvs = (k, v) # kvs')"
    by (rule json_members_Inr)
  have dv: "distinct_deep v" by (rule 4(1)) (use m 4(4) in auto)
  have "list_all (\<lambda>kv. distinct_deep (snd kv)) kvs'" if "f = 44" "length (skip_space x) < length s"
    "json_members hook depth (skip_space x) = Inr (kvs', r)" for kvs'
    using that 4(2) [OF m(1) _ m(2) _ m(3) _ m(5) _ m(6)] m(4) 4(4) by fastforce
  with or dv show ?case by auto
qed

lemma json_loads_distinct:
  "json_loads_bytes no_duplicate_keys depth b = Inr v \<Longrightarrow> distinct_deep v"
  by (auto simp: json_loads_bytes_def json_loads_str_def rbind_eq_Inr split: if_splits
      dest: json_distinct(1))

end
