(* ===== verification/Json_Print.thy ===== *)
theory Json_Print
  imports Json
begin

text \<open>
  Writing JSON. \<open>reads hook depth v s\<close> says that the reader of \<open>json.loads\<close> finds the value \<open>v\<close> in
  the text \<open>s\<close> and stops where it ends; its lemmas give, for each construct, the texts that read as
  it, with any whitespace between the tokens. \<open>json_dumps\<close> is the writer of the standard library on
  documents of text, integers, arrays and objects, in the three layouts the SDK asks for. What it writes reads back as what was written.
\<close>

section \<open>Texts that read as a value\<close>

text \<open>What may follow a value: nothing that could extend a number.\<close>

definition follows :: "ustr \<Rightarrow> bool" where
  "follows r = (case r of [] \<Rightarrow> True | c # _ \<Rightarrow> \<not> is_digit c \<and> c \<noteq> 46 \<and> c \<noteq> 101 \<and> c \<noteq> 69)"

definition reads :: "((ustr \<times> pyval) list \<Rightarrow> pyval res) \<Rightarrow> nat \<Rightarrow> pyval \<Rightarrow> ustr \<Rightarrow> bool" where
  "reads hook depth v s \<longleftrightarrow>
     s \<noteq> [] \<and> \<not> is_json_space (hd s) \<and> hd s \<noteq> 93 \<and> hd s \<noteq> 125 \<and>
     (\<forall>r. follows r \<longrightarrow> json_value hook depth (s @ r) = Inr (v, r))"

abbreviation spaces :: "ustr \<Rightarrow> bool" where
  "spaces ws \<equiv> list_all is_json_space ws"

lemma skip_spaces: "spaces ws \<Longrightarrow> skip_space (ws @ s) = skip_space s"
  by (induction ws) (auto simp: skip_space_def)

lemma skip_space_stop: "\<not> is_json_space c \<Longrightarrow> skip_space (c # s) = c # s"
  by (simp add: skip_space_def)

lemma not_space [simp]: "\<not> is_json_space 34" "\<not> is_json_space 44" "\<not> is_json_space 58"
    "\<not> is_json_space 93" "\<not> is_json_space 125" "\<not> is_json_space 91" "\<not> is_json_space 123"
  by (simp_all add: is_json_space_def)

lemma skip_reads: "reads hook depth v s \<Longrightarrow> skip_space (s @ r) = s @ r"
  by (cases s) (auto simp: reads_def skip_space_stop)

lemma follows_token: "spaces ws \<Longrightarrow> c \<in> {44, 93, 125} \<Longrightarrow> follows (ws @ c # r)"
  by (cases ws) (auto simp: follows_def is_digit_def is_json_space_def)

text \<open>\<open>sep.join(ss)\<close>.\<close>

fun join_with :: "ustr \<Rightarrow> ustr list \<Rightarrow> ustr" where
  "join_with sep [] = []"
| "join_with sep [s] = s"
| "join_with sep (s # t # ss) = s @ sep @ join_with sep (t # ss)"

subsection \<open>Strings\<close>

definition spells :: "nat \<Rightarrow> ustr \<Rightarrow> bool" where
  "spells c e \<longleftrightarrow> (\<forall>s. scan_string (e @ s) = rbind (scan_string s) (\<lambda>(t, r). Inr (c # t, r)))"

lemma scan_spelled:
  "list_all (\<lambda>c. spells c (esc c)) t \<Longrightarrow> scan_string (concat (map esc t) @ 34 # r) = Inr (t, r)"
  by (induction t) (simp_all add: spells_def scan_string.simps [of "34 # r"])

lemma spells_plain: "c \<noteq> 34 \<Longrightarrow> c \<noteq> 92 \<Longrightarrow> 0x20 \<le> c \<Longrightarrow> spells c [c]"
  by (simp add: spells_def scan_string.simps [of "c # _"])

lemma spells_escape: "json_escape e = Some c \<Longrightarrow> spells c [92, e]"
  by (auto simp: spells_def scan_string.simps [of "92 # _"] scan_escape_def json_escape_def split: if_splits)

text \<open>\<open>f"{n:04x}"\<close> below \<open>0x10000\<close>.\<close>

definition hex_04x :: "nat \<Rightarrow> ustr" where
  "hex_04x n = [hex_digit (n div 4096), hex_digit (n div 256 mod 16), hex_digit (n div 16 mod 16), hex_digit (n mod 16)]"

lemma hex4_04x:
  assumes "n < 0x10000"
  shows "hex4 (hex_digit (n div 4096)) (hex_digit (n div 256 mod 16)) (hex_digit (n div 16 mod 16)) (hex_digit (n mod 16)) = Some n"
proof -
  have "n div 4096 < 16" using assms by (simp add: div_less_iff_less_mult)
  moreover have "n div 4096 = n div 256 div 16" "n div 256 = n div 16 div 16"
    by (simp_all flip: div_mult2_eq)
  ultimately have "n div 256 div 16 < 16"
    and "((n div 4096 * 16 + n div 256 mod 16) * 16 + n div 16 mod 16) * 16 + n mod 16 = n"
    by (simp_all only: div_mult_mod_eq)
  with \<open>n div 4096 < 16\<close> show ?thesis by (simp add: hex4_def hex_value_digit)
qed

lemma spells_u: "c < 0x10000 \<Longrightarrow> \<not> is_high c \<Longrightarrow> spells c ([92, 117] @ hex_04x c)"
  by (auto simp: spells_def hex_04x_def scan_string.simps [of "92 # _"] scan_escape_def hex4_04x
      split: list.splits)

lemma spells_surrogates:
  assumes "is_high h" "is_low l" "h < 0x10000" "l < 0x10000"
  shows "spells (join_surrogates h l) ([92, 117] @ hex_04x h @ [92, 117] @ hex_04x l)"
  using assms(1,2) hex4_04x [OF assms(3)] hex4_04x [OF assms(4)]
  by (simp add: spells_def hex_04x_def scan_string.simps [of "92 # _"] scan_escape_def)

lemma spells_pair:
  assumes "0x10000 \<le> c" "c < 0x110000"
  shows "spells c ([92, 117] @ hex_04x (0xD800 + (c - 0x10000) div 0x400) @ [92, 117] @
    hex_04x (0xDC00 + (c - 0x10000) mod 0x400))"
proof -
  let ?h = "0xD800 + (c - 0x10000) div 0x400" and ?l = "0xDC00 + (c - 0x10000) mod 0x400"
  have "(c - 0x10000) div 0x400 < 0x400" using assms by (simp add: div_less_iff_less_mult)
  then have "is_high ?h" "?h < 0x10000" by (simp_all add: is_high_def)
  moreover have "(c - 0x10000) mod 0x400 < 0x400" by simp
  then have "is_low ?l" "?l < 0x10000" by (simp_all add: is_low_def)
  moreover have "(c - 0x10000) div 0x400 * 0x400 + (c - 0x10000) mod 0x400 = c - 0x10000"
    by (rule div_mult_mod_eq)
  then have "join_surrogates ?h ?l = c" using assms by (simp add: join_surrogates_def)
  ultimately show ?thesis using spells_surrogates [of ?h ?l] by (simp only:)
qed

lemma reads_str:
  "list_all (\<lambda>c. spells c (esc c)) t \<Longrightarrow> reads hook depth (VStr t) (34 # concat (map esc t) @ [34])"
  by (simp add: reads_def scan_spelled)

subsection \<open>Integers\<close>

lemma str_nat_hd: "hd (str_nat n) = 48 \<Longrightarrow> n = 0"
proof (induction n rule: str_nat.induct)
  case (1 n)
  show ?case
  proof (cases "n < 10")
    case True
    with 1(2) show ?thesis by (simp add: str_nat.simps [of n])
  next
    case False
    with 1(2) have "hd (str_nat (n div 10)) = 48"
      using str_nat_nonempty by (simp add: str_nat.simps [of n])
    with 1(1) False have "n div 10 = 0" by blast
    with False show ?thesis by simp
  qed
qed

lemma str_int_nonempty: "str_int n \<noteq> []"
  using str_nat_nonempty by (simp add: str_int_def)

lemma str_nat_length: "n < 10 ^ Suc k \<Longrightarrow> length (str_nat n) \<le> Suc k"
proof (induction k arbitrary: n)
  case 0
  then show ?case by (simp add: str_nat.simps [of n])
next
  case (Suc k)
  then have "n div 10 < 10 ^ Suc k" by (simp add: div_less_iff_less_mult)
  from Suc.IH [OF this] show ?case by (simp add: str_nat.simps [of n])
qed

lemma int64_digits: "\<bar>n\<bar> \<le> 2 ^ 64 \<Longrightarrow> length (str_nat (nat \<bar>n\<bar>)) \<le> INT_MAX_STR_DIGITS"
  using str_nat_length [of "nat \<bar>n\<bar>" 19] by (simp add: INT_MAX_STR_DIGITS_def nat_less_iff)

lemma takeWhile_str_nat: "follows r \<Longrightarrow> takeWhile is_digit (str_nat n @ r) = str_nat n"
  using str_nat_digits [of _ n] by (cases r) (auto simp: takeWhile_append2 is_digit_def follows_def)

lemma scan_ends: "follows r \<Longrightarrow> scan_fraction r = ([], r)" "follows r \<Longrightarrow> scan_exponent r = (None, r)"
  by (auto simp: follows_def scan_fraction_def scan_exponent_def Let_def split: list.splits)

lemma scan_nat:
  assumes "follows r" "length (str_nat n) \<le> INT_MAX_STR_DIGITS"
  shows "scan_number (str_nat n @ r) = Inr (VInt (int n), r)"
    and "scan_number (45 # str_nat n @ r) = Inr (VInt (- int n), r)"
proof -
  have ip: "(if str_nat n \<noteq> [] \<and> hd (str_nat n) = 48 then [48] else str_nat n) = str_nat n"
    using str_nat_hd [of n] by (auto simp: str_nat.simps [of 0])
  obtain c cs where c: "str_nat n = c # cs" "c \<noteq> 45"
    using str_nat_nonempty str_nat_digits [of _ n] by (cases "str_nat n") fastforce+
  then have sign: "(case str_nat n @ r of [] \<Rightarrow> False | c # _ \<Rightarrow> c = 45) = False" by simp
  show "scan_number (str_nat n @ r) = Inr (VInt (int n), r)"
    unfolding scan_number_def sign Let_def if_False takeWhile_str_nat [OF assms(1)] ip
    using assms str_nat_nonempty by (simp add: scan_ends nat_of_digits_str)
  have same: "((45::nat) = 45) = True" by simp
  show "scan_number (45 # str_nat n @ r) = Inr (VInt (- int n), r)"
    unfolding scan_number_def Let_def list.case same if_True list.sel takeWhile_str_nat [OF assms(1)] ip
    using assms str_nat_nonempty by (simp add: scan_ends nat_of_digits_str)
qed

lemma startswith_Cons:
  "startswith (c # cs) (d # ds) \<longleftrightarrow> c = d \<and> startswith cs ds"
  by (simp add: startswith_def)

lemma literals:
  "ustr ''null'' = 110 # ustr ''ull''" "ustr ''true'' = 116 # ustr ''rue''" "ustr ''false'' = 102 # ustr ''alse''"
  "ustr ''NaN'' = 78 # ustr ''aN''" "ustr ''Infinity'' = 73 # ustr ''nfinity''"
  "ustr ''-Infinity'' = 45 # 73 # ustr ''nfinity''"
  by (simp_all add: ustr_def)

lemma json_value_number:
  assumes "is_digit c \<or> (c = 45 \<and> cs \<noteq> [] \<and> is_digit (hd cs))"
  shows "json_value hook depth (c # cs) = scan_number (c # cs)"
proof -
  have "c \<notin> {34, 123, 91, 110, 116, 102, 78, 73}" using assms by (auto simp: is_digit_def)
  moreover have "\<not> (c = 45 \<and> startswith cs (73 # ustr ''nfinity''))"
    using assms by (cases cs) (auto simp: is_digit_def startswith_Cons)
  ultimately show ?thesis unfolding json_value.simps literals startswith_Cons by auto
qed

lemma reads_int:
  assumes "length (str_nat (nat \<bar>n\<bar>)) \<le> INT_MAX_STR_DIGITS"
  shows "reads hook depth (VInt n) (str_int n)"
proof -
  let ?m = "nat \<bar>n\<bar>"
  obtain c cs where c: "str_nat ?m = c # cs" "is_digit c"
    using str_nat_nonempty str_nat_digits [of _ ?m] by (cases "str_nat ?m") (fastforce simp: is_digit_def)+
  have neg: "str_int n = 45 # str_nat ?m" if "n < 0" using that by (simp add: str_int_def)
  have pos: "str_int n = str_nat ?m" if "\<not> n < 0" using that by (simp add: str_int_def)
  have "json_value hook depth (str_int n @ r) = Inr (VInt n, r)" if "follows r" for r
  proof (cases "n < 0")
    case True
    with scan_nat(2) [OF that assms] c show ?thesis by (simp add: neg json_value_number del: json_value.simps)
  next
    case False
    with scan_nat(1) [OF that assms] c show ?thesis by (simp add: pos json_value_number del: json_value.simps)
  qed
  moreover have "str_int n \<noteq> []" "\<not> is_json_space (hd (str_int n))" "hd (str_int n) \<noteq> 93" "hd (str_int n) \<noteq> 125"
    using c by (auto simp: str_int_def is_json_space_def is_digit_def split: if_splits)
  ultimately show ?thesis by (simp add: reads_def)
qed

subsection \<open>Containers\<close>

lemma join_with_Cons: "ss \<noteq> [] \<Longrightarrow> join_with sep (s # ss) = s @ sep @ join_with sep ss"
  by (cases ss) simp_all

lemma json_elements_join:
  assumes "list_all2 (reads hook depth) vs ss" "ss \<noteq> []" "spaces a" "spaces b" "spaces e"
  shows "json_elements hook depth (join_with (a @ 44 # b) ss @ e @ 93 # r) = Inr (vs, r)"
  using assms(1,2)
proof (induction rule: list_all2_induct)
  case (Cons v vs s ss)
  have rd: "json_value hook depth (s @ t) = Inr (v, t)" if "follows t" for t
    using Cons(1) that by (simp add: reads_def)
  show ?case
  proof (cases "ss = []")
    case True
    with Cons(2) assms(5) show ?thesis
      by (subst json_elements.simps)
        (simp add: rd follows_token skip_spaces skip_space_stop del: json_elements.simps json_value.simps)
  next
    case False
    let ?t = "join_with (a @ 44 # b) ss @ e @ 93 # r"
    from False Cons(2) obtain v' s' where "reads hook depth v' s'" "?t = s' @ drop (length s') ?t"
      by (cases ss; cases "tl ss") (auto simp: list_all2_Cons2)
    then have t: "skip_space (b @ ?t) = ?t" using assms(4) skip_reads by (metis skip_spaces)
    from False have "join_with (a @ 44 # b) (s # ss) @ e @ 93 # r = s @ a @ 44 # b @ ?t"
      by (simp add: join_with_Cons)
    moreover have "json_elements hook depth (s @ a @ 44 # b @ ?t) = Inr (v # vs, r)"
      using Cons.IH False assms(3) t
      by (subst json_elements.simps)
        (simp add: rd follows_token skip_spaces skip_space_stop t del: json_elements.simps json_value.simps)
    ultimately show ?thesis by simp
  qed
qed simp

lemma json_members_join:
  assumes "list_all2 (\<lambda>(k, v) s. \<exists>body t. s = 34 # body @ 34 # p @ 58 # q @ t \<and> (\<forall>r. scan_string (body @ 34 # r) = Inr (k, r)) \<and>
      reads hook depth v t) kvs ss" "ss \<noteq> []" "spaces a" "spaces b" "spaces e" "spaces p" "spaces q"
  shows "json_members hook depth (join_with (a @ 44 # b) ss @ e @ 125 # r) = Inr (kvs, r)"
  using assms(1,2)
proof (induction rule: list_all2_induct)
  case (Cons kv kvs s ss)
  obtain k v where kv: "kv = (k, v)" by (cases kv)
  with Cons(1) obtain body t where s: "s = 34 # body @ 34 # p @ 58 # q @ t" and v: "reads hook depth v t"
    and k: "\<And>r. scan_string (body @ 34 # r) = Inr (k, r)" by blast
  have rd: "json_value hook depth (t @ u) = Inr (v, u)" if "follows u" for u
    using v that by (simp add: reads_def)
  show ?case
  proof (cases "ss = []")
    case True
    with Cons(2) assms(5-7) show ?thesis unfolding s kv
      by (subst json_members.simps)
        (simp add: rd k follows_token skip_spaces skip_space_stop skip_reads [OF v] del: json_members.simps json_value.simps)
  next
    case False
    let ?t = "join_with (a @ 44 # b) ss @ e @ 125 # r"
    from False Cons(2) obtain z where "?t = 34 # z" by (cases ss; cases "tl ss") (auto simp: list_all2_Cons2)
    then have t: "skip_space (b @ ?t) = ?t" using assms(4) by (simp add: skip_spaces skip_space_stop)
    from False have "join_with (a @ 44 # b) (s # ss) @ e @ 125 # r = s @ a @ 44 # b @ ?t"
      by (simp add: join_with_Cons)
    moreover have "json_members hook depth (s @ a @ 44 # b @ ?t) = Inr (kv # kvs, r)"
      using Cons.IH False assms(3,6,7) t unfolding s kv
      by (subst json_members.simps)
        (simp add: rd k follows_token skip_spaces skip_space_stop skip_reads [OF v] t del: json_members.simps json_value.simps)
    ultimately show ?thesis by simp
  qed
qed simp

lemma join_reads:
  assumes "list_all2 (reads hook depth) vs ss" "ss \<noteq> []"
  shows "skip_space (join_with sep ss @ r) = join_with sep ss @ r" "join_with sep ss \<noteq> []"
    "hd (join_with sep ss) \<noteq> 93"
proof -
  from assms obtain v s vs' ss' where ss: "ss = s # ss'" and s: "reads hook depth v s"
    by (auto simp: list_all2_Cons2 neq_Nil_conv)
  then obtain u where "join_with sep ss = s @ u" by (cases ss') auto
  with s skip_reads [OF s] show "skip_space (join_with sep ss @ r) = join_with sep ss @ r"
    "join_with sep ss \<noteq> []" "hd (join_with sep ss) \<noteq> 93" by (simp_all add: reads_def)
qed

lemma json_value_list:
  "skip_space cs = c # z \<Longrightarrow> c \<noteq> 93 \<Longrightarrow>
     json_value hook (Suc depth) (91 # cs) = rbind (json_elements hook depth (c # z)) (\<lambda>(vs, t). Inr (VList vs, t))"
  by (simp del: json_elements.simps)

lemma json_value_dict:
  "skip_space cs = c # z \<Longrightarrow> c \<noteq> 125 \<Longrightarrow>
     json_value hook (Suc depth) (123 # cs) =
       rbind (json_members hook depth (c # z)) (\<lambda>(kvs, t). rbind (hook kvs) (\<lambda>v. Inr (v, t)))"
  by (simp del: json_members.simps)

lemma reads_list:
  assumes "list_all2 (reads hook depth) vs ss" "ss \<noteq> []" "spaces a" "spaces b" "spaces e" "spaces w"
  shows "reads hook (Suc depth) (VList vs) (91 # w @ join_with (a @ 44 # b) ss @ e @ [93])"
proof -
  let ?j = "join_with (a @ 44 # b) ss"
  obtain c y where j: "?j = c # y" "c \<noteq> 93"
    using join_reads(2,3) [OF assms(1,2), of "a @ 44 # b"] by (cases ?j) auto
  have "json_value hook (Suc depth) (91 # w @ ?j @ e @ 93 # r) = Inr (VList vs, r)" for r
  proof -
    have "skip_space (w @ ?j @ e @ 93 # r) = c # y @ e @ 93 # r"
      using join_reads(1) [OF assms(1,2), of "a @ 44 # b" "e @ 93 # r"]
      unfolding skip_spaces [OF assms(6)] j append_Cons .
    from json_value_list [OF this j(2)] json_elements_join [OF assms(1-5), of r] show ?thesis
      by (simp only: j append_Cons rbind.simps prod.case)
  qed
  then show ?thesis by (simp add: reads_def is_json_space_def del: json_value.simps)
qed

lemma reads_empty: "reads hook (Suc depth) (VList []) [91, 93]"
  by (simp add: reads_def skip_space_stop)

lemma reads_dict:
  assumes "list_all2 (\<lambda>(k, v) s. \<exists>body t. s = 34 # body @ 34 # p @ 58 # q @ t \<and> (\<forall>r. scan_string (body @ 34 # r) = Inr (k, r)) \<and>
      reads hook depth v t) kvs ss" "ss \<noteq> []" "spaces a" "spaces b" "spaces e" "spaces p" "spaces q" "spaces w"
    "hook kvs = Inr d"
  shows "reads hook (Suc depth) d (123 # w @ join_with (a @ 44 # b) ss @ e @ [125])"
proof -
  let ?t = "\<lambda>r. join_with (a @ 44 # b) ss @ e @ 125 # r"
  have "json_value hook (Suc depth) (123 # w @ ?t r) = Inr (d, r)" for r
  proof -
    from assms(1,2) obtain z where z: "?t r = 34 # z" by (cases ss; cases "tl ss") (auto simp: list_all2_Cons2)
    then have "skip_space (w @ ?t r) = 34 # z" using assms(8) by (simp add: skip_spaces skip_space_stop)
    from json_value_dict [OF this] json_members_join [OF assms(1-7), of r] assms(9) show ?thesis
      unfolding z by (simp del: json_members.simps json_value.simps)
  qed
  then show ?thesis by (simp add: reads_def del: json_value.simps)
qed

lemma reads_empty_dict: "hook [] = Inr d \<Longrightarrow> reads hook (Suc depth) d [123, 125]"
  by (simp add: reads_def skip_space_stop)

lemma reads_loads:
  assumes "reads hook depth v s" "spaces w" "hd s \<noteq> 0xFEFF"
  shows "json_loads_str hook depth (s @ w) = Inr v"
proof -
  have "follows w" using assms(2) by (cases w) (auto simp: follows_def is_json_space_def is_digit_def)
  moreover have "skip_space w = []" using skip_spaces [OF assms(2), of "[]"] by (simp add: skip_space_def)
  moreover have "\<not> startswith (s @ w) [0xFEFF]" using assms(1,3) by (cases s) (auto simp: reads_def startswith_def)
  ultimately show ?thesis using assms(1) skip_reads [OF assms(1)]
    by (simp add: json_loads_str_def reads_def del: json_value.simps)
qed

section \<open>The writer\<close>

datatype json_style = Compact | Spaced | Indent nat

text \<open>\<open>json.dumps(doc)\<close> is \<open>Spaced\<close>; \<open>separators=(",", ":")\<close> is \<open>Compact\<close>; \<open>indent=n\<close> is \<open>Indent n\<close>.\<close>

definition newline_indent :: "json_style \<Rightarrow> nat \<Rightarrow> ustr" where
  "newline_indent style level = (case style of Indent n \<Rightarrow> 10 # replicate (n * level) 32 | _ \<Rightarrow> [])"

definition after_comma :: "json_style \<Rightarrow> nat \<Rightarrow> ustr" where
  "after_comma style level = (case style of Compact \<Rightarrow> [] | Spaced \<Rightarrow> [32] | Indent _ \<Rightarrow> newline_indent style level)"

definition after_colon :: "json_style \<Rightarrow> ustr" where
  "after_colon style = (case style of Compact \<Rightarrow> [] | _ \<Rightarrow> [32])"

text \<open>\<open>ensure_ascii\<close>: everything outside space to tilde, the quote and the backslash are escaped;
  a code point beyond the basic plane becomes two escapes.\<close>

definition escape_ascii :: "nat \<Rightarrow> ustr" where
  "escape_ascii c =
     (if c = 34 \<or> c = 92 then [92, c]
      else if 0x20 \<le> c \<and> c \<le> 0x7E then [c]
      else if c = 10 then [92, 110] else if c = 13 then [92, 114] else if c = 9 then [92, 116]
      else if c = 12 then [92, 102] else if c = 8 then [92, 98]
      else if c < 0x10000 then [92, 117] @ hex_04x c
      else [92, 117] @ hex_04x (0xD800 + (c - 0x10000) div 0x400) @
           [92, 117] @ hex_04x (0xDC00 + (c - 0x10000) mod 0x400))"

definition json_str :: "ustr \<Rightarrow> ustr" where
  "json_str t = 34 # concat (map escape_ascii t) @ [34]"

datatype jdoc = JInt int | JStr ustr | JArr "jdoc list" | JObj "(ustr \<times> jdoc) list"

fun json_dumps :: "json_style \<Rightarrow> nat \<Rightarrow> jdoc \<Rightarrow> ustr" where
  "json_dumps style level (JInt n) = str_int n"
| "json_dumps style level (JStr t) = json_str t"
| "json_dumps style level (JArr vs) =
     (if vs = [] then [91, 93]
      else 91 # newline_indent style (Suc level)
             @ join_with (44 # after_comma style (Suc level)) (map (json_dumps style (Suc level)) vs)
             @ newline_indent style level @ [93])"
| "json_dumps style level (JObj kvs) =
     (if kvs = [] then [123, 125]
      else 123 # newline_indent style (Suc level)
             @ join_with (44 # after_comma style (Suc level))
                 (map (\<lambda>(k, v). json_str k @ 58 # after_colon style @ json_dumps style (Suc level) v) kvs)
             @ newline_indent style level @ [125])"

fun jval :: "jdoc \<Rightarrow> pyval" where
  "jval (JInt n) = VInt n"
| "jval (JStr t) = VStr t"
| "jval (JArr vs) = VList (map jval vs)"
| "jval (JObj kvs) = VDict (map (\<lambda>(k, v). (VStr k, jval v)) kvs)"

text \<open>Documents that survive the trip: text without surrogates, integers of at most 4300 digits,
  distinct keys.\<close>

definition proper_text :: "ustr \<Rightarrow> bool" where
  "proper_text t = list_all (\<lambda>c. c < 0x110000 \<and> \<not> is_high c \<and> \<not> is_low c) t"

fun proper_doc :: "jdoc \<Rightarrow> bool" where
  "proper_doc (JInt n) = (length (str_nat (nat \<bar>n\<bar>)) \<le> INT_MAX_STR_DIGITS)"
| "proper_doc (JStr t) = proper_text t"
| "proper_doc (JArr vs) = (\<forall>v \<in> set vs. proper_doc v)"
| "proper_doc (JObj kvs) =
     (distinct (map fst kvs) \<and> (\<forall>(k, v) \<in> set kvs. proper_text k \<and> proper_doc v))"

fun doc_depth :: "jdoc \<Rightarrow> nat" where
  "doc_depth (JArr vs) = Suc (Max (insert 0 (doc_depth ` set vs)))"
| "doc_depth (JObj kvs) = Suc (Max (insert 0 ((\<lambda>(k, v). doc_depth v) ` set kvs)))"
| "doc_depth d = 0"

lemma escape_spells: "c < 0x110000 \<Longrightarrow> \<not> is_high c \<Longrightarrow> spells c (escape_ascii c)"
proof -
  assume c: "c < 0x110000" "\<not> is_high c"
  consider "c \<in> {34, 92, 10, 13, 9, 12, 8}" | "c \<notin> {34, 92}" "0x20 \<le> c" "c \<le> 0x7E"
    | "c \<notin> {34, 92, 10, 13, 9, 12, 8}" "\<not> (0x20 \<le> c \<and> c \<le> 0x7E)" "c < 0x10000" | "0x10000 \<le> c" by fastforce
  then show ?thesis
  proof cases
    case 1
    then show ?thesis by (auto simp: escape_ascii_def json_escape_def intro: spells_escape)
  next
    case 2
    then show ?thesis by (simp add: escape_ascii_def spells_plain)
  next
    case 3
    then have "escape_ascii c = [92, 117] @ hex_04x c" unfolding escape_ascii_def by auto
    with 3 c show ?thesis using spells_u by simp
  next
    case 4
    then have "escape_ascii c = [92, 117] @ hex_04x (0xD800 + (c - 0x10000) div 0x400) @
      [92, 117] @ hex_04x (0xDC00 + (c - 0x10000) mod 0x400)" unfolding escape_ascii_def by auto
    with 4 c show ?thesis using spells_pair by simp
  qed
qed

lemma proper_ascii: "\<forall>c \<in> set t. c < 0x80 \<Longrightarrow> proper_text t"
  by (auto simp: proper_text_def list_all_iff is_high_def is_low_def)

lemma proper_text_spells: "proper_text t \<Longrightarrow> list_all (\<lambda>c. spells c (escape_ascii c)) t"
  unfolding proper_text_def list_all_iff using escape_spells by blast

lemma json_str_scan: "proper_text t \<Longrightarrow> scan_string (concat (map escape_ascii t) @ 34 # r) = Inr (t, r)"
  by (rule scan_spelled) (rule proper_text_spells)

lemma spaces_layout [simp]: "spaces (newline_indent style level)" "spaces (after_comma style level)" "spaces (after_colon style)"
  by (auto simp: newline_indent_def after_comma_def after_colon_def is_json_space_def list_all_iff split: json_style.split)

section \<open>What is written reads back\<close>

text \<open>The contract of an \<open>object_pairs_hook\<close> the SDK reads with: distinct keys give the dict in order.\<close>

locale dict_hook =
  fixes hook :: "(ustr \<times> pyval) list \<Rightarrow> pyval res"
  assumes hook_distinct: "distinct (map fst kvs) \<Longrightarrow> hook kvs = Inr (VDict (map (\<lambda>(k, v). (VStr k, v)) kvs))"
begin

lemma dumps_reads:
  "proper_doc d \<Longrightarrow> doc_depth d \<le> depth \<Longrightarrow> reads hook depth (jval d) (json_dumps style level d)"
proof (induction style level d arbitrary: depth rule: json_dumps.induct)
  case (1 style level n)
  then show ?case by (simp add: reads_int)
next
  case (2 style level t)
  then show ?case unfolding json_dumps.simps jval.simps json_str_def
    by (intro reads_str proper_text_spells) simp
next
  case (3 style level vs)
  obtain d where d: "depth = Suc d" using 3(3) by (cases depth) auto
  show ?case
  proof (cases "vs = []")
    case True
    then show ?thesis by (simp add: d reads_empty)
  next
    case False
    have "list_all2 (reads hook d) (map jval vs) (map (json_dumps style (Suc level)) vs)"
      unfolding list_all2_map1 list_all2_map2
      by (rule list.rel_refl_strong) (use 3 d False in auto)
    from reads_list [OF this, of "[]" "after_comma style (Suc level)" "newline_indent style level"
        "newline_indent style (Suc level)"] False
    show ?thesis by (simp add: d)
  qed
next
  case (4 style level kvs)
  note 3 = 4
  obtain d where d: "depth = Suc d" using 3(3) by (cases depth) auto
  let ?p = "\<lambda>(k, v). json_str k @ 58 # after_colon style @ json_dumps style (Suc level) v"
  let ?vs = "map (\<lambda>(k, v). (k, jval v)) kvs"
  have h: "hook ?vs = Inr (jval (JObj kvs))"
    using hook_distinct [of ?vs] 3(2) by (simp add: comp_def case_prod_beta)
  show ?case
  proof (cases "kvs = []")
    case True
    with h show ?thesis by (simp add: d reads_empty_dict)
  next
    case False
    have fits: "doc_depth v \<le> d" if "(k, v) \<in> set kvs" for k v
      using 3(3) d that by auto
    have "list_all2 (\<lambda>(k, v) s. \<exists>body t. s = 34 # body @ 34 # [] @ 58 # after_colon style @ t \<and>
        (\<forall>r. scan_string (body @ 34 # r) = Inr (k, r)) \<and> reads hook d v t) ?vs (map ?p kvs)"
      unfolding list_all2_map1 list_all2_map2
    proof (rule list.rel_refl_strong, clarsimp)
      fix k v assume kv: "(k, v) \<in> set kvs"
      with 3(2) have "proper_text k" "proper_doc v" by auto
      then have "reads hook d (jval v) (json_dumps style (Suc level) v)"
        using 3(1) [OF False kv refl, of d] fits [OF kv] by blast
      with json_str_scan [OF \<open>proper_text k\<close>]
      show "\<exists>body t. json_str k @ 58 # after_colon style @ json_dumps style (Suc level) v =
          34 # body @ 34 # 58 # after_colon style @ t \<and>
          (\<forall>r. scan_string (body @ 34 # r) = Inr (k, r)) \<and> reads hook d (jval v) t"
        unfolding json_str_def
        by (intro exI [of _ "concat (map escape_ascii k)"] exI [of _ "json_dumps style (Suc level) v"]) simp
    qed
    from reads_dict [OF this _ _ _ _ _ _ _ h, of "[]" "after_comma style (Suc level)" "newline_indent style level"
        "newline_indent style (Suc level)"] False
    show ?thesis by (simp add: d)
  qed
qed

lemma dumps_loads:
  assumes "proper_doc d" "doc_depth d \<le> depth" "spaces w"
  shows "json_loads_str hook depth (json_dumps style level d @ w) = Inr (jval d)"
proof -
  have "hd (json_dumps style level d) \<noteq> 0xFEFF"
  proof (cases d)
    case (JInt n)
    with str_int_chars [of "hd (str_int n)" n] str_int_nonempty [of n] show ?thesis by auto
  qed (simp_all add: json_str_def)
  with reads_loads [OF dumps_reads [OF assms(1,2)] assms(3)] show ?thesis by blast
qed

end

lemma no_duplicate_pairs_append:
  "distinct (map fst kvs) \<Longrightarrow> \<forall>k \<in> set (map fst kvs). VStr k \<notin> fst ` set out \<Longrightarrow>
     no_duplicate_pairs out kvs = Inr (out @ map (\<lambda>(k, v). (VStr k, v)) kvs)"
proof (induction kvs arbitrary: out)
  case (Cons kv kvs)
  obtain k v where kv: "kv = (k, v)" by (cases kv)
  have "distinct (map fst kvs)" "\<forall>j \<in> set (map fst kvs). VStr j \<notin> fst ` set (out @ [(VStr k, v)])"
    using Cons.prems kv by auto
  from Cons.IH [OF this] Cons.prems(2) kv show ?case by (simp)
qed simp

interpretation strict_hook: dict_hook no_duplicate_keys
  by unfold_locales (simp add: no_duplicate_keys_def no_duplicate_pairs_append)

lemma dict_put_new: "k \<notin> fst ` set d \<Longrightarrow> dict_put d k v = d @ [(k, v)]"
  by (induction d k v rule: dict_put.induct) auto

lemma foldl_dict_put:
  "distinct (map fst kvs) \<Longrightarrow> \<forall>k \<in> set (map fst kvs). VStr k \<notin> fst ` set out \<Longrightarrow>
     foldl (\<lambda>d kv. dict_put d (VStr (fst kv)) (snd kv)) out kvs = out @ map (\<lambda>(k, v). (VStr k, v)) kvs"
proof (induction kvs arbitrary: out)
  case (Cons kv kvs)
  obtain k v where kv: "kv = (k, v)" by (cases kv)
  have "distinct (map fst kvs)" "\<forall>j \<in> set (map fst kvs). VStr j \<notin> fst ` set (out @ [(VStr k, v)])"
    using Cons.prems kv by auto
  from Cons.IH [OF this] Cons.prems(2) kv show ?case by (simp add: dict_put_new)
qed simp

interpretation plain_hook: dict_hook plain_dict
  by unfold_locales (simp add: plain_dict_def foldl_dict_put)

section \<open>The bytes of a document\<close>

definition visible :: "nat \<Rightarrow> bool" where
  "visible c \<longleftrightarrow> 0 < c \<and> c < 0x80"

lemma visible_code:
  "visible 44" "visible 58" "visible 91" "visible 93" "visible 123" "visible 125"
  by (simp_all add: visible_def)

lemma hex_digit_visible: "v < 16 \<Longrightarrow> visible (hex_digit v)"
  by (auto simp: hex_digit_def visible_def)

lemma hex_04x_visible: "n < 0x10000 \<Longrightarrow> c \<in> set (hex_04x n) \<Longrightarrow> visible c"
proof -
  assume "n < 0x10000" "c \<in> set (hex_04x n)"
  moreover from this have "n div 4096 < 16" by (simp add: div_less_iff_less_mult)
  ultimately show ?thesis by (auto simp: hex_04x_def intro: hex_digit_visible)
qed

lemma escape_ascii_visible:
  assumes "c < 0x110000" "x \<in> set (escape_ascii c)"
  shows "visible x"
proof -
  have "(c - 0x10000) div 0x400 < 0x400" using assms(1) by (simp add: div_less_iff_less_mult)
  then have "0xD800 + (c - 0x10000) div 0x400 < 0x10000" "0xDC00 + (c - 0x10000) mod 0x400 < 0x10000"
    using mod_less_divisor [of "0x400" "c - 0x10000"] by simp_all
  note pair = hex_04x_visible [OF this(1), of x] hex_04x_visible [OF this(2), of x]
  have small: "visible 34" "visible 92" "visible 110" "visible 114" "visible 116" "visible 102" "visible 98"
    "visible 117" "0x20 \<le> c \<Longrightarrow> c \<le> 0x7E \<Longrightarrow> visible c" by (simp_all add: visible_def)
  show ?thesis using assms(2) pair small hex_04x_visible [of c x]
    unfolding escape_ascii_def by (simp split: if_splits) blast+
qed

lemma json_str_visible: "proper_text t \<Longrightarrow> list_all visible (json_str t)"
  using escape_ascii_visible by (auto simp: json_str_def list_all_iff proper_text_def visible_def)

lemma join_with_all: "list_all P sep \<Longrightarrow> \<forall>s \<in> set ss. list_all P s \<Longrightarrow> list_all P (join_with sep ss)"
  by (induction sep ss rule: join_with.induct) auto

lemma layout_visible [simp]: "list_all visible (newline_indent style level)" "list_all visible (after_comma style level)"
    "list_all visible (after_colon style)"
  by (auto simp: newline_indent_def after_comma_def after_colon_def visible_def list_all_iff split: json_style.split)

lemma dumps_visible: "proper_doc d \<Longrightarrow> list_all visible (json_dumps style level d)"
proof (induction style level d rule: json_dumps.induct)
  case (1 style level n)
  then show ?case using str_int_chars [of _ n] by (fastforce simp: list_all_iff visible_def)
next
  case (2 style level t)
  then show ?case by (simp add: json_str_visible)
next
  case (3 style level vs)
  have "list_all visible (join_with (44 # after_comma style (Suc level)) (map (json_dumps style (Suc level)) vs))"
    if "vs \<noteq> []" by (rule join_with_all) (use 3 that in \<open>simp_all add: visible_code\<close>)
  then show ?case by (simp add: visible_code)
next
  case (4 style level kvs)
  have "list_all visible (join_with (44 # after_comma style (Suc level))
      (map (\<lambda>(k, v). json_str k @ 58 # after_colon style @ json_dumps style (Suc level) v) kvs))"
    if "kvs \<noteq> []" by (rule join_with_all) (use 4 that in \<open>fastforce simp: visible_code json_str_visible\<close>)+
  then show ?case by (simp add: visible_code)
qed

lemma visible_byte:
  assumes "visible c"
  shows "unat (of_nat c :: byte) = c" "(of_nat c :: byte) \<noteq> 0"
  using assms by (auto simp: visible_def unat_byte_of_nat byte_nonzero)

lemma utf8_decode_sp_visible: "list_all visible s \<Longrightarrow> utf8_decode_sp (map of_nat s) = Inr s"
proof (induction s)
  case (Cons c s)
  have n: "unat (of_nat c :: byte) = c" "c < 0x80" using Cons.prems visible_byte by (auto simp: visible_def)
  have ne: "(of_nat c :: byte) \<noteq> 0xED"
  proof
    assume "(of_nat c :: byte) = 0xED"
    then have "unat (of_nat c :: byte) = 237" by (simp only:) simp
    with n show False by simp
  qed
  have "utf8_step_sp (of_nat c # map of_nat s) = Some (c, map of_nat s)"
    using n ne by (cases "of_nat c # map of_nat s :: bytes" rule: utf8_step_sp.cases) auto
  with Cons show ?case by (subst utf8_decode_sp.simps) simp
qed (simp add: utf8_decode_sp.simps)

lemma visible_bytes:
  assumes "list_all visible s" "x \<in> set (map of_nat s :: bytes)"
  shows "x \<noteq> 0" "unat x < 0x80"
proof -
  from assms(2) obtain c where c: "c \<in> set s" "x = of_nat c" by auto
  with assms(1) have "visible c" by (auto simp: list_all_iff)
  with c visible_byte [of c] show "x \<noteq> 0" "unat x < 0x80" by (auto simp: visible_def)
qed

lemma detect_visible:
  assumes "list_all visible s"
  shows "detect_encoding (map of_nat s) = Utf8"
proof -
  let ?b = "map of_nat s :: bytes"
  have first: "x \<noteq> 0 \<and> unat x < 0x80" if "startswith ?b (x # y)" for x y
    using that visible_bytes [OF assms, of x] by (cases ?b) (auto simp: startswith_def)
  have "\<not> startswith ?b (x # y)" if "x \<in> {0x00, 0xFF, 0xFE, 0xEF}" for x y
    using first [of x y] that by auto
  moreover have nz: "?b ! i \<noteq> 0" if "i < length s" for i
    using visible_bytes(1) [OF assms, of "?b ! i"] that nth_mem [of i ?b] by simp
  moreover have "?b ! 0 \<noteq> 0" "?b ! 1 \<noteq> 0" if "2 \<le> length s"
    by (rule nz, use that in linarith)+
  ultimately show ?thesis by (simp add: detect_encoding_def del: nth_map)
qed

lemma json_loads_visible:
  "list_all visible s \<Longrightarrow> json_loads_bytes hook depth (map of_nat s) = json_loads_str hook depth s"
  by (simp add: json_loads_bytes_def json_decode_bytes_def detect_visible utf8_decode_sp_visible)

text \<open>The bytes of \<open>json.dumps(doc).encode()\<close>, also with whitespace after them.\<close>

definition dumps_bytes :: "json_style \<Rightarrow> jdoc \<Rightarrow> bytes" where
  "dumps_bytes style d = map of_nat (json_dumps style 0 d)"

lemma dumps_encode: "proper_doc d \<Longrightarrow> ascii_encode (json_dumps style 0 d) = Inr (dumps_bytes style d)"
  using dumps_visible [of d style 0] by (auto simp: ascii_encode_def dumps_bytes_def list_all_iff visible_def)

lemma dumps_bytes_strict:
  "proper_doc d \<Longrightarrow> doc_depth d \<le> depth \<Longrightarrow> json_loads_bytes no_duplicate_keys depth (dumps_bytes style d) = Inr (jval d)"
  using strict_hook.dumps_loads [of d depth "[]"] by (simp add: dumps_bytes_def json_loads_visible dumps_visible)

lemma dumps_bytes_plain:
  "proper_doc d \<Longrightarrow> doc_depth d \<le> depth \<Longrightarrow> json_loads_bytes plain_dict depth (dumps_bytes style d) = Inr (jval d)"
  using plain_hook.dumps_loads [of d depth "[]"] by (simp add: dumps_bytes_def json_loads_visible dumps_visible)

end
