(* ===== verification/Tct.thy ===== *)
theory Tct
  imports Json_Print
begin

text \<open>
  The verifier of a sealed commitment's token (\<open>verify_tct\<close> of \<open>crypto.py\<close>): three base64url parts,
  an Ed25519 signature over the first two under the key in the issuer's AID, header and payload
  parsed with duplicate keys refused, and every claim compared. Whatever goes wrong is the answer
  \<open>False\<close>. The lemmas show what an accepted token says, that one token vouches for one commitment,
  that acceptance ends at \<open>exp\<close> and never returns, and that an honestly issued token is accepted.
  The interpreter's recursion limit and the clock are parameters.
\<close>

section \<open>Definitions\<close>

definition COMMITMENT_EXT_KEY :: ustr where
  "COMMITMENT_EXT_KEY = ustr ''com.zer07labs.seam''"

definition ATTESTATION_GRANT :: ustr where
  "ATTESTATION_GRANT = ustr ''aitp.attestation''"

text \<open>\<open>s.split(".")\<close>: the pieces between dots; always at least one.\<close>

fun split_dot :: "ustr \<Rightarrow> ustr list" where
  "split_dot [] = [[]]"
| "split_dot (c # cs) = (if c = 46 then [] # split_dot cs else (c # hd (split_dot cs)) # tl (split_dot cs))"

text \<open>\<open>-(2**63) <= x < 2**63\<close> for a double: 1086 is the biased exponent of \<open>2 ** 63\<close>, and of the doubles
  with that exponent only \<open>-(2**63)\<close> itself is in range. A NaN and an infinity are not.\<close>

definition f64_in_int64 :: "f64 \<Rightarrow> bool" where
  "f64_in_int64 x \<longleftrightarrow> f64_exponent x < 1086 \<or> (f64_exponent x = 1086 \<and> f64_negative x \<and> f64_fraction x = 0)"

text \<open>The \<open>exp\<close> claim as whole seconds; \<open>None\<close> where the verifier returns \<open>False\<close>.\<close>

definition exp_seconds :: "pyval \<Rightarrow> int option" where
  "exp_seconds v =
     (case v of
        VInt n \<Rightarrow> if - (2 ^ 63) \<le> n \<and> n < 2 ^ 63 then Some n else None
      | VFloat x \<Rightarrow> if f64_in_int64 x then Some (f64_trunc x) else None
      | _ \<Rightarrow> None)"

text \<open>The statement under \<open>ext\<close>: exactly one key, holding a dict with exactly the two keys. The
  answer is the digest it states.\<close>

definition ext_statement :: "pyval \<Rightarrow> pyval option" where
  "ext_statement ext =
     (case ext of
        VDict d \<Rightarrow>
          (if map fst d \<noteq> [VStr COMMITMENT_EXT_KEY] then None
           else case map_of d (VStr COMMITMENT_EXT_KEY) of
                  Some (VDict stmt) \<Rightarrow>
                    (if fst ` set stmt \<noteq> {VStr (ustr ''type''), VStr (ustr ''commitment_digest'')} then None
                     else if map_of stmt (VStr (ustr ''type'')) \<noteq> Some (VStr (ustr ''seam:commitment'')) then None
                     else map_of stmt (VStr (ustr ''commitment_digest'')))
                | _ \<Rightarrow> None)
      | _ \<Rightarrow> None)"

text \<open>The checks of the parsed header and payload. Each comparison is with a str or with a list of one
  str, where Python's equality and that of the model agree.\<close>

definition check_claims :: "pyval \<Rightarrow> pyval \<Rightarrow> ustr \<Rightarrow> int \<Rightarrow> pyval \<Rightarrow> bool res" where
  "check_claims header payload issuer_aid now commitment =
     rbind (py_get header (ustr ''alg'')) (\<lambda>alg.
     if alg \<noteq> VStr (ustr ''EdDSA'') then Inr False else
     rbind (py_get header (ustr ''typ'')) (\<lambda>typ.
     if typ \<noteq> VStr (ustr ''aitp-tct+jwt'') then Inr False else
     rbind (py_get payload (ustr ''iss'')) (\<lambda>iss.
     rbind (py_get payload (ustr ''sub'')) (\<lambda>sub.
     rbind (py_get payload (ustr ''aud'')) (\<lambda>aud.
     if \<not> (iss = sub \<and> sub = aud \<and> aud = VStr issuer_aid) then Inr False else
     rbind (py_get payload (ustr ''exp'')) (\<lambda>expv.
     case exp_seconds expv of
       None \<Rightarrow> Inr False
     | Some t \<Rightarrow>
         if now \<ge> t then Inr False else
         rbind (py_get payload (ustr ''grants'')) (\<lambda>grants.
         if grants \<noteq> VList [VStr ATTESTATION_GRANT] then Inr False else
         rbind (py_get payload (ustr ''ext'')) (\<lambda>ext.
         case ext_statement ext of
           None \<Rightarrow> Inr False
         | Some stated \<Rightarrow>
             rbind (seam_commitment_digest commitment) (\<lambda>h. Inr (stated = VStr h))))))))))"

text \<open>The key of an AID, as the two verifiers recover it.\<close>

definition issuer_key :: "ed25519 \<Rightarrow> ustr \<Rightarrow> bytes res" where
  "issuer_key ed aid = rbind (aid_to_pubkey aid) (from_public_bytes ed)"

definition verify_tct_body ::
    "ed25519 \<Rightarrow> nat \<Rightarrow> ustr \<Rightarrow> ustr \<Rightarrow> pyval \<Rightarrow> int \<Rightarrow> bool res" where
  "verify_tct_body ed depth issuer_aid tct_jws commitment now =
     (case split_dot tct_jws of
        [header_b64, payload_b64, sig_b64] \<Rightarrow>
          rbind (issuer_key ed issuer_aid) (\<lambda>key.
          rbind (b64url_decode sig_b64) (\<lambda>sig.
          rbind (ascii_encode (header_b64 @ [46] @ payload_b64)) (\<lambda>signed.
          rbind (ed_verify ed key sig signed) (\<lambda>_.
          rbind (rbind (b64url_decode header_b64) (json_loads_bytes no_duplicate_keys depth)) (\<lambda>header.
          rbind (rbind (b64url_decode payload_b64) (json_loads_bytes no_duplicate_keys depth)) (\<lambda>payload.
          check_claims header payload issuer_aid now commitment))))))
      | _ \<Rightarrow> Inr False)"

text \<open>\<open>except Exception: return False\<close>. \<open>clock\<close> is \<open>int(time.time())\<close>, read when \<open>now_s\<close> is absent.\<close>

definition verify_tct ::
    "ed25519 \<Rightarrow> nat \<Rightarrow> int \<Rightarrow> ustr \<Rightarrow> ustr \<Rightarrow> pyval \<Rightarrow> int option \<Rightarrow> bool" where
  "verify_tct ed depth clock issuer_aid tct_jws commitment now_s =
     (case verify_tct_body ed depth issuer_aid tct_jws commitment
             (case now_s of None \<Rightarrow> clock | Some n \<Rightarrow> n) of
        Inl _ \<Rightarrow> False
      | Inr ok \<Rightarrow> ok)"

section \<open>The \<open>exp\<close> claim\<close>

lemma f64_units_int64:
  assumes "f64_exponent x < 1086"
  shows "f64_units x < 2 ^ 63 * 2 ^ 1074"
proof -
  have fr: "f64_fraction x < 2 ^ 52" by (simp add: f64_fraction_def)
  show ?thesis
  proof (cases "f64_exponent x = 0")
    case True
    have "(2::nat) ^ 52 \<le> 2 ^ 63 * 2 ^ 1074" by (simp flip: power_add)
    with True fr show ?thesis by (simp add: f64_units_def)
  next
    case False
    have "(2 ^ 52 + f64_fraction x) * 2 ^ (f64_exponent x - 1) < 2 ^ 53 * 2 ^ (f64_exponent x - 1)"
      using fr by (intro mult_strict_right_mono) simp_all
    also have "\<dots> \<le> 2 ^ 53 * 2 ^ 1084"
      using assms by (intro mult_left_mono power_increasing) simp_all
    finally show ?thesis using False by (simp add: f64_units_def flip: power_add)
  qed
qed

lemma f64_trunc_nat:
  "f64_trunc x = (if f64_negative x then - int (f64_units x div 2 ^ 1074) else int (f64_units x div 2 ^ 1074))"
  unfolding f64_trunc_def zdiv_int of_nat_power of_nat_numeral ..

lemma f64_trunc_int64: "f64_in_int64 x \<Longrightarrow> - (2 ^ 63) \<le> f64_trunc x \<and> f64_trunc x < 2 ^ 63"
proof -
  assume x: "f64_in_int64 x"
  show ?thesis
  proof (cases "f64_exponent x < 1086")
    case True
    from less_mult_imp_div_less [OF f64_units_int64 [OF this]] show ?thesis
      unfolding f64_trunc_nat by (simp del: div_less)
  next
    case False
    with x have x: "f64_exponent x = 1086" "f64_negative x" "f64_fraction x = 0" by (auto simp: f64_in_int64_def)
    then have "f64_units x = 2 ^ 63 * 2 ^ 1074" unfolding f64_units_def by (simp flip: power_add)
    then have "f64_units x div 2 ^ 1074 = 2 ^ 63" by (simp only:) (rule nonzero_mult_div_cancel_right, simp)
    with x show ?thesis unfolding f64_trunc_nat by simp
  qed
qed

lemma exp_seconds_range: "exp_seconds v = Some t \<Longrightarrow> - (2 ^ 63) \<le> t \<and> t < 2 ^ 63"
  using f64_trunc_int64 by (auto simp: exp_seconds_def split: pyval.splits if_splits)

section \<open>What an accepted token says\<close>

text \<open>The reading of a token that does not depend on the commitment or the clock: the digest it states
  and the second at which it expires.\<close>

definition token_claims :: "ed25519 \<Rightarrow> nat \<Rightarrow> ustr \<Rightarrow> ustr \<Rightarrow> pyval \<Rightarrow> pyval \<Rightarrow> bool" where
  "token_claims ed depth issuer_aid tct_jws header payload \<longleftrightarrow>
     (\<exists>h64 p64 s64 key sig signed hb pb.
        split_dot tct_jws = [h64, p64, s64] \<and> issuer_key ed issuer_aid = Inr key \<and>
        b64url_decode s64 = Inr sig \<and> ascii_encode (h64 @ [46] @ p64) = Inr signed \<and>
        ed_verify ed key sig signed = Inr () \<and>
        b64url_decode h64 = Inr hb \<and> json_loads_bytes no_duplicate_keys depth hb = Inr header \<and>
        b64url_decode p64 = Inr pb \<and> json_loads_bytes no_duplicate_keys depth pb = Inr payload)"

definition claim :: "pyval \<Rightarrow> string \<Rightarrow> pyval \<Rightarrow> bool" where
  "claim v k x \<longleftrightarrow> py_get v (ustr k) = Inr x"

lemma claim_unique: "claim v k x \<Longrightarrow> claim v k y \<Longrightarrow> x = y"
  by (simp add: claim_def)

lemma token_claims_unique:
  "token_claims ed depth i t h p \<Longrightarrow> token_claims ed depth i t h' p' \<Longrightarrow> h = h' \<and> p = p'"
  by (auto simp: token_claims_def)

lemma refusals_True:
  "(if b then Inr False else r) = Inr True \<longleftrightarrow> \<not> b \<and> r = Inr True"
  "(case z of None \<Rightarrow> Inr False | Some x \<Rightarrow> f x) = Inr True \<longleftrightarrow> (\<exists>x. z = Some x \<and> f x = Inr True)"
  by (auto split: option.splits)

lemma check_claims_True:
  "check_claims header payload issuer_aid now commitment = Inr True \<longleftrightarrow>
     claim header ''alg'' (VStr (ustr ''EdDSA'')) \<and> claim header ''typ'' (VStr (ustr ''aitp-tct+jwt'')) \<and>
     claim payload ''iss'' (VStr issuer_aid) \<and> claim payload ''sub'' (VStr issuer_aid) \<and>
     claim payload ''aud'' (VStr issuer_aid) \<and>
     claim payload ''grants'' (VList [VStr ATTESTATION_GRANT]) \<and>
     (\<exists>e t. claim payload ''exp'' e \<and> exp_seconds e = Some t \<and> now < t) \<and>
     (\<exists>x h. claim payload ''ext'' x \<and> ext_statement x = Some (VStr h) \<and>
        seam_commitment_digest commitment = Inr h)"
  unfolding check_claims_def claim_def
  by (auto simp: rbind_eq_Inr refusals_True)

lemma verify_tct_body_True:
  "verify_tct_body ed depth i t c now = Inr True \<longleftrightarrow>
     (\<exists>header payload. token_claims ed depth i t header payload \<and> check_claims header payload i now c = Inr True)"
  (is "?l = ?r")
proof
  assume ?l
  then obtain h64 p64 s64 where "split_dot t = [h64, p64, s64]"
    by (auto simp: verify_tct_body_def split: list.splits)
  with \<open>?l\<close> show ?r by (fastforce simp: verify_tct_body_def token_claims_def rbind_eq_Inr)
next
  assume ?r
  then show ?l by (fastforce simp: verify_tct_body_def token_claims_def)
qed

lemma verify_tct_iff:
  "verify_tct ed depth clock i t c now_s \<longleftrightarrow>
     (\<exists>header payload. token_claims ed depth i t header payload \<and>
        check_claims header payload i (case now_s of None \<Rightarrow> clock | Some n \<Rightarrow> n) c = Inr True)"
proof -
  have "verify_tct ed depth clock i t c now_s \<longleftrightarrow>
      verify_tct_body ed depth i t c (case now_s of None \<Rightarrow> clock | Some n \<Rightarrow> n) = Inr True"
    by (auto simp: verify_tct_def split: sum.splits)
  then show ?thesis by (simp only: verify_tct_body_True)
qed

lemma token_claims_distinct:
  "token_claims ed depth i t h p \<Longrightarrow> distinct_deep h \<and> distinct_deep p"
  by (auto simp: token_claims_def dest: json_loads_distinct)

text \<open>C5: One token vouches for one commitment: if a token verifies for two commitments, at whatever
  times, their commitment digests are equal, so they agree on every field, or their preimages are
  an explicit SHA-256 collision.\<close>

theorem tct_vouches_once:
  assumes "verify_tct ed depth clock issuer_aid tct_jws c now_s"
    and "verify_tct ed depth clock' issuer_aid tct_jws c' now_s'"
  shows "(\<exists>m. commitment_view_of c = Inr m \<and> commitment_view_of c' = Inr m) \<or> commitment_collision c c'"
proof -
  obtain h p where tok: "token_claims ed depth issuer_aid tct_jws h p"
    and a: "check_claims h p issuer_aid (case now_s of None \<Rightarrow> clock | Some n \<Rightarrow> n) c = Inr True"
    using assms(1) unfolding verify_tct_iff by blast
  with assms(2) have b: "check_claims h p issuer_aid (case now_s' of None \<Rightarrow> clock' | Some n \<Rightarrow> n) c' = Inr True"
    unfolding verify_tct_iff using token_claims_unique by blast
  obtain x d x' d' where "claim p ''ext'' x" "ext_statement x = Some (VStr d)" "seam_commitment_digest c = Inr d"
    "claim p ''ext'' x'" "ext_statement x' = Some (VStr d')" "seam_commitment_digest c' = Inr d'"
    using a b unfolding check_claims_True by blast
  then have "seam_commitment_digest c = Inr d" "seam_commitment_digest c' = Inr d"
    by (auto dest: claim_unique)
  then show ?thesis by (rule commitment_digest_eq)
qed

text \<open>C21: An accepted token expires once and for all: there is one second \<open>t\<close>, within the signed
  64-bit range whatever number its \<open>exp\<close> is written as, such that it verifies at exactly the times
  before \<open>t\<close>.\<close>

theorem tct_expires:
  assumes "verify_tct ed depth clock issuer_aid tct_jws c now_s"
  shows "\<exists>t. - (2 ^ 63) \<le> t \<and> t < 2 ^ 63 \<and>
    (\<forall>clock' now. verify_tct ed depth clock' issuer_aid tct_jws c (Some now) \<longleftrightarrow> now < t)"
proof -
  obtain h p where tok: "token_claims ed depth issuer_aid tct_jws h p"
    and a: "check_claims h p issuer_aid (case now_s of None \<Rightarrow> clock | Some n \<Rightarrow> n) c = Inr True"
    using assms(1) unfolding verify_tct_iff by blast
  then obtain e t where e: "claim p ''exp'' e" "exp_seconds e = Some t"
    unfolding check_claims_True by blast
  have "check_claims h p issuer_aid now c = Inr True \<longleftrightarrow> now < t" for now
    using a e unfolding check_claims_True by (metis claim_unique option.inject)
  with tok have "verify_tct ed depth clock' issuer_aid tct_jws c (Some now) \<longleftrightarrow> now < t" for clock' now
    unfolding verify_tct_iff using token_claims_unique by (metis option.simps(5))
  with exp_seconds_range [OF e(2)] show ?thesis by blast
qed

section \<open>An honest token is accepted\<close>

text \<open>The token an issuer makes for a digest: header and payload as JSON in any layout, signed with the
  issuer's key.\<close>

definition tct_header :: jdoc where
  "tct_header = JObj [(ustr ''alg'', JStr (ustr ''EdDSA'')), (ustr ''typ'', JStr (ustr ''aitp-tct+jwt''))]"

definition tct_payload :: "ustr \<Rightarrow> int \<Rightarrow> ustr \<Rightarrow> jdoc" where
  "tct_payload aid expiry digest =
     JObj [(ustr ''iss'', JStr aid), (ustr ''sub'', JStr aid), (ustr ''aud'', JStr aid),
           (ustr ''exp'', JInt expiry), (ustr ''grants'', JArr [JStr ATTESTATION_GRANT]),
           (ustr ''ext'', JObj [(COMMITMENT_EXT_KEY,
              JObj [(ustr ''type'', JStr (ustr ''seam:commitment'')), (ustr ''commitment_digest'', JStr digest)])])]"

definition tct_signing_input :: "json_style \<Rightarrow> ustr \<Rightarrow> int \<Rightarrow> ustr \<Rightarrow> ustr" where
  "tct_signing_input style aid expiry digest =
     b64url_nopad (dumps_bytes style tct_header) @ [46] @ b64url_nopad (dumps_bytes style (tct_payload aid expiry digest))"

definition issue_tct :: "ed25519 \<Rightarrow> bytes \<Rightarrow> json_style \<Rightarrow> int \<Rightarrow> ustr \<Rightarrow> ustr" where
  "issue_tct ed sk style expiry digest =
     (let input = tct_signing_input style (aid_from_pubkey (public_bytes_raw ed sk)) expiry digest
      in input @ [46] @ b64url_nopad (ed_sign ed sk (map of_nat input)))"

lemma split_dot_plain: "46 \<notin> set a \<Longrightarrow> split_dot a = [a]"
  by (induction a) auto

lemma split_dot_append: "46 \<notin> set a \<Longrightarrow> split_dot (a @ 46 # s) = a # split_dot s"
  by (induction a) auto

lemma b64url_no_dot: "46 \<notin> set (b64url_nopad b)"
  using b64_chars_set [of 46 b] by (auto simp: b64url_nopad_eq b64_char_def split: if_splits)

lemma tct_docs_proper:
  assumes "\<forall>c \<in> set aid. c < 0x80" "\<forall>c \<in> set digest. c < 0x80" "\<bar>expiry\<bar> \<le> 2 ^ 64"
  shows "proper_doc tct_header" "proper_doc (tct_payload aid expiry digest)"
    "doc_depth tct_header \<le> 3" "doc_depth (tct_payload aid expiry digest) = 3"
  using assms int64_digits [of expiry]
  by (simp_all add: tct_header_def tct_payload_def COMMITMENT_EXT_KEY_def ATTESTATION_GRANT_def proper_ascii ustr_def)

lemma tct_claims_hold:
  assumes "seam_commitment_digest commitment = Inr digest" "- (2 ^ 63) \<le> expiry" "expiry < 2 ^ 63"
  shows "check_claims (jval tct_header) (jval (tct_payload aid expiry digest)) aid now commitment = Inr True \<longleftrightarrow>
    now < expiry"
  unfolding check_claims_True claim_def
  using assms by (simp add: tct_header_def tct_payload_def py_get_def ustr_def exp_seconds_def ext_statement_def
      COMMITMENT_EXT_KEY_def)

lemma signing_input_ascii: "\<forall>c \<in> set (tct_signing_input style aid expiry digest). c < 0x80"
  using b64url_ascii by (auto simp: tct_signing_input_def)

lemma issued_token_claims:
  assumes "ed25519_correct ed" "from_private_bytes ed seed = Inr sk" "seam_commitment_digest commitment = Inr digest"
    "- (2 ^ 63) \<le> expiry" "expiry < 2 ^ 63" "3 \<le> depth"
  shows "token_claims ed depth (aid_from_pubkey (public_bytes_raw ed sk)) (issue_tct ed sk style expiry digest)
    (jval tct_header) (jval (tct_payload (aid_from_pubkey (public_bytes_raw ed sk)) expiry digest))"
proof -
  let ?aid = "aid_from_pubkey (public_bytes_raw ed sk)"
  have ascii: "\<forall>c \<in> set ?aid. c < 0x80" using aid_ascii by blast
  have "\<forall>c \<in> set digest. c < 0x80"
    using assms(3) hex_chars by (fastforce simp: seam_commitment_digest_def rbind_eq_Inr)
  moreover have "\<bar>expiry\<bar> \<le> 2 ^ 64" using assms(4,5) by simp
  ultimately have docs: "proper_doc tct_header" "doc_depth tct_header \<le> depth"
    "proper_doc (tct_payload ?aid expiry digest)" "doc_depth (tct_payload ?aid expiry digest) \<le> depth"
    using tct_docs_proper [OF ascii] assms(6) by (metis order_trans)+
  from assms(1,2) obtain pk where pk: "from_public_bytes ed (public_bytes_raw ed sk) = Inr pk"
    "\<And>m. ed_verify ed pk (ed_sign ed sk m) m = Inr ()" unfolding ed25519_correct_def by blast
  show ?thesis
    unfolding token_claims_def
    using docs pk signing_input_ascii [of style ?aid expiry digest]
    by (simp add: issue_tct_def Let_def tct_signing_input_def split_dot_append split_dot_plain b64url_no_dot
        issuer_key_def aid_roundtrip b64url_roundtrip ascii_encode_def dumps_bytes_strict)
qed


section \<open>Examples\<close>

definition example_sealed :: pyval where
  "example_sealed = example_commitment (VList [example_entry VNone])"

definition example_token :: "ustr \<Rightarrow> ustr" where
  "example_token digest = issue_tct example_ed (replicate 32 7) Spaced 100 digest"

lemma example_verifies:
  assumes "seam_commitment_digest example_sealed = Inr digest" "now < 100"
  shows "verify_tct example_ed 3 clock (aid_from_pubkey (replicate 32 7)) (example_token digest) example_sealed (Some now)"
proof -
  have k: "from_private_bytes example_ed (replicate 32 7) = Inr (replicate 32 7)"
    "public_bytes_raw example_ed (replicate 32 7) = replicate 32 7" by (simp_all add: example_ed_def)
  note t = issued_token_claims [OF example_ed_correct k(1) assms(1), of 100 3 Spaced, unfolded k]
  show ?thesis unfolding verify_tct_iff example_token_def option.case
    using t tct_claims_hold [OF assms(1), of 100 _ now] assms(2) by auto
qed


theorem tct_vouches_once_witness:
  "\<exists>digest. verify_tct example_ed 3 0 (aid_from_pubkey (replicate 32 7)) (example_token digest) example_sealed (Some 5) \<and>
     ((\<exists>m. commitment_view_of example_sealed = Inr m) \<or> commitment_collision example_sealed example_sealed)"
proof -
  obtain digest where d: "seam_commitment_digest example_sealed = Inr digest"
    unfolding example_sealed_def using example_commitment_digest by blast
  from example_verifies [OF d, of 5] tct_vouches_once [OF example_verifies [OF d, of 5] example_verifies [OF d, of 6]]
  show ?thesis by auto
qed

theorem tct_expires_witness:
  "\<exists>digest t. verify_tct example_ed 3 0 (aid_from_pubkey (replicate 32 7)) (example_token digest) example_sealed (Some 5) \<and>
     5 < t \<and> \<not> verify_tct example_ed 3 0 (aid_from_pubkey (replicate 32 7)) (example_token digest) example_sealed (Some t)"
proof -
  obtain digest where d: "seam_commitment_digest example_sealed = Inr digest"
    unfolding example_sealed_def using example_commitment_digest by blast
  have v: "verify_tct example_ed 3 0 (aid_from_pubkey (replicate 32 7)) (example_token digest) example_sealed (Some 5)"
    using example_verifies [OF d] by simp
  from tct_expires [OF v] obtain t where t: "\<And>now. verify_tct example_ed 3 0 (aid_from_pubkey (replicate 32 7))
      (example_token digest) example_sealed (Some now) \<longleftrightarrow> now < t" by blast
  then have "5 < t" using v by blast
  with v t show ?thesis by (intro exI [of _ digest] exI [of _ t]) blast
qed

end
