(* ===== verification/Floats.thy ===== *)
theory Floats
  imports Json
begin

text \<open>
  Arithmetic of Python floats on the bit patterns of \<open>Pyval\<close>: each operation rounds the exact result
  to the nearest double, ties to even, as IEEE 754 prescribes. A finite double is
  \<open>f64_scaled x / 2 ^ 1074\<close>. Comparisons are exact, and false on a NaN.
\<close>

section \<open>Operations\<close>

definition f64_isinf :: "f64 \<Rightarrow> bool" where
  "f64_isinf x = (f64_exponent x = 2047 \<and> f64_fraction x = 0)"

definition f64_zero :: "f64 \<Rightarrow> bool" where
  "f64_zero x = (f64_isfinite x \<and> f64_units x = 0)"

definition f64_add :: "f64 \<Rightarrow> f64 \<Rightarrow> f64" where
  "f64_add x y =
     (if f64_isnan x \<or> f64_isnan y then f64_nan
      else if f64_isinf x \<and> f64_isinf y then (if f64_negative x = f64_negative y then x else f64_nan)
      else if f64_isinf x then x
      else if f64_isinf y then y
      else let s = f64_scaled x + f64_scaled y
           in if s = 0 then (if f64_negative x \<and> f64_negative y then 2 ^ 63 else 0)
              else f64_of_ratio (s < 0) (nat \<bar>s\<bar>) (2 ^ 1074))"

definition f64_mul :: "f64 \<Rightarrow> f64 \<Rightarrow> f64" where
  "f64_mul x y =
     (let neg = (f64_negative x \<noteq> f64_negative y)
      in if f64_isnan x \<or> f64_isnan y then f64_nan
         else if f64_isinf x \<or> f64_isinf y then (if f64_zero x \<or> f64_zero y then f64_nan else f64_inf neg)
         else f64_of_ratio neg (f64_units x * f64_units y) (2 ^ 2148))"

text \<open>\<open>x / y\<close> for a \<open>y\<close> that is not zero.\<close>

definition f64_div :: "f64 \<Rightarrow> f64 \<Rightarrow> f64" where
  "f64_div x y =
     (let neg = (f64_negative x \<noteq> f64_negative y)
      in if f64_isnan x \<or> f64_isnan y then f64_nan
         else if f64_isinf x then (if f64_isinf y then f64_nan else f64_inf neg)
         else if f64_isinf y then f64_of_ratio neg 0 1
         else f64_of_ratio neg (f64_units x) (f64_units y))"

definition f64_lt :: "f64 \<Rightarrow> f64 \<Rightarrow> bool" where
  "f64_lt x y = (\<not> f64_isnan x \<and> \<not> f64_isnan y \<and> f64_scaled x < f64_scaled y)"

definition f64_le :: "f64 \<Rightarrow> f64 \<Rightarrow> bool" where
  "f64_le x y = (\<not> f64_isnan x \<and> \<not> f64_isnan y \<and> f64_scaled x \<le> f64_scaled y)"

text \<open>\<open>min(x, y)\<close> of two floats: the first unless the second is less.\<close>

definition f64_min :: "f64 \<Rightarrow> f64 \<Rightarrow> f64" where
  "f64_min x y = (if f64_lt y x then y else x)"

section \<open>Comparisons\<close>

lemma f64_not_lt: "\<not> f64_isnan x \<Longrightarrow> \<not> f64_isnan y \<Longrightarrow> \<not> f64_lt x y \<longleftrightarrow> f64_le y x"
  by (auto simp: f64_lt_def f64_le_def)

lemma f64_le_trans: "f64_le x y \<Longrightarrow> f64_le y z \<Longrightarrow> f64_le x z"
  by (auto simp: f64_le_def)

text \<open>The order of the scaled values is the order of the doubles: infinities lie beyond every finite
  double.\<close>

lemma f64_units_finite: "f64_isfinite x \<Longrightarrow> f64_units x < 2 ^ 52 * 2 ^ 2046"
proof -
  assume fin: "f64_isfinite x"
  have "f64_exponent x < 2 ^ 11" by (simp add: f64_exponent_def)
  with fin have e: "f64_exponent x \<le> 2046" by (simp add: f64_isfinite_def)
  have f: "f64_fraction x < 2 ^ 52" by (simp add: f64_fraction_def)
  show ?thesis
  proof (cases "f64_exponent x = 0")
    case True
    have "(2::nat) ^ 52 * 1 \<le> 2 ^ 52 * 2 ^ 2046" by (intro mult_left_mono one_le_power) simp_all
    with f have "f64_fraction x < 2 ^ 52 * 2 ^ 2046" by linarith
    with True show ?thesis unfolding f64_units_def by (simp only: refl if_True)
  next
    case False
    have "(2 ^ 52 + f64_fraction x) * 2 ^ (f64_exponent x - 1) < (2 ^ 52 + 2 ^ 52) * 2 ^ (f64_exponent x - 1)"
      using f by (intro mult_strict_right_mono) simp_all
    also have "\<dots> = 2 ^ 52 * (2 * 2 ^ (f64_exponent x - 1))" by (simp only: mult_2 [symmetric] mult.assoc mult.left_commute)
    also have "2 * 2 ^ (f64_exponent x - 1) = (2::nat) ^ f64_exponent x"
      using False by (metis Suc_pred' not_gr_zero power_Suc)
    also have "(2::nat) ^ 52 * 2 ^ f64_exponent x \<le> 2 ^ 52 * 2 ^ 2046"
      using e by (intro mult_left_mono power_increasing) simp_all
    finally show ?thesis using False by (simp only: f64_units_def if_False)
  qed
qed

lemma f64_inf_top: "\<not> f64_lt (f64_inf False) x"
proof -
  have i: "f64_exponent (f64_inf False) = 2047" "f64_fraction (f64_inf False) = 0" "\<not> f64_negative (f64_inf False)"
    by (simp_all add: f64_inf_def f64_exponent_def f64_fraction_def f64_negative_def)
  have "f64_units (f64_inf False) = 2 ^ 52 * 2 ^ 2046" unfolding f64_units_def i by simp
  then have top: "f64_scaled (f64_inf False) = int (2 ^ 52 * 2 ^ 2046)" unfolding f64_scaled_def using i(3) by simp
  have "f64_units x \<le> 2 ^ 52 * 2 ^ 2046" if "\<not> f64_isnan x"
  proof (cases "f64_isfinite x")
    case True
    from f64_units_finite [OF this] show ?thesis by (rule less_imp_le)
  next
    case False
    with that have "f64_exponent x = 2047" "f64_fraction x = 0" by (auto simp: f64_isfinite_def f64_isnan_def)
    then have "f64_units x = 2 ^ 52 * 2 ^ 2046" unfolding f64_units_def by simp
    then show ?thesis by (simp only: order_refl)
  qed
  then have "f64_scaled x \<le> int (2 ^ 52 * 2 ^ 2046)" if "\<not> f64_isnan x"
    using that unfolding f64_scaled_def
    by (cases "f64_negative x") (simp_all only: if_True if_False of_nat_le_iff, metis neg_le_0_iff_le of_nat_0_le_iff order_trans)
  with top show ?thesis unfolding f64_lt_def by (metis not_less)
qed

end
