(* ===== verification/Errors.thy ===== *)
theory Errors
  imports Floats "HOL-Library.AList"
begin

text \<open>
  The error taxonomy (\<open>errors.py\<close>): the exception classes, the mapping from a raw gRPC error to its
  typed class, the hand-written protobuf reader that finds \<open>ErrorInfo\<close> and \<open>RetryInfo\<close> in the
  trailing metadata, and the predicates callers classify a refusal with. The reader's \<open>_fields\<close> is a
  generator: it is modelled as the fields it yields before it ends or raises, so that a caller
  which stops early never sees the failure. The lemmas show that reading never raises, that the
  reader finds what a protobuf writer wrote, and which refusals are retryable.
\<close>

section \<open>Status codes and error classes\<close>

datatype status_code =
    OK | CANCELLED | UNKNOWN | INVALID_ARGUMENT | DEADLINE_EXCEEDED | NOT_FOUND | ALREADY_EXISTS
  | PERMISSION_DENIED | RESOURCE_EXHAUSTED | FAILED_PRECONDITION | ABORTED | OUT_OF_RANGE
  | UNIMPLEMENTED | INTERNAL | UNAVAILABLE | DATA_LOSS | UNAUTHENTICATED

datatype rpc_class =
    SeamRpcErrorBase | InvalidArgumentError | FailedPreconditionError | PermissionDeniedError
  | UnauthenticatedError | NotFoundError | AlreadyExistsError | ResourceExhaustedError
  | UnavailableError | DeadlineExceededError | UnimplementedError | InternalError

text \<open>Metadata keys and values: text, bytes, a bytearray, or something else.\<close>

datatype md_value = MText ustr | MBytes bytes | MBytearray bytes | MOther

record rpc_error =
  e_class :: rpc_class
  e_code :: status_code
  e_details :: ustr
  e_trailing :: "(md_value \<times> md_value) list option"

text \<open>The exceptions of the SDK. \<open>Builtin\<close> is one of the exceptions of the language.\<close>

datatype sdk_exn =
    RpcErr rpc_error
  | CanonicalizationError
  | IssuerMismatchError ustr ustr
  | UnknownVerdictError int ustr
  | UnknownCollectiveVerdictError int ustr
  | ProtocolViolationError ustr
  | SeamErr ustr
  | Builtin py_exn

type_synonym 'a sres = "sdk_exn + 'a"

text \<open>What an accessor for trailing metadata hands back: nothing, something to iterate over whose items
  may not be pairs, or something that cannot be iterated.\<close>

datatype raw_item = Pair md_value md_value | NotPair
datatype raw_metadata = RawNone | RawItems "raw_item list" | RawNotIterable

fun pair_of :: "raw_item \<Rightarrow> (md_value \<times> md_value) option" where
  "pair_of (Pair k v) = Some (k, v)"
| "pair_of NotPair = None"

definition normalized_trailing_metadata :: "raw_metadata \<Rightarrow> (md_value \<times> md_value) list option" where
  "normalized_trailing_metadata raw =
     (case raw of
        RawNone \<Rightarrow> None
      | RawNotIterable \<Rightarrow> None
      | RawItems items \<Rightarrow> those (map pair_of items))"

definition seam_rpc_error :: "rpc_class \<Rightarrow> status_code \<Rightarrow> ustr \<Rightarrow> raw_metadata \<Rightarrow> rpc_error" where
  "seam_rpc_error cls code details trailing =
     \<lparr>e_class = cls, e_code = code, e_details = details,
      e_trailing = normalized_trailing_metadata trailing\<rparr>"

section \<open>Reading protobuf\<close>

text \<open>\<open>_varint\<close> from a position: the bits already read are below \<open>shift\<close>, so \<open>or\<close> is addition. The
  exception is a \<open>ValueError\<close>.\<close>

fun varint :: "nat \<Rightarrow> nat \<Rightarrow> bytes \<Rightarrow> (nat \<times> bytes) res" where
  "varint shift out [] = Inl ValueError"
| "varint shift out (b # buf) =
     (if shift > 63 then Inl ValueError
      else let out' = out + unat b mod 128 * 2 ^ shift
           in if unat b < 128 then Inr (out', buf) else varint (shift + 7) out' buf)"

datatype fval = FInt nat | FBytes bytes | FSkipped

definition field_value :: "nat \<Rightarrow> bytes \<Rightarrow> (fval \<times> bytes) res" where
  "field_value wt buf =
     (if wt = 0 then rbind (varint 0 0 buf) (\<lambda>(v, r). Inr (FInt v, r))
      else if wt = 2 then
        rbind (varint 0 0 buf) (\<lambda>(n, r).
          if n > length r then Inl ValueError else Inr (FBytes (take n r), drop n r))
      else if wt = 1 then (if 8 > length buf then Inl ValueError else Inr (FSkipped, drop 8 buf))
      else if wt = 5 then (if 4 > length buf then Inl ValueError else Inr (FSkipped, drop 4 buf))
      else Inl ValueError)"

lemma varint_shorter: "varint shift out buf = Inr (v, r) \<Longrightarrow> length r < length buf"
  by (induction shift out buf rule: varint.induct) (auto simp: Let_def split: if_splits)

lemma field_value_le: "field_value wt buf = Inr (v, r) \<Longrightarrow> length r \<le> length buf"
  by (auto simp: field_value_def rbind_eq_Inr split: if_splits dest!: varint_shorter)

text \<open>The fields the generator yields, and whether it then raises.\<close>

type_synonym pb_field = "nat \<times> nat \<times> fval"

function pb_fields :: "bytes \<Rightarrow> pb_field list \<times> bool" where
  "pb_fields buf =
     (if buf = [] then ([], False)
      else case varint 0 0 buf of
             Inl _ \<Rightarrow> ([], True)
           | Inr (key, r) \<Rightarrow>
               (case field_value (key mod 8) r of
                  Inl _ \<Rightarrow> ([], True)
                | Inr (v, r') \<Rightarrow> (let (fs, raised) = pb_fields r' in ((key div 8, key mod 8, v) # fs, raised))))"
  by pat_completeness auto
termination
  by (relation "measure length") (auto dest!: varint_shorter field_value_le)

declare pb_fields.simps [simp del]

text \<open>A loop over the fields: the body may raise, and the generator may raise after its last field.\<close>

definition for_fields :: "bytes \<Rightarrow> 's \<Rightarrow> ('s \<Rightarrow> pb_field \<Rightarrow> 's res) \<Rightarrow> 's res" where
  "for_fields buf s body =
     (let (fs, raised) = pb_fields buf
      in rbind (foldl (\<lambda>acc f. rbind acc (\<lambda>s. body s f)) (Inr s) fs)
           (\<lambda>s. if raised then Inl ValueError else Inr s))"

definition any_body :: "ustr \<times> bytes \<Rightarrow> pb_field \<Rightarrow> (ustr \<times> bytes) res" where
  "any_body = (\<lambda>(type_url, val) (num, wt, v).
     case v of
       FBytes av \<Rightarrow>
         (if num = 1 \<and> wt = 2 then rbind (utf8_decode av) (\<lambda>u. Inr (u, val))
          else if num = 2 \<and> wt = 2 then Inr (type_url, av) else Inr (type_url, val))
     | _ \<Rightarrow> Inr (type_url, val))"

definition status_body :: "(ustr \<times> bytes) list \<Rightarrow> pb_field \<Rightarrow> (ustr \<times> bytes) list res" where
  "status_body = (\<lambda>out (num, wt, v).
     case v of
       FBytes b \<Rightarrow>
         (if num = 3 \<and> wt = 2 then rbind (for_fields b ([], []) any_body) (\<lambda>p. Inr (out @ [p])) else Inr out)
     | _ \<Rightarrow> Inr out)"

text \<open>\<open>k.lower()\<close> compared with an ASCII key that has no letter a non-ASCII character lowers to: lowering
  the ASCII capitals decides it.\<close>

definition lower_ascii :: "ustr \<Rightarrow> ustr" where
  "lower_ascii s = map (\<lambda>c. if 65 \<le> c \<and> c \<le> 90 then c + 32 else c) s"

definition STATUS_DETAILS_KEY :: ustr where
  "STATUS_DETAILS_KEY = ustr ''grpc-status-details-bin''"

fun details_payload :: "(md_value \<times> md_value) list \<Rightarrow> md_value option \<Rightarrow> md_value option" where
  "details_payload [] raw = raw"
| "details_payload ((k, v) # kvs) raw =
     details_payload kvs
       (case k of MText t \<Rightarrow> if lower_ascii t = STATUS_DETAILS_KEY then Some v else raw | _ \<Rightarrow> raw)"

definition status_details :: "(md_value \<times> md_value) list option \<Rightarrow> (ustr \<times> bytes) list" where
  "status_details trailing =
     (case trailing of
        None \<Rightarrow> []
      | Some kvs \<Rightarrow>
          (let parse = (\<lambda>b. case for_fields b [] status_body of Inl _ \<Rightarrow> [] | Inr out \<Rightarrow> out)
           in case details_payload kvs None of
                Some (MBytes b) \<Rightarrow> parse b
              | Some (MBytearray b) \<Rightarrow> parse b
              | _ \<Rightarrow> []))"

text \<open>\<open>_decode_error_info\<close>: reason, domain and metadata.\<close>

definition entry_body :: "ustr \<times> ustr \<Rightarrow> pb_field \<Rightarrow> (ustr \<times> ustr) res" where
  "entry_body = (\<lambda>(mk, mv) (num, wt, v).
     case v of
       FBytes b \<Rightarrow>
         (if num = 1 \<and> wt = 2 then rbind (utf8_decode b) (\<lambda>k. Inr (k, mv))
          else if num = 2 \<and> wt = 2 then rbind (utf8_decode b) (\<lambda>x. Inr (mk, x)) else Inr (mk, mv))
     | _ \<Rightarrow> Inr (mk, mv))"

type_synonym error_info = "ustr \<times> ustr \<times> (ustr \<times> ustr) list"

definition error_info_body :: "error_info \<Rightarrow> pb_field \<Rightarrow> error_info res" where
  "error_info_body = (\<lambda>(reason, domain, metadata) (num, wt, v).
     case v of
       FBytes b \<Rightarrow>
         (if wt \<noteq> 2 then Inr (reason, domain, metadata)
          else if num = 1 then rbind (utf8_decode b) (\<lambda>r. Inr (r, domain, metadata))
          else if num = 2 then rbind (utf8_decode b) (\<lambda>d. Inr (reason, d, metadata))
          else if num = 3 then
            rbind (for_fields b ([], []) entry_body) (\<lambda>(mk, mv). Inr (reason, domain, AList.update mk mv metadata))
          else Inr (reason, domain, metadata))
     | _ \<Rightarrow> Inr (reason, domain, metadata))"

definition decode_error_info :: "bytes \<Rightarrow> error_info res" where
  "decode_error_info val = for_fields val ([], [], []) error_info_body"

text \<open>\<open>_decode_retry_delay\<close> stops at the first duration; \<open>nanos / 1e9\<close> and the sum are float arithmetic.\<close>

definition sign_64 :: "nat \<Rightarrow> int" where
  "sign_64 dv = (if dv \<ge> 2 ^ 63 then int dv - 2 ^ 64 else int dv)"

definition duration_body :: "int \<times> int \<Rightarrow> pb_field \<Rightarrow> (int \<times> int) res" where
  "duration_body = (\<lambda>(seconds, nanos) (num, wt, v).
     case v of
       FInt dv \<Rightarrow>
         (if num = 1 \<and> wt = 0 then Inr (sign_64 dv, nanos)
          else if num = 2 \<and> wt = 0 then Inr (seconds, sign_64 dv) else Inr (seconds, nanos))
     | _ \<Rightarrow> Inr (seconds, nanos))"

definition F_1E9 :: f64 where
  "F_1E9 = 0x41CDCD6500000000"

definition delay_seconds :: "int \<times> int \<Rightarrow> f64 res" where
  "delay_seconds = (\<lambda>(seconds, nanos).
     rbind (f64_of_int nanos) (\<lambda>n.
     rbind (f64_of_int seconds) (\<lambda>s. Inr (f64_add s (f64_div n F_1E9)))))"

fun first_delay :: "pb_field list \<Rightarrow> bool \<Rightarrow> f64 option res" where
  "first_delay [] raised = (if raised then Inl ValueError else Inr None)"
| "first_delay ((num, wt, v) # fs) raised =
     (case v of
        FBytes b \<Rightarrow>
          (if num = 1 \<and> wt = 2 then
             rbind (for_fields b (0, 0) duration_body) (\<lambda>d. rbind (delay_seconds d) (\<lambda>x. Inr (Some x)))
           else first_delay fs raised)
      | _ \<Rightarrow> first_delay fs raised)"

definition decode_retry_delay :: "bytes \<Rightarrow> f64 option res" where
  "decode_retry_delay val = (let (fs, raised) = pb_fields val in first_delay fs raised)"

section \<open>What an error says\<close>

definition SEAM_ERROR_DOMAIN :: ustr where
  "SEAM_ERROR_DOMAIN = ustr ''seam.zer07labs.com''"

definition PROTOCOL_REASON :: ustr where
  "PROTOCOL_REASON = ustr ''PROTOCOL''"

definition SESSION_UNAVAILABLE_REASON :: ustr where
  "SESSION_UNAVAILABLE_REASON = ustr ''SESSION_UNAVAILABLE''"

definition WRONG_CELL_REASON :: ustr where
  "WRONG_CELL_REASON = ustr ''WRONG_CELL''"

definition TENANT_MOVING_REASON :: ustr where
  "TENANT_MOVING_REASON = ustr ''TENANT_MOVING''"

definition ERROR_INFO_TYPE :: ustr where
  "ERROR_INFO_TYPE = ustr ''type.googleapis.com/google.rpc.ErrorInfo''"

definition RETRY_INFO_TYPE :: ustr where
  "RETRY_INFO_TYPE = ustr ''type.googleapis.com/google.rpc.RetryInfo''"

fun find_seam_info :: "(ustr \<times> bytes) list \<Rightarrow> (ustr \<times> (ustr \<times> ustr) list) option" where
  "find_seam_info [] = None"
| "find_seam_info ((type_url, val) # ds) =
     (if type_url \<noteq> ERROR_INFO_TYPE then find_seam_info ds
      else case decode_error_info val of
             Inl _ \<Rightarrow> None
           | Inr (reason, domain, metadata) \<Rightarrow>
               (if domain = SEAM_ERROR_DOMAIN then Some (reason, metadata) else find_seam_info ds))"

definition seam_error_info :: "rpc_error \<Rightarrow> (ustr \<times> (ustr \<times> ustr) list) option" where
  "seam_error_info e = find_seam_info (status_details (e_trailing e))"

definition reason_of :: "rpc_error \<Rightarrow> ustr option" where
  "reason_of e = map_option fst (seam_error_info e)"

definition error_metadata :: "rpc_error \<Rightarrow> (ustr \<times> ustr) list option" where
  "error_metadata e = map_option snd (seam_error_info e)"

definition macp_code :: "rpc_error \<Rightarrow> ustr option" where
  "macp_code e =
     (case seam_error_info e of
        None \<Rightarrow> None
      | Some (reason, metadata) \<Rightarrow>
          if reason \<noteq> PROTOCOL_REASON then None else map_of metadata (ustr ''macp_code''))"

text \<open>Only a \<open>ValueError\<close> of the decoder is caught.\<close>

fun find_retry_delay :: "(ustr \<times> bytes) list \<Rightarrow> f64 option res" where
  "find_retry_delay [] = Inr None"
| "find_retry_delay ((type_url, val) # ds) =
     (if type_url = RETRY_INFO_TYPE then
        (case decode_retry_delay val of
           Inl e \<Rightarrow> if is_ValueError e then Inr None else Inl e
         | Inr d \<Rightarrow> Inr d)
      else find_retry_delay ds)"

definition retry_after :: "rpc_error \<Rightarrow> f64 option res" where
  "retry_after e = find_retry_delay (status_details (e_trailing e))"

section \<open>Classification\<close>

definition is_session_unavailable :: "sdk_exn \<Rightarrow> bool" where
  "is_session_unavailable exc =
     (case exc of
        RpcErr e \<Rightarrow> e_class e = UnavailableError \<and> reason_of e = Some SESSION_UNAVAILABLE_REASON
      | _ \<Rightarrow> False)"

definition is_wrong_cell :: "sdk_exn \<Rightarrow> bool" where
  "is_wrong_cell exc =
     (case exc of
        RpcErr e \<Rightarrow> e_class e = FailedPreconditionError \<and> reason_of e = Some WRONG_CELL_REASON
      | _ \<Rightarrow> False)"

definition is_tenant_moving :: "sdk_exn \<Rightarrow> bool" where
  "is_tenant_moving exc =
     (case exc of
        RpcErr e \<Rightarrow> e_class e = FailedPreconditionError \<and> reason_of e = Some TENANT_MOVING_REASON
      | _ \<Rightarrow> False)"

definition is_retryable :: "sdk_exn \<Rightarrow> bool" where
  "is_retryable exc = (is_session_unavailable exc \<or> is_tenant_moving exc)"

section \<open>From a raw gRPC error to a typed one\<close>

definition by_code :: "status_code \<Rightarrow> rpc_class" where
  "by_code code =
     (case code of
        INVALID_ARGUMENT \<Rightarrow> InvalidArgumentError
      | FAILED_PRECONDITION \<Rightarrow> FailedPreconditionError
      | PERMISSION_DENIED \<Rightarrow> PermissionDeniedError
      | UNAUTHENTICATED \<Rightarrow> UnauthenticatedError
      | NOT_FOUND \<Rightarrow> NotFoundError
      | ALREADY_EXISTS \<Rightarrow> AlreadyExistsError
      | RESOURCE_EXHAUSTED \<Rightarrow> ResourceExhaustedError
      | UNAVAILABLE \<Rightarrow> UnavailableError
      | DEADLINE_EXCEEDED \<Rightarrow> DeadlineExceededError
      | UNIMPLEMENTED \<Rightarrow> UnimplementedError
      | INTERNAL \<Rightarrow> InternalError
      | _ \<Rightarrow> InternalError)"

text \<open>An accessor of a raw error: not there or not callable, raising, or returning.\<close>

datatype 'a accessor = NoAccessor | Raises sdk_exn | Returns 'a

record raw_rpc =
  raw_code :: "status_code option accessor"
  raw_details :: "ustr option accessor"
  raw_trailing :: "raw_metadata accessor"

text \<open>A \<open>grpc.RpcError\<close>: one of the SDK's own, or another.\<close>

datatype grpc_error = Typed rpc_error | Untyped raw_rpc

definition map_rpc_error :: "grpc_error \<Rightarrow> rpc_error sres" where
  "map_rpc_error exc =
     (case exc of
        Typed e \<Rightarrow> Inr e
      | Untyped x \<Rightarrow>
          rbind (case raw_code x of
                   NoAccessor \<Rightarrow> Inr UNKNOWN
                 | Raises e \<Rightarrow> Inl e
                 | Returns None \<Rightarrow> Inr UNKNOWN
                 | Returns (Some c) \<Rightarrow> Inr c) (\<lambda>code.
          rbind (case raw_details x of
                   NoAccessor \<Rightarrow> Inr []
                 | Raises e \<Rightarrow> Inl e
                 | Returns None \<Rightarrow> Inr []
                 | Returns (Some d) \<Rightarrow> Inr d) (\<lambda>details.
          let trailing = (case raw_trailing x of Returns t \<Rightarrow> t | _ \<Rightarrow> RawNone)
          in Inr (seam_rpc_error (by_code code) code details trailing))))"

text \<open>\<open>_MappedStub\<close>: a unary call's gRPC error is raised typed, anything else as it is.\<close>

datatype call_exn = GrpcRaised grpc_error | OtherRaised sdk_exn

definition mapped_call :: "call_exn + 'a \<Rightarrow> 'a sres" where
  "mapped_call outcome =
     (case outcome of
        Inr x \<Rightarrow> Inr x
      | Inl (OtherRaised e) \<Rightarrow> Inl e
      | Inl (GrpcRaised g) \<Rightarrow> (case map_rpc_error g of Inl e \<Rightarrow> Inl e | Inr e \<Rightarrow> Inl (RpcErr e)))"

section \<open>Reading never raises\<close>

lemma varint_bound:
  "varint shift out buf = Inr (v, r) \<Longrightarrow> out < 2 ^ shift \<Longrightarrow> v < 2 ^ 70"
proof (induction shift out buf rule: varint.induct)
  case (2 shift out b buf)
  let ?out = "out + unat b mod 128 * 2 ^ shift"
  from 2(2) have sh: "shift \<le> 63" by (auto split: if_splits)
  have "unat b mod 128 * 2 ^ shift \<le> 127 * 2 ^ shift"
    using mod_less_divisor [of 128 "unat b"] by (intro mult_right_mono) linarith+
  with 2(3) have "?out < 2 ^ shift + 127 * 2 ^ shift" by (rule add_less_le_mono)
  then have lt: "?out < 2 ^ (shift + 7)" by (simp add: power_add)
  have "(2::nat) ^ (shift + 7) \<le> 2 ^ 70" using sh by (intro power_increasing) simp_all
  with lt have le: "?out < 2 ^ 70" by (rule less_le_trans)
  show ?case
  proof (cases "unat b < 128")
    case True
    with 2(2) sh le show ?thesis by (simp add: Let_def)
  next
    case False
    with 2(2) sh have "varint (shift + 7) ?out buf = Inr (v, r)" by (simp add: Let_def)
    with 2(1) [OF _ refl False] sh lt show ?thesis by simp
  qed
qed simp

definition small_field :: "pb_field \<Rightarrow> bool" where
  "small_field f = (case f of (_, _, FInt n) \<Rightarrow> n < 2 ^ 70 | _ \<Rightarrow> True)"

lemma field_value_small: "field_value wt buf = Inr (v, r) \<Longrightarrow> small_field (num, wt, v)"
  by (auto simp: field_value_def small_field_def rbind_eq_Inr split: if_splits dest: varint_bound)

lemma fields_small: "pb_fields buf = (fs, raised) \<Longrightarrow> list_all small_field fs"
proof (induction buf arbitrary: fs raised rule: pb_fields.induct)
  case (1 buf)
  show ?case
  proof (cases "buf = []")
    case True
    with 1(2) show ?thesis by (simp add: pb_fields.simps [of "[]"])
  next
    case False
    show ?thesis
    proof (cases "varint 0 0 buf")
      case (Inl e)
      with 1(2) False show ?thesis by (simp add: pb_fields.simps [of buf])
    next
      case (Inr kr)
      obtain key r where kr: "kr = (key, r)" by (cases kr)
      show ?thesis
      proof (cases "field_value (key mod 8) r")
        case (Inl e)
        with 1(2) False Inr kr show ?thesis by (simp add: pb_fields.simps [of buf])
      next
        case (Inr vr)
        obtain v r' where vr: "vr = (v, r')" by (cases vr)
        obtain fs' where fs': "pb_fields r' = (fs', raised)" "fs = (key div 8, key mod 8, v) # fs'"
          using 1(2) False Inr kr vr \<open>varint 0 0 buf = Inr kr\<close>
          by (cases "pb_fields r'") (simp add: pb_fields.simps [of buf])
        have "list_all small_field fs'"
          using 1(1) [OF False \<open>varint 0 0 buf = Inr kr\<close> kr [symmetric] Inr vr [symmetric]] fs'(1) by blast
        with field_value_small [of "key mod 8" r v r' "key div 8"] fs'(2) Inr vr show ?thesis by simp
      qed
    qed
  qed
qed

lemma f64_bits_bound: "a < 2 ^ 71 \<Longrightarrow> bit_length a \<le> 71 \<and> f64_bits_of_nat a < 2047 * 2 ^ 52"
proof (cases "a = 0")
  case True
  then show ?thesis by (simp add: f64_bits_of_nat_def bit_length.simps)
next
  case False
  assume a: "a < 2 ^ 71"
  let ?b = "bit_length a"
  from bit_length_bounds [OF False] have b: "2 ^ (?b - 1) \<le> a" "a < 2 ^ ?b" by auto
  have le: "?b \<le> 71"
  proof (rule ccontr)
    assume "\<not> ?b \<le> 71"
    then have "(2::nat) ^ 71 \<le> 2 ^ (?b - 1)" by (intro power_increasing) auto
    with b(1) a show False by linarith
  qed
  have "(if ?b \<le> 53 then a * 2 ^ (53 - ?b) else round_half_even a (2 ^ (?b - 53))) \<le> 2 ^ 53"
  proof (cases "?b \<le> 53")
    case True
    have "a * 2 ^ (53 - ?b) \<le> 2 ^ ?b * 2 ^ (53 - ?b)" using b(2) by (intro mult_right_mono) auto
    also have "\<dots> = 2 ^ 53" using True by (simp flip: power_add)
    finally show ?thesis using True by simp
  next
    case False
    then have "53 + (?b - 53) = ?b" by simp
    with b(2) have "a < 2 ^ 53 * 2 ^ (?b - 53)" by (simp only: power_add [symmetric])
    then have "a div 2 ^ (?b - 53) < 2 ^ 53" by (rule less_mult_imp_div_less)
    then have "round_half_even a (2 ^ (?b - 53)) \<le> 2 ^ 53" by (auto simp: round_half_even_def Let_def)
    with False show ?thesis by simp
  qed
  with False le show ?thesis by (auto simp: f64_bits_of_nat_def Let_def)
qed

lemma f64_of_int_total: "\<bar>n\<bar> < 2 ^ 71 \<Longrightarrow> \<exists>x. f64_of_int n = Inr x"
proof -
  assume "\<bar>n\<bar> < 2 ^ 71"
  then have "nat \<bar>n\<bar> < 2 ^ 71" by (simp add: nat_less_iff)
  from f64_bits_bound [OF this] show ?thesis by (auto simp: f64_of_int_def Let_def)
qed

definition small_duration :: "int \<times> int \<Rightarrow> bool" where
  "small_duration d = (\<bar>fst d\<bar> < 2 ^ 71 \<and> \<bar>snd d\<bar> < 2 ^ 71)"

lemma duration_body_small:
  "small_duration d \<Longrightarrow> small_field f \<Longrightarrow> duration_body d f = Inr d' \<Longrightarrow> small_duration d'"
  by (auto simp: duration_body_def small_duration_def small_field_def sign_64_def split: fval.splits if_splits prod.splits)

lemma duration_fold_small:
  "list_all small_field fs \<Longrightarrow> (\<And>d. acc = Inr d \<Longrightarrow> small_duration d) \<Longrightarrow>
     foldl (\<lambda>acc f. rbind acc (\<lambda>s. duration_body s f)) acc fs = Inr d' \<Longrightarrow> small_duration d'"
proof (induction fs arbitrary: acc)
  case (Cons f fs)
  show ?case
  proof (rule Cons.IH)
    show "small_duration d" if "rbind acc (\<lambda>s. duration_body s f) = Inr d" for d
      using that Cons.prems(1,2) duration_body_small [of _ f d] unfolding rbind_eq_Inr by auto
  qed (use Cons.prems in simp_all)
qed simp

lemma for_duration_small: "for_fields b (0, 0) duration_body = Inr d \<Longrightarrow> small_duration d"
  using duration_fold_small [OF fields_small [of b], of _ _ "Inr (0, 0)"]
  by (fastforce simp: for_fields_def rbind_eq_Inr small_duration_def split: prod.splits if_splits)

lemma duration_body_Inr: "duration_body d f \<noteq> Inl e"
  by (auto simp: duration_body_def split: fval.splits prod.splits)

lemma for_duration_exn: "for_fields b (0, 0) duration_body = Inl e \<Longrightarrow> e = ValueError"
proof -
  have "foldl (\<lambda>acc f. rbind acc (\<lambda>s. duration_body s f)) (Inr d) fs \<noteq> Inl e'" for d fs e'
  proof (induction fs arbitrary: d)
    case (Cons f fs)
    show ?case using Cons.IH duration_body_Inr [of d f] by (cases "duration_body d f") auto
  qed simp
  then show "for_fields b (0, 0) duration_body = Inl e \<Longrightarrow> e = ValueError"
    by (auto simp: for_fields_def rbind_eq_Inl split: prod.splits if_splits)
qed

lemma first_delay_exn: "first_delay fs raised = Inl e \<Longrightarrow> e = ValueError"
proof (induction fs raised rule: first_delay.induct)
  case (2 num wt v fs raised)
  have "\<exists>x. delay_seconds d = Inr x" if "for_fields b (0, 0) duration_body = Inr d" for b d
    using for_duration_small [OF that] f64_of_int_total [of "fst d"] f64_of_int_total [of "snd d"]
    by (auto simp: delay_seconds_def small_duration_def split: prod.splits)
  with 2 for_duration_exn show ?case by (fastforce simp: rbind_eq_Inl split: fval.splits if_splits)
qed (auto split: if_splits)

lemma retry_after_total: "\<exists>d. retry_after e = Inr d"
proof -
  have "find_retry_delay ds \<noteq> Inl x" for ds x
    by (induction ds rule: find_retry_delay.induct)
      (auto simp: decode_retry_delay_def is_ValueError_def dest!: first_delay_exn split: sum.splits if_splits prod.splits)
  then show ?thesis unfolding retry_after_def by (metis sum.exhaust)
qed



section \<open>The reader finds what a protobuf writer wrote\<close>

fun enc_varint :: "nat \<Rightarrow> bytes" where
  "enc_varint n = (if n < 128 then [of_nat n] else of_nat (n mod 128 + 128) # enc_varint (n div 128))"

declare enc_varint.simps [simp del]

definition enc_len :: "nat \<Rightarrow> bytes \<Rightarrow> bytes" where
  "enc_len num b = enc_varint (num * 8 + 2) @ enc_varint (length b) @ b"

definition enc_uint :: "nat \<Rightarrow> nat \<Rightarrow> bytes" where
  "enc_uint num n = enc_varint (num * 8) @ enc_varint n"

lemma varint_enc_from:
  "n < 128 ^ Suc j \<Longrightarrow> 7 * k + 7 * j \<le> 63 \<Longrightarrow> varint (7 * k) out (enc_varint n @ r) = Inr (out + n * 2 ^ (7 * k), r)"
proof (induction j arbitrary: n k out)
  case 0
  then have "unat (of_nat n :: byte) = n" by (simp add: unat_byte_of_nat)
  with 0 show ?case by (simp add: enc_varint.simps [of n] Let_def)
next
  case (Suc j)
  show ?case
  proof (cases "n < 128")
    case True
    then have "unat (of_nat n :: byte) = n" by (simp add: unat_byte_of_nat)
    with True Suc(3) show ?thesis by (simp add: enc_varint.simps [of n] Let_def)
  next
    case False
    have u: "unat (of_nat (n mod 128 + 128) :: byte) = n mod 128 + 128"
      by (rule unat_byte_of_nat) (use mod_less_divisor [of 128 n] in linarith)
    have "n div 128 < 128 ^ Suc j" using Suc(2) by (simp add: div_less_iff_less_mult)
    then have "varint (7 * Suc k) (out + n mod 128 * 2 ^ (7 * k)) (enc_varint (n div 128) @ r) =
        Inr (out + n mod 128 * 2 ^ (7 * k) + n div 128 * 2 ^ (7 * Suc k), r)"
      using Suc(3) by (intro Suc.IH) simp_all
    moreover have "n mod 128 * P + n div 128 * (128 * P) = n * P" for P
      using div_mult_mod_eq [of n 128] by (metis add.commute distrib_right mult.assoc)
    then have "n mod 128 * 2 ^ (7 * k) + n div 128 * 2 ^ (7 * Suc k) = n * 2 ^ (7 * k)"
      by (simp add: power_add)
    ultimately show ?thesis using False Suc(3) u
      by (simp add: enc_varint.simps [of n] Let_def add.commute [of _ 7] add.assoc)
  qed
qed

lemma varint_enc: "n < 2 ^ 64 \<Longrightarrow> varint 0 0 (enc_varint n @ r) = Inr (n, r)"
  using varint_enc_from [of n 9 0 0 r] by simp

lemma enc_varint_nonempty: "enc_varint n \<noteq> []"
  by (simp add: enc_varint.simps [of n])

text \<open>The sizes a writer stays within.\<close>

definition small :: "bytes \<Rightarrow> bool" where
  "small b \<longleftrightarrow> length b < 2 ^ 64"

lemma pb_fields_nil [simp]: "pb_fields [] = ([], False)"
  by (simp add: pb_fields.simps [of "[]"])

lemma pb_fields_len:
  assumes "small b" "num < 16"
  shows "pb_fields (enc_len num b @ r) = ((num, 2, FBytes b) # fst (pb_fields r), snd (pb_fields r))"
proof -
  have "varint 0 0 (enc_len num b @ r) = Inr (num * 8 + 2, enc_varint (length b) @ b @ r)"
    using assms by (simp add: enc_len_def varint_enc)
  moreover have "field_value 2 (enc_varint (length b) @ b @ r) = Inr (FBytes b, r)"
    using assms by (simp add: field_value_def varint_enc small_def)
  moreover have "(num * 8 + 2) mod 8 = 2" "(num * 8 + 2) div 8 = num" by presburger+
  ultimately show ?thesis using enc_varint_nonempty
    by (subst pb_fields.simps) (simp add: enc_len_def split: prod.splits)
qed

lemma pb_fields_uint:
  assumes "n < 2 ^ 64" "num < 16"
  shows "pb_fields (enc_uint num n @ r) = ((num, 0, FInt n) # fst (pb_fields r), snd (pb_fields r))"
proof -
  have "varint 0 0 (enc_uint num n @ r) = Inr (num * 8, enc_varint n @ r)"
    using assms by (simp add: enc_uint_def varint_enc)
  moreover have "field_value 0 (enc_varint n @ r) = Inr (FInt n, r)"
    using assms by (simp add: field_value_def varint_enc)
  ultimately show ?thesis using enc_varint_nonempty
    by (subst pb_fields.simps) (simp add: enc_uint_def split: prod.splits)
qed

lemma for_fields_nil: "for_fields [] s body = Inr s"
  by (simp add: for_fields_def)

lemma foldl_rbind_Inl: "foldl (\<lambda>acc f. rbind acc (\<lambda>s. body s f)) (Inl e) fs = Inl e"
  by (induction fs) auto

lemma for_fields_len:
  "small b \<Longrightarrow> num < 16 \<Longrightarrow>
     for_fields (enc_len num b @ r) s body = rbind (body s (num, 2, FBytes b)) (\<lambda>s'. for_fields r s' body)"
  by (cases "body s (num, 2, FBytes b)") (auto simp: for_fields_def pb_fields_len foldl_rbind_Inl split: prod.splits)

lemma for_fields_uint:
  "n < 2 ^ 64 \<Longrightarrow> num < 16 \<Longrightarrow>
     for_fields (enc_uint num n @ r) s body = rbind (body s (num, 0, FInt n)) (\<lambda>s'. for_fields r s' body)"
  by (cases "body s (num, 0, FInt n)") (auto simp: for_fields_def pb_fields_uint foldl_rbind_Inl split: prod.splits)

lemmas for_written = for_fields_nil for_fields_len for_fields_len [where r = "[]", simplified]
  for_fields_uint for_fields_uint [where r = "[]", simplified]

text \<open>The messages of \<open>google.rpc\<close>, as a server writes them.\<close>

definition enc_any :: "bytes \<Rightarrow> bytes \<Rightarrow> bytes" where
  "enc_any type_url val = enc_len 3 (enc_len 1 type_url @ enc_len 2 val)"

fun enc_entries :: "(bytes \<times> bytes) list \<Rightarrow> bytes" where
  "enc_entries [] = []"
| "enc_entries ((k, v) # es) = enc_len 3 (enc_len 1 k @ enc_len 2 v) @ enc_entries es"

definition enc_error_info :: "bytes \<Rightarrow> bytes \<Rightarrow> (bytes \<times> bytes) list \<Rightarrow> bytes" where
  "enc_error_info reason domain md = enc_len 1 reason @ enc_len 2 domain @ enc_entries md"

text \<open>An unsigned 64-bit pattern for a signed number, as protobuf writes an \<open>int64\<close>.\<close>

definition pattern_64 :: "int \<Rightarrow> nat" where
  "pattern_64 n = nat (if n < 0 then n + 2 ^ 64 else n)"

definition enc_retry_info :: "int \<Rightarrow> int \<Rightarrow> bytes" where
  "enc_retry_info seconds nanos = enc_len 1 (enc_uint 1 (pattern_64 seconds) @ enc_uint 2 (pattern_64 nanos))"

definition enc_status :: "nat \<Rightarrow> bytes \<Rightarrow> (bytes \<times> bytes) list \<Rightarrow> bytes" where
  "enc_status code message details =
     enc_uint 1 code @ enc_len 2 message @ concat (map (\<lambda>(u, v). enc_any u v) details)"

lemma sign_pattern: "- (2 ^ 63) \<le> n \<Longrightarrow> n < 2 ^ 63 \<Longrightarrow> sign_64 (pattern_64 n) = n \<and> pattern_64 n < 2 ^ 64"
  by (auto simp: sign_64_def pattern_64_def)

lemma decode_written_delay:
  assumes "- (2 ^ 63) \<le> seconds" "seconds < 2 ^ 63" "- (2 ^ 63) \<le> nanos" "nanos < 2 ^ 63"
    "small (enc_uint 1 (pattern_64 seconds) @ enc_uint 2 (pattern_64 nanos))"
  shows "decode_retry_delay (enc_retry_info seconds nanos) = rbind (delay_seconds (seconds, nanos)) (\<lambda>x. Inr (Some x))"
proof -
  have "for_fields (enc_uint 1 (pattern_64 seconds) @ enc_uint 2 (pattern_64 nanos)) (0, 0) duration_body =
      Inr (seconds, nanos)"
    using sign_pattern [OF assms(1,2)] sign_pattern [OF assms(3,4)]
    by (simp add: for_written duration_body_def)
  then show ?thesis
    using pb_fields_len [OF assms(5), of 1 "[]"]
    by (simp add: decode_retry_delay_def enc_retry_info_def)
qed

lemma entries_read:
  assumes "list_all2 (\<lambda>(k, v) (kb, vb). utf8_decode kb = Inr k \<and> utf8_decode vb = Inr v) md mdb"
    "list_all (\<lambda>(kb, vb). small kb \<and> small vb \<and> small (enc_len 1 kb @ enc_len 2 vb)) mdb"
    "distinct (map fst acc @ map fst md)"
  shows "for_fields (enc_entries mdb) (reason, domain, acc) error_info_body = Inr (reason, domain, acc @ md)"
  using assms
proof (induction arbitrary: acc rule: list_all2_induct)
  case (Cons e md b mdb)
  obtain k v kb vb where e: "e = (k, v)" "b = (kb, vb)" by (cases e; cases b)
  have upd: "AList.update k v acc = acc @ [(k, v)]"
    using Cons.prems(2) e by (induction acc) (auto split: if_splits)
  have "for_fields (enc_len 1 kb @ enc_len 2 vb) ([], []) entry_body = Inr (k, v)"
    using Cons.hyps(1) Cons.prems(1) e by (simp add: for_written entry_body_def)
  moreover have "for_fields (enc_entries mdb) (reason, domain, acc @ [(k, v)]) error_info_body =
      Inr (reason, domain, (acc @ [(k, v)]) @ md)"
    by (rule Cons.IH) (use Cons.prems e in auto)
  ultimately show ?case using Cons.prems(1) e upd by (simp add: for_written error_info_body_def)
qed (simp add: for_written)

lemma decode_written_info:
  assumes "utf8_decode rb = Inr reason" "utf8_decode db = Inr domain" "small rb" "small db"
    "list_all2 (\<lambda>(k, v) (kb, vb). utf8_decode kb = Inr k \<and> utf8_decode vb = Inr v) md mdb"
    "list_all (\<lambda>(kb, vb). small kb \<and> small vb \<and> small (enc_len 1 kb @ enc_len 2 vb)) mdb"
    "distinct (map fst md)"
  shows "decode_error_info (enc_error_info rb db mdb) = Inr (reason, domain, md)"
  using assms(1-4) entries_read [OF assms(5,6), of "[]"] assms(7)
  by (simp add: decode_error_info_def enc_error_info_def for_written error_info_body_def)

lemma status_read:
  assumes "list_all2 (\<lambda>(u, v) (ub, vb). utf8_decode ub = Inr u \<and> v = vb) details detailsb"
    "list_all (\<lambda>(ub, vb). small ub \<and> small vb \<and> small (enc_len 1 ub @ enc_len 2 vb)) detailsb"
  shows "for_fields (concat (map (\<lambda>(u, v). enc_any u v) detailsb)) out status_body = Inr (out @ details)"
  using assms
proof (induction arbitrary: out rule: list_all2_induct)
  case (Cons e ds b dbs)
  obtain u v ub where e: "e = (u, v)" "b = (ub, v)" using Cons.hyps(1) by (cases e; cases b) auto
  have "for_fields (enc_len 1 ub @ enc_len 2 v) ([], []) any_body = Inr (u, v)"
    using Cons.hyps(1) Cons.prems e by (simp add: for_written any_body_def)
  with Cons.IH [of "out @ [(u, v)]"] Cons.prems e show ?case
    by (simp add: enc_any_def for_written status_body_def)
qed (simp add: for_written)

text \<open>A Seam refusal as the runtime writes it into the trailing metadata: a \<open>google.rpc.Status\<close> with an
  \<open>ErrorInfo\<close> of the Seam domain and a \<open>RetryInfo\<close>.\<close>

definition encode_pair :: "ustr \<times> ustr \<Rightarrow> (bytes \<times> bytes) res" where
  "encode_pair = (\<lambda>(k, v). rbind (utf8_encode k) (\<lambda>kb. rbind (utf8_encode v) (\<lambda>vb. Inr (kb, vb))))"

definition write_refusal :: "nat \<Rightarrow> bytes \<Rightarrow> ustr \<Rightarrow> (ustr \<times> ustr) list \<Rightarrow> int \<Rightarrow> int \<Rightarrow> bytes res" where
  "write_refusal code message reason md seconds nanos =
     rbind (utf8_encode reason) (\<lambda>rb.
     rbind (mapR encode_pair md) (\<lambda>mdb.
     Inr (enc_status code message
       [(bstr ''type.googleapis.com/google.rpc.ErrorInfo'', enc_error_info rb (bstr ''seam.zer07labs.com'') mdb),
        (bstr ''type.googleapis.com/google.rpc.RetryInfo'', enc_retry_info seconds nanos)])))"

lemma utf8_decode_bstr: "list_all (\<lambda>c. c < (0x80 :: nat)) (map of_char s) \<Longrightarrow> utf8_decode (bstr s) = Inr (ustr s)"
proof -
  assume "list_all (\<lambda>c. c < (0x80 :: nat)) (map of_char s)"
  then have "utf8_encode (ustr s) = Inr (map of_nat (ustr s))"
    by (intro utf8_encode_ascii) (auto simp: ustr_def list_all_iff)
  moreover have "(of_nat (of_char c) :: byte) = of_char c" for c by (cases c) simp
  then have "map of_nat (ustr s) = bstr s" by (simp add: ustr_def bstr_def)
  ultimately show ?thesis using utf8_decode_encode by metis
qed

lemma encode_pairs:
  "mapR encode_pair md = Inr mdb \<Longrightarrow>
     list_all2 (\<lambda>(k, v) (kb, vb). utf8_decode kb = Inr k \<and> utf8_decode vb = Inr v) md mdb"
proof (induction md arbitrary: mdb)
  case (Cons e md)
  from Cons.prems obtain p ps where p: "encode_pair e = Inr p" "mapR encode_pair md = Inr ps" "mdb = p # ps"
    by (auto simp: rbind_eq_Inr)
  then have "(case e of (k, v) \<Rightarrow> \<lambda>(kb, vb). utf8_decode kb = Inr k \<and> utf8_decode vb = Inr v) p"
    by (auto simp: encode_pair_def rbind_eq_Inr utf8_decode_encode)
  with Cons.IH p show ?case by simp
qed simp

lemma entries_small:
  "length (enc_entries mdb) < n \<Longrightarrow> list_all (\<lambda>(kb, vb). length (enc_len 1 kb @ enc_len 2 vb) < n) mdb"
  by (induction mdb rule: enc_entries.induct) (auto simp: enc_len_def)

lemma written_small:
  assumes "length (enc_status code message [(u1, enc_error_info rb db mdb), (u2, enc_retry_info seconds nanos)]) < 2 ^ 64"
  shows "small message" "small rb" "small db" "small u1" "small u2"
    "list_all (\<lambda>(kb, vb). small kb \<and> small vb \<and> small (enc_len 1 kb @ enc_len 2 vb)) mdb"
    "small (enc_uint 1 (pattern_64 seconds) @ enc_uint 2 (pattern_64 nanos))"
    "list_all (\<lambda>(ub, vb). small ub \<and> small vb \<and> small (enc_len 1 ub @ enc_len 2 vb))
       [(u1, enc_error_info rb db mdb), (u2, enc_retry_info seconds nanos)]"
proof -
  have l: "length b \<le> length (enc_len num b)" for num b by (simp add: enc_len_def)
  have tot: "length message < 2 ^ 64"
    "length (enc_len 1 u1 @ enc_len 2 (enc_error_info rb db mdb)) < 2 ^ 64"
    "length (enc_len 1 u2 @ enc_len 2 (enc_retry_info seconds nanos)) < 2 ^ 64"
    using assms l [of message 2] l [of "enc_len 1 u1 @ enc_len 2 (enc_error_info rb db mdb)" 3]
      l [of "enc_len 1 u2 @ enc_len 2 (enc_retry_info seconds nanos)" 3]
    by (simp_all add: enc_status_def enc_any_def)
  then have v: "length u1 < 2 ^ 64" "length u2 < 2 ^ 64" "length (enc_error_info rb db mdb) < 2 ^ 64"
    "length (enc_retry_info seconds nanos) < 2 ^ 64"
    using l [of u1 1] l [of u2 1] l [of "enc_error_info rb db mdb" 2] l [of "enc_retry_info seconds nanos" 2] by simp_all
  then have w: "length rb < 2 ^ 64" "length db < 2 ^ 64" "length (enc_entries mdb) < 2 ^ 64"
    using l [of rb 1] l [of db 2] by (simp_all add: enc_error_info_def)
  have "length kb < 2 ^ 64 \<and> length vb < 2 ^ 64" if "length (enc_len 1 kb @ enc_len 2 vb) < 2 ^ 64" for kb vb
    using that l [of kb 1] l [of vb 2] by simp
  with entries_small [OF w(3)]
  show "list_all (\<lambda>(kb, vb). small kb \<and> small vb \<and> small (enc_len 1 kb @ enc_len 2 vb)) mdb"
    by (fastforce simp: list_all_iff small_def)
  show "small message" "small rb" "small db" "small u1" "small u2" using tot v w by (simp_all add: small_def)
  show "list_all (\<lambda>(ub, vb). small ub \<and> small vb \<and> small (enc_len 1 ub @ enc_len 2 vb))
       [(u1, enc_error_info rb db mdb), (u2, enc_retry_info seconds nanos)]"
    using tot v by (simp add: small_def)
  show "small (enc_uint 1 (pattern_64 seconds) @ enc_uint 2 (pattern_64 nanos))"
    using v(4) l [of "enc_uint 1 (pattern_64 seconds) @ enc_uint 2 (pattern_64 nanos)" 1]
    by (simp add: enc_retry_info_def small_def)
qed

lemma refusal_read:
  assumes "write_refusal code message reason md seconds nanos = Inr payload"
    and "length payload < 2 ^ 64" and "code < 2 ^ 64" and "distinct (map fst md)"
    and "- (2 ^ 63) \<le> seconds" "seconds < 2 ^ 63" "- (2 ^ 63) \<le> nanos" "nanos < 2 ^ 63"
    and "lower_ascii k = STATUS_DETAILS_KEY"
  shows "\<exists>e x. map_rpc_error (Untyped \<lparr>raw_code = Returns (Some c), raw_details = Returns d,
       raw_trailing = Returns (RawItems [Pair (MText k) (MBytes payload)])\<rparr>) = Inr e \<and>
     e_class e = by_code c \<and> e_code e = c \<and> reason_of e = Some reason \<and> error_metadata e = Some md \<and>
     delay_seconds (seconds, nanos) = Inr x \<and> retry_after e = Inr (Some x)"
proof -
  let ?u1 = "bstr ''type.googleapis.com/google.rpc.ErrorInfo''" and ?u2 = "bstr ''type.googleapis.com/google.rpc.RetryInfo''"
  let ?db = "bstr ''seam.zer07labs.com''"
  obtain rb mdb where rb: "utf8_encode reason = Inr rb" and mdb: "mapR encode_pair md = Inr mdb"
    and payload: "payload = enc_status code message [(?u1, enc_error_info rb ?db mdb), (?u2, enc_retry_info seconds nanos)]"
    using assms(1) by (auto simp: write_refusal_def rbind_eq_Inr)
  note sm = written_small [OF assms(2) [unfolded payload]]
  have dec: "utf8_decode ?u1 = Inr ERROR_INFO_TYPE" "utf8_decode ?u2 = Inr RETRY_INFO_TYPE"
    "utf8_decode ?db = Inr SEAM_ERROR_DOMAIN"
    unfolding ERROR_INFO_TYPE_def RETRY_INFO_TYPE_def SEAM_ERROR_DOMAIN_def by (rule utf8_decode_bstr; simp)+
  have info: "decode_error_info (enc_error_info rb ?db mdb) = Inr (reason, SEAM_ERROR_DOMAIN, md)"
    using decode_written_info [OF _ dec(3) sm(2,3) encode_pairs [OF mdb] sm(6) assms(4)] rb utf8_decode_encode by blast
  have "\<bar>seconds\<bar> < 2 ^ 71" "\<bar>nanos\<bar> < 2 ^ 71" using assms(5-8) by simp_all
  then obtain x where x: "delay_seconds (seconds, nanos) = Inr x"
    using f64_of_int_total [of seconds] f64_of_int_total [of nanos] by (auto simp: delay_seconds_def)
  have delay: "decode_retry_delay (enc_retry_info seconds nanos) = Inr (Some x)"
    using decode_written_delay [OF assms(5-8) sm(7)] x by simp
  have "list_all2 (\<lambda>(u, v) (ub, vb). utf8_decode ub = Inr u \<and> v = vb)
      [(ERROR_INFO_TYPE, enc_error_info rb ?db mdb), (RETRY_INFO_TYPE, enc_retry_info seconds nanos)]
      [(?u1, enc_error_info rb ?db mdb), (?u2, enc_retry_info seconds nanos)]" using dec by simp
  from status_read [OF this sm(8), of "[]"]
  have "for_fields payload [] status_body =
      Inr [(ERROR_INFO_TYPE, enc_error_info rb ?db mdb), (RETRY_INFO_TYPE, enc_retry_info seconds nanos)]"
    unfolding payload enc_status_def using assms(3) sm(1) by (simp add: for_written status_body_def)
  moreover have "ERROR_INFO_TYPE \<noteq> RETRY_INFO_TYPE" by (simp add: ERROR_INFO_TYPE_def RETRY_INFO_TYPE_def ustr_def)
  ultimately show ?thesis
    using info delay x assms(9)
    by (cases d) (simp_all add: map_rpc_error_def seam_rpc_error_def normalized_trailing_metadata_def
      reason_of_def error_metadata_def seam_error_info_def retry_after_def status_details_def)
qed


lemma example_refusal:
  "\<exists>payload. write_refusal 14 [] (ustr ''SESSION_UNAVAILABLE'') [(ustr ''a'', ustr ''b'')] 1 500000000 = Inr payload \<and>
     length payload < 2 ^ 64"
  by (simp add: write_refusal_def encode_pair_def utf8_encode_def utf8_cp_def ustr_def enc_status_def enc_any_def
      enc_error_info_def enc_retry_info_def enc_len_def enc_uint_def pattern_64_def enc_varint.simps)


lemma example_retryable: "\<exists>e. is_retryable (RpcErr e)"
proof -
  obtain payload where p: "write_refusal 14 [] (ustr ''SESSION_UNAVAILABLE'') [(ustr ''a'', ustr ''b'')] 1 500000000 = Inr payload"
    "length payload < 2 ^ 64" using example_refusal by blast
  have k: "lower_ascii STATUS_DETAILS_KEY = STATUS_DETAILS_KEY"
    by (simp add: lower_ascii_def STATUS_DETAILS_KEY_def ustr_def)
  from refusal_read [OF p _ _ _ _ _ _ k, of UNAVAILABLE None] show ?thesis
    by (fastforce simp: is_retryable_def is_session_unavailable_def by_code_def SESSION_UNAVAILABLE_REASON_def)
qed

section \<open>Which refusals are retryable\<close>

lemma map_rpc_error_class: "map_rpc_error (Untyped x) = Inr e \<Longrightarrow> e_class e = by_code (e_code e)"
  by (auto simp: map_rpc_error_def rbind_eq_Inr seam_rpc_error_def Let_def)

lemma reasons_distinct:
  "SESSION_UNAVAILABLE_REASON \<noteq> TENANT_MOVING_REASON" "WRONG_CELL_REASON \<noteq> TENANT_MOVING_REASON"
  by (simp_all add: SESSION_UNAVAILABLE_REASON_def TENANT_MOVING_REASON_def WRONG_CELL_REASON_def ustr_def)

text \<open>C33: A raw gRPC error is retryable, once mapped, exactly when the server answered UNAVAILABLE with
  SESSION_UNAVAILABLE or FAILED_PRECONDITION with TENANT_MOVING; a WRONG_CELL refusal never is;
  and mapping an error that is already typed changes nothing.\<close>

theorem retryable_refusals:
  assumes "map_rpc_error (Untyped x) = Inr e"
  shows "(is_retryable (RpcErr e) \<longleftrightarrow>
      e_code e = UNAVAILABLE \<and> reason_of e = Some SESSION_UNAVAILABLE_REASON \<or>
      e_code e = FAILED_PRECONDITION \<and> reason_of e = Some TENANT_MOVING_REASON) \<and>
    \<not> (is_wrong_cell (RpcErr e) \<and> is_retryable (RpcErr e)) \<and>
    map_rpc_error (Typed e) = Inr e"
proof (intro conjI)
  have c: "by_code (e_code e) = UnavailableError \<longleftrightarrow> e_code e = UNAVAILABLE"
    "by_code (e_code e) = FailedPreconditionError \<longleftrightarrow> e_code e = FAILED_PRECONDITION"
    by (cases "e_code e"; simp add: by_code_def)+
  show "is_retryable (RpcErr e) \<longleftrightarrow>
      e_code e = UNAVAILABLE \<and> reason_of e = Some SESSION_UNAVAILABLE_REASON \<or>
      e_code e = FAILED_PRECONDITION \<and> reason_of e = Some TENANT_MOVING_REASON"
    using c map_rpc_error_class [OF assms]
    by (auto simp: is_retryable_def is_session_unavailable_def is_tenant_moving_def)
  show "\<not> (is_wrong_cell (RpcErr e) \<and> is_retryable (RpcErr e))"
    using reasons_distinct
    by (auto simp: is_retryable_def is_session_unavailable_def is_tenant_moving_def is_wrong_cell_def)
  show "map_rpc_error (Typed e) = Inr e" by (simp add: map_rpc_error_def)
qed

theorem retryable_refusals_witness:
  "\<exists>e. map_rpc_error (Untyped \<lparr>raw_code = Returns (Some UNAVAILABLE), raw_details = NoAccessor, raw_trailing = NoAccessor\<rparr>) = Inr e \<and>
     e_code e = UNAVAILABLE \<and> \<not> is_retryable (RpcErr e)"
proof -
  let ?x = "\<lparr>raw_code = Returns (Some UNAVAILABLE), raw_details = NoAccessor, raw_trailing = NoAccessor\<rparr>"
  obtain e where e: "map_rpc_error (Untyped ?x) = Inr e" "e_code e = UNAVAILABLE" "reason_of e = None"
    by (simp add: map_rpc_error_def seam_rpc_error_def normalized_trailing_metadata_def reason_of_def
        seam_error_info_def status_details_def)
  with retryable_refusals [OF e(1)] show ?thesis by simp
qed

end
