(* ===== verification/Retry.thy ===== *)
theory Retry
  imports Errors
begin

text \<open>
  The opt-in retry loop (\<open>retry.py\<close>). The callable, the random source and the sleep are the
  environment: \<open>call n\<close> is the outcome of the \<open>n\<close>-th attempt, \<open>rng n\<close> the number drawn after it, and
  \<open>sleep d\<close> what sleeping for \<open>d\<close> raises, if anything. All delays are Python floats. The loop returns
  its outcome together with the delays it slept. The lemmas show that it ends, how many calls it
  makes, that its waiting stays within the budget, what it raises, and when it succeeds.
\<close>

section \<open>Definitions\<close>

record retry_policy =
  budget_s :: f64
  base_delay_s :: f64
  max_delay_s :: f64
  max_attempts :: int

text \<open>40.0, 0.25, 8.0 and 10.\<close>

definition default_policy :: retry_policy where
  "default_policy =
     \<lparr>budget_s = 0x4044000000000000, base_delay_s = 0x3FD0000000000000,
      max_delay_s = 0x4020000000000000, max_attempts = 10\<rparr>"

text \<open>\<open>x or 0.0\<close>.\<close>

definition or_zero :: "f64 option \<Rightarrow> f64" where
  "or_zero x = (case x of None \<Rightarrow> 0 | Some d \<Rightarrow> if f64_zero d then 0 else d)"

text \<open>\<open>base * 2 ** (attempt - 1)\<close>: the power is an int, converted to a float for the product.\<close>

definition next_delay :: "retry_policy \<Rightarrow> sdk_exn \<Rightarrow> nat \<Rightarrow> f64 \<Rightarrow> f64 \<Rightarrow> f64 option sres" where
  "next_delay pol exc attempt waited draw =
     (if \<not> is_retryable exc \<or> int attempt \<ge> max_attempts pol then Inr None
      else
        rbind (case exc of RpcErr e \<Rightarrow> (case retry_after e of Inl x \<Rightarrow> Inl (Builtin x) | Inr d \<Rightarrow> Inr d)
               | _ \<Rightarrow> Inr None) (\<lambda>ra.
        rbind (case f64_of_int (2 ^ (attempt - 1)) of Inl x \<Rightarrow> Inl (Builtin x) | Inr p \<Rightarrow> Inr p) (\<lambda>p.
        let delay = f64_add (or_zero ra)
                      (f64_mul draw (f64_min (max_delay_s pol) (f64_mul (base_delay_s pol) p)))
        in if f64_lt (budget_s pol) (f64_add waited delay) then Inr None else Inr (Some delay))))"

text \<open>\<open>time.sleep\<close>: a negative or NaN delay raises.\<close>

definition time_sleep :: "f64 \<Rightarrow> sdk_exn option" where
  "time_sleep d = (if f64_isnan d \<or> f64_lt d 0 then Some (Builtin ValueError) else None)"

lemma next_delay_attempt: "next_delay pol exc attempt waited draw = Inr (Some d) \<Longrightarrow> int attempt < max_attempts pol"
  by (auto simp: next_delay_def split: if_splits)

text \<open>The loop from attempt \<open>n\<close> on, with what it has waited so far. The result: the outcome, the number of
  calls made, and the delays slept.\<close>

function retry_from ::
    "retry_policy \<Rightarrow> (nat \<Rightarrow> 'a sres) \<Rightarrow> (nat \<Rightarrow> f64) \<Rightarrow> (f64 \<Rightarrow> sdk_exn option) \<Rightarrow> nat \<Rightarrow> f64 \<Rightarrow>
       'a sres \<times> nat \<times> f64 list" where
  "retry_from pol call rng sleep attempt waited =
     (case call attempt of
        Inr x \<Rightarrow> (Inr x, attempt, [])
      | Inl exc \<Rightarrow>
          (case next_delay pol exc attempt waited (rng attempt) of
             Inl e \<Rightarrow> (Inl e, attempt, [])
           | Inr None \<Rightarrow> (Inl exc, attempt, [])
           | Inr (Some delay) \<Rightarrow>
               (case sleep delay of
                  Some e \<Rightarrow> (Inl e, attempt, [])
                | None \<Rightarrow>
                    (let (r, n, ds) = retry_from pol call rng sleep (attempt + 1) (f64_add waited delay)
                     in (r, n, delay # ds)))))"
  by pat_completeness auto
termination
  by (relation "measure (\<lambda>(pol, call, rng, sleep, attempt, waited). nat (max_attempts pol - int attempt))")
    (auto dest: next_delay_attempt)

declare retry_from.simps [simp del]

definition with_session_retry ::
    "retry_policy \<Rightarrow> (nat \<Rightarrow> 'a sres) \<Rightarrow> (nat \<Rightarrow> f64) \<Rightarrow> (f64 \<Rightarrow> sdk_exn option) \<Rightarrow> 'a sres \<times> nat \<times> f64 list" where
  "with_session_retry pol call rng sleep = retry_from pol call rng sleep 1 0"

text \<open>The asynchronous twin, written out in the source a second time with \<open>await\<close> before the call and
  the sleep.\<close>

function retry_async_from ::
    "retry_policy \<Rightarrow> (nat \<Rightarrow> 'a sres) \<Rightarrow> (nat \<Rightarrow> f64) \<Rightarrow> (f64 \<Rightarrow> sdk_exn option) \<Rightarrow> nat \<Rightarrow> f64 \<Rightarrow>
       f64 list \<Rightarrow> 'a sres \<times> nat \<times> f64 list" where
  "retry_async_from pol call rng sleep attempt waited slept =
     (case call attempt of
        Inr x \<Rightarrow> (Inr x, attempt, slept)
      | Inl exc \<Rightarrow>
          (case next_delay pol exc attempt waited (rng attempt) of
             Inl e \<Rightarrow> (Inl e, attempt, slept)
           | Inr None \<Rightarrow> (Inl exc, attempt, slept)
           | Inr (Some delay) \<Rightarrow>
               (case sleep delay of
                  Some e \<Rightarrow> (Inl e, attempt, slept)
                | None \<Rightarrow>
                    retry_async_from pol call rng sleep (attempt + 1) (f64_add waited delay) (slept @ [delay]))))"
  by pat_completeness auto
termination
  by (relation "measure (\<lambda>(pol, call, rng, sleep, attempt, waited, slept). nat (max_attempts pol - int attempt))")
    (auto dest: next_delay_attempt)

declare retry_async_from.simps [simp del]

definition with_session_retry_async ::
    "retry_policy \<Rightarrow> (nat \<Rightarrow> 'a sres) \<Rightarrow> (nat \<Rightarrow> f64) \<Rightarrow> (f64 \<Rightarrow> sdk_exn option) \<Rightarrow> 'a sres \<times> nat \<times> f64 list" where
  "with_session_retry_async pol call rng sleep = retry_async_from pol call rng sleep 1 0 []"

section \<open>One step of the loop\<close>

text \<open>Either the loop ends at this attempt without sleeping, or it sleeps and goes on.\<close>

lemma retry_step:
  obtains (stop) r where "retry_from pol call rng sleep attempt waited = (r, attempt, [])"
      "r = call attempt \<or> (\<exists>exc. call attempt = Inl exc \<and> is_retryable exc \<and>
         ((\<exists>e. next_delay pol exc attempt waited (rng attempt) = Inl e \<and> r = Inl e) \<or>
          (\<exists>e d. next_delay pol exc attempt waited (rng attempt) = Inr (Some d) \<and> sleep d = Some e \<and> r = Inl e)))"
  | (go) exc d where "call attempt = Inl exc" "next_delay pol exc attempt waited (rng attempt) = Inr (Some d)"
      "sleep d = None" "retry_from pol call rng sleep attempt waited =
        (let (r, n, ds) = retry_from pol call rng sleep (attempt + 1) (f64_add waited d) in (r, n, d # ds))"
proof (cases "call attempt")
  case (Inr x)
  then have "retry_from pol call rng sleep attempt waited = (Inr x, attempt, [])"
    by (simp add: retry_from.simps [of pol call rng sleep attempt])
  from stop [OF this] Inr show ?thesis by simp
next
  case (Inl exc)
  note c = Inl retry_from.simps [of pol call rng sleep attempt]
  show ?thesis
  proof (cases "next_delay pol exc attempt waited (rng attempt)")
    case (Inl e)
    then have "is_retryable exc" by (auto simp: next_delay_def split: if_splits)
    with Inl c show ?thesis by (intro stop) auto
  next
    case (Inr od)
    show ?thesis
    proof (cases od)
      case None
      with Inr c show ?thesis by (intro stop) simp_all
    next
      case (Some d)
      with Inr have "is_retryable exc" by (auto simp: next_delay_def split: if_splits)
      show ?thesis
      proof (cases "sleep d")
        case None
        with Inr Some c show ?thesis by (intro go) simp_all
      next
        case (Some e)
        with Inr \<open>od = Some d\<close> c \<open>is_retryable exc\<close> show ?thesis by (intro stop) auto
      qed
    qed
  qed
qed

lemma next_delay_Some:
  assumes "next_delay pol exc attempt waited draw = Inr (Some d)"
  shows "is_retryable exc" "int attempt < max_attempts pol" "\<not> f64_lt (budget_s pol) (f64_add waited d)"
  using assms by (auto simp: next_delay_def Let_def rbind_eq_Inr split: if_splits)

section \<open>Bounds\<close>

lemma retry_from_bounds:
  "retry_from pol call rng sleep attempt waited = (r, n, ds) \<Longrightarrow>
     n = attempt + length ds \<and> int n \<le> max (int attempt) (max_attempts pol) \<and>
     (\<forall>k < length ds. \<not> f64_lt (budget_s pol) (foldl f64_add waited (take (Suc k) ds))) \<and>
     (\<forall>k < length ds. sleep (ds ! k) = None) \<and>
     (\<forall>i. attempt \<le> i \<longrightarrow> i < n \<longrightarrow> (\<exists>exc. call i = Inl exc \<and> is_retryable exc))"
proof (induction pol call rng sleep attempt waited arbitrary: r n ds rule: retry_from.induct)
  case (1 pol call rng sleep attempt waited)
  show ?case
  proof (cases rule: retry_step [of pol call rng sleep attempt waited])
    case (stop r')
    with 1(2) show ?thesis by auto
  next
    case (go exc d)
    obtain n' ds' where rest: "retry_from pol call rng sleep (attempt + 1) (f64_add waited d) = (r, n, ds')"
      "ds = d # ds'" using go(4) 1(2) by (auto split: prod.splits)
    note IH = 1(1) [OF go(1,2) refl go(3) rest(1)]
    note nd = next_delay_Some [OF go(2)]
    have "\<not> f64_lt (budget_s pol) (foldl f64_add waited (take (Suc k) ds))" if "k < length ds" for k
      using IH nd(3) that rest(2) by (cases k) auto
    moreover have "sleep (ds ! k) = None" if "k < length ds" for k
      using IH go(3) that rest(2) by (cases k) auto
    moreover have "\<exists>exc. call i = Inl exc \<and> is_retryable exc" if "attempt \<le> i" "i < n" for i
      using IH go(1) nd(1) that by (cases "i = attempt") auto
    ultimately show ?thesis using IH nd(2) rest(2) by auto
  qed
qed

text \<open>C15: The retry loop is bounded. It ends; it makes at least one call and at most \<open>max_attempts\<close>; it
  re-invokes only after a retryable refusal; it sleeps once between two calls; and after every
  sleep the float sum of what it has waited does not exceed the budget.\<close>

theorem retry_bounded:
  assumes "with_session_retry pol call rng sleep = (r, n, ds)"
  shows "n = Suc (length ds) \<and> int n \<le> max 1 (max_attempts pol) \<and>
    (\<forall>k < length ds. \<not> f64_lt (budget_s pol) (foldl f64_add 0 (take (Suc k) ds))) \<and>
    (\<forall>i. 1 \<le> i \<longrightarrow> i < n \<longrightarrow> (\<exists>exc. call i = Inl exc \<and> is_retryable exc))"
  using retry_from_bounds [OF assms [unfolded with_session_retry_def]] by auto

section \<open>What the loop returns\<close>

lemma f64_of_int_pow2: "j \<le> 1023 \<Longrightarrow> \<exists>x. f64_of_int (2 ^ j) = Inr x"
proof -
  assume j: "j \<le> 1023"
  let ?a = "nat \<bar>2 ^ j\<bar>"
  have a: "?a = 2 ^ j" by (simp add: nat_power_eq)
  have b: "bit_length (2 ^ j) = Suc j"
  proof (induction j)
    case 0
    show ?case by (simp add: bit_length.simps)
  next
    case (Suc j)
    then show ?case by (subst bit_length.simps) simp
  qed
  have m: "(if Suc j \<le> 53 then 2 ^ j * 2 ^ (53 - Suc j) else round_half_even (2 ^ j) (2 ^ (Suc j - 53))) = (2::nat) ^ 52"
  proof (cases "Suc j \<le> 53")
    case True
    then have "j + (53 - Suc j) = 52" by simp
    then have "(2::nat) ^ j * 2 ^ (53 - Suc j) = 2 ^ 52" by (simp only: power_add [symmetric])
    with True show ?thesis by simp
  next
    case False
    then have "52 + (Suc j - 53) = j" by simp
    then have "(2::nat) ^ j = 2 ^ 52 * 2 ^ (Suc j - 53)" by (simp only: power_add [symmetric])
    then have "round_half_even (2 ^ j) (2 ^ (Suc j - 53)) = 2 ^ 52" by (simp add: round_half_even_def)
    with False show ?thesis by simp
  qed
  have "f64_bits_of_nat (2 ^ j) = (Suc j + 1021) * 2 ^ 52 + 2 ^ 52"
    using m unfolding f64_bits_of_nat_def b Let_def by simp
  moreover have "(Suc j + 1021) * 2 ^ 52 + 2 ^ 52 < 2047 * (2::nat) ^ 52" using j by simp
  ultimately show ?thesis using j b unfolding f64_of_int_def a Let_def by simp
qed

lemma next_delay_no_raise:
  assumes "max_attempts pol \<le> 1024"
  shows "\<exists>od. next_delay pol exc attempt waited draw = Inr od"
proof (cases "\<not> is_retryable exc \<or> int attempt \<ge> max_attempts pol")
  case True
  then show ?thesis by (simp add: next_delay_def)
next
  case False
  then have "attempt - 1 \<le> 1023" using assms by linarith
  then obtain p where p: "f64_of_int (2 ^ (attempt - 1)) = Inr p" using f64_of_int_pow2 by blast
  obtain e where e: "exc = RpcErr e"
    using False by (cases exc) (auto simp: is_retryable_def is_session_unavailable_def is_tenant_moving_def)
  obtain d where "retry_after e = Inr d" using retry_after_total by blast
  with p e show ?thesis by (auto simp: next_delay_def Let_def)
qed

lemma retry_from_result:
  assumes "\<forall>d. sleep d = None" "max_attempts pol \<le> 1024"
  shows "retry_from pol call rng sleep attempt waited = (r, n, ds) \<Longrightarrow> r = call n"
  using assms
proof (induction pol call rng sleep attempt waited arbitrary: r n ds rule: retry_from.induct)
  case (1 pol call rng sleep attempt waited)
  show ?case
  proof (cases rule: retry_step [of pol call rng sleep attempt waited])
    case (stop r')
    have "next_delay pol exc attempt waited (rng attempt) \<noteq> Inl e" for exc e
      using next_delay_no_raise [OF 1(4), of exc attempt waited "rng attempt"] by auto
    with stop 1(2,3) show ?thesis by auto
  next
    case (go exc d)
    obtain ds' where rest: "retry_from pol call rng sleep (attempt + 1) (f64_add waited d) = (r, n, ds')"
      using go(4) 1(2) by (auto split: prod.splits)
    show ?thesis by (rule 1(1) [OF go(1,2) refl go(3) rest 1(3,4)])
  qed
qed

text \<open>The loop's outcome is, unchanged, the outcome of its last call: the value it returned, or the
  very exception it raised. (The sleep is assumed not to raise, and \<open>max_attempts\<close> not to reach
  the power of two a float cannot hold.)\<close>

theorem retry_raises_last_error:
  assumes "\<forall>d. sleep d = None" and "max_attempts pol \<le> 1024"
    and "with_session_retry pol call rng sleep = (r, n, ds)"
  shows "r = call n"
  by (rule retry_from_result [OF assms(1,2) assms(3) [unfolded with_session_retry_def]])

lemma retry_from_succeeds:
  assumes "\<forall>d. sleep d = None" "max_attempts pol \<le> 1024" "\<forall>x. \<not> f64_lt (budget_s pol) x"
    "call k = Inr v"
  shows "attempt \<le> k \<Longrightarrow> int k \<le> max_attempts pol \<Longrightarrow>
    \<forall>i. attempt \<le> i \<longrightarrow> i < k \<longrightarrow> (\<exists>exc. call i = Inl exc \<and> is_retryable exc) \<Longrightarrow>
    \<exists>ds. retry_from pol call rng sleep attempt waited = (Inr v, k, ds)"
proof (induction "k - attempt" arbitrary: attempt waited)
  case 0
  then have "attempt = k" by simp
  then show ?case using assms(4) by (simp add: retry_from.simps [of pol call rng sleep k])
next
  case (Suc m)
  then obtain exc where exc: "call attempt = Inl exc" "is_retryable exc" by (metis order_refl zero_less_Suc zero_less_diff)
  obtain od where od: "next_delay pol exc attempt waited (rng attempt) = Inr od"
    using next_delay_no_raise [OF assms(2)] by blast
  have lt: "int attempt < max_attempts pol" using Suc by linarith
  obtain d where d: "od = Some d"
    using od exc(2) lt assms(3) by (auto simp: next_delay_def Let_def rbind_eq_Inr)
  have "\<exists>ds. retry_from pol call rng sleep (attempt + 1) (f64_add waited d) = (Inr v, k, ds)"
    by (rule Suc.hyps(1)) (use Suc in auto)
  with exc od d assms(1) show ?case by (auto simp: retry_from.simps [of pol call rng sleep attempt])
qed


section \<open>The asynchronous twin\<close>

lemma retry_async_from_eq:
  "retry_async_from pol call rng sleep attempt waited slept =
     (let (r, n, ds) = retry_from pol call rng sleep attempt waited in (r, n, slept @ ds))"
proof (induction pol call rng sleep attempt waited slept rule: retry_async_from.induct)
  case (1 pol call rng sleep attempt waited slept)
  note simps = retry_async_from.simps [of pol call rng sleep attempt waited slept]
    retry_from.simps [of pol call rng sleep attempt waited]
  from 1 show ?case unfolding simps by (auto split: sum.split option.split prod.split)
qed

text \<open>C35: The asynchronous retry loop does what the synchronous one does: on the same outcomes, draws and
  sleeps it makes the same calls, waits the same delays and ends the same way.\<close>

theorem retry_async_agrees: "with_session_retry_async pol call rng sleep = with_session_retry pol call rng sleep"
  by (simp add: with_session_retry_async_def with_session_retry_def retry_async_from_eq)

section \<open>Examples\<close>

definition no_sleep :: "f64 \<Rightarrow> sdk_exn option" where
  "no_sleep d = None"

theorem retry_bounded_witness:
  "with_session_retry default_policy (\<lambda>_. Inl (Builtin TypeError) :: unit sres) (\<lambda>_. 0) no_sleep =
     (Inl (Builtin TypeError), 1, []) \<and> int 1 \<le> max 1 (max_attempts default_policy)"
proof -
  have "with_session_retry default_policy (\<lambda>_. Inl (Builtin TypeError) :: unit sres) (\<lambda>_. 0) no_sleep =
     (Inl (Builtin TypeError), 1, [])"
    by (simp add: with_session_retry_def retry_from.simps next_delay_def is_retryable_def
        is_session_unavailable_def is_tenant_moving_def)
  with retry_bounded [OF this] show ?thesis by simp
qed

theorem retry_raises_last_error_witness:
  "with_session_retry default_policy (\<lambda>_. Inl (Builtin TypeError) :: unit sres) (\<lambda>_. 0) no_sleep =
     (Inl (Builtin TypeError), 1, []) \<and> (Inl (Builtin TypeError) :: unit sres) = (\<lambda>_. Inl (Builtin TypeError)) (1 :: nat)"
proof -
  have "with_session_retry default_policy (\<lambda>_. Inl (Builtin TypeError) :: unit sres) (\<lambda>_. 0) no_sleep =
     (Inl (Builtin TypeError), 1, [])"
    by (simp add: with_session_retry_def retry_from.simps next_delay_def is_retryable_def
        is_session_unavailable_def is_tenant_moving_def)
  with retry_raises_last_error [OF _ _ this] show ?thesis by (simp add: no_sleep_def default_policy_def)
qed


end
