(* ===== verification/Ids.thy ===== *)
theory Ids
  imports Errors
begin

text \<open>
  Session and decision identifiers (\<open>ids.py\<close>): the rule that accepts a session id, and the building
  and parsing of decision ids. The regular expressions are all anchored at both ends and made of
  character classes with counts, so each is a predicate on the list of code points. The lemmas show
  that parsing inverts building and accepts nothing else, and that every canonical UUID of version
  4 or 7 is an acceptable session id.
\<close>

section \<open>Definitions\<close>

definition DECISION_ID_PREFIX :: ustr where
  "DECISION_ID_PREFIX = ustr ''dec:''"

definition SESSION_ID_MAX_BYTES :: nat where
  "SESSION_ID_MAX_BYTES = 128"

definition SESSION_ID_TOKEN_MIN_LEN :: nat where
  "SESSION_ID_TOKEN_MIN_LEN = 22"

definition token_char :: "nat \<Rightarrow> bool" where
  "token_char c \<longleftrightarrow> 65 \<le> c \<and> c \<le> 90 \<or> 97 \<le> c \<and> c \<le> 122 \<or> 48 \<le> c \<and> c \<le> 57 \<or> c = 95 \<or> c = 45"

definition lower_hex_char :: "nat \<Rightarrow> bool" where
  "lower_hex_char c \<longleftrightarrow> 48 \<le> c \<and> c \<le> 57 \<or> 97 \<le> c \<and> c \<le> 102"

definition hex_char :: "nat \<Rightarrow> bool" where
  "hex_char c \<longleftrightarrow> lower_hex_char c \<or> 65 \<le> c \<and> c \<le> 70"

definition is_token :: "ustr \<Rightarrow> bool" where
  "is_token s \<longleftrightarrow> s \<noteq> [] \<and> list_all token_char s"

definition is_tenant :: "ustr \<Rightarrow> bool" where
  "is_tenant s \<longleftrightarrow> 1 \<le> length s \<and> length s \<le> 128 \<and> list_all token_char s"

text \<open>The 8-4-4-4-12 shape with a class for the digits and one for the first digit of the third group.\<close>

definition uuid_pattern :: "(nat \<Rightarrow> bool) \<Rightarrow> (nat \<Rightarrow> bool) \<Rightarrow> (nat \<Rightarrow> bool) list" where
  "uuid_pattern digit version =
     replicate 8 digit @ [\<lambda>c. c = 45] @ replicate 4 digit @ [\<lambda>c. c = 45] @ version # replicate 3 digit
     @ [\<lambda>c. c = 45] @ replicate 4 digit @ [\<lambda>c. c = 45] @ replicate 12 digit"

definition fullmatch :: "(nat \<Rightarrow> bool) list \<Rightarrow> ustr \<Rightarrow> bool" where
  "fullmatch pattern s = list_all2 (\<lambda>p c. p c) pattern s"

definition is_uuid_shaped :: "ustr \<Rightarrow> bool" where
  "is_uuid_shaped s = fullmatch (uuid_pattern hex_char hex_char) s"

definition is_canonical_uuid :: "ustr \<Rightarrow> bool" where
  "is_canonical_uuid s = fullmatch (uuid_pattern lower_hex_char (\<lambda>c. c = 52 \<or> c = 55)) s"

datatype session_refusal_reason =
    NotStr | NotUtf8 | OverCap | NotCanonicalUuid | BadCharacters | TokenTooShort

definition session_refusal :: "pyval \<Rightarrow> session_refusal_reason option" where
  "session_refusal session_id =
     (case session_id of
        VStr s \<Rightarrow>
          (case utf8_encode s of
             Inl _ \<Rightarrow> Some NotUtf8
           | Inr b \<Rightarrow>
               (if length b > SESSION_ID_MAX_BYTES then Some OverCap
                else if is_uuid_shaped s then (if is_canonical_uuid s then None else Some NotCanonicalUuid)
                else if \<not> is_token s then Some BadCharacters
                else if length s < SESSION_ID_TOKEN_MIN_LEN then Some TokenTooShort
                else None))
      | _ \<Rightarrow> Some NotStr)"

datatype id_error =
    InvalidSessionIdError session_refusal_reason
  | InvalidTenant | MissingPrefix | MissingSeparator | InvalidSessionHalf session_refusal_reason

definition validate_session_id :: "pyval \<Rightarrow> id_error + pyval" where
  "validate_session_id session_id =
     (case session_refusal session_id of
        Some r \<Rightarrow> Inl (InvalidSessionIdError r)
      | None \<Rightarrow> Inr session_id)"

definition is_valid_session_id :: "pyval \<Rightarrow> bool" where
  "is_valid_session_id session_id = (session_refusal session_id = None)"

definition check_tenant :: "pyval \<Rightarrow> id_error + ustr" where
  "check_tenant tenant =
     (case tenant of VStr t \<Rightarrow> if is_tenant t then Inr t else Inl InvalidTenant | _ \<Rightarrow> Inl InvalidTenant)"

definition check_session_half :: "pyval \<Rightarrow> id_error + ustr" where
  "check_session_half session_id =
     (case session_refusal session_id of
        Some r \<Rightarrow> Inl (InvalidSessionHalf r)
      | None \<Rightarrow> (case session_id of VStr s \<Rightarrow> Inr s | _ \<Rightarrow> Inl (InvalidSessionHalf NotStr)))"

definition decision_id_for_session :: "pyval \<Rightarrow> pyval \<Rightarrow> id_error + ustr" where
  "decision_id_for_session tenant session_id =
     rbind (check_tenant tenant) (\<lambda>t.
     rbind (check_session_half session_id) (\<lambda>s.
     Inr (DECISION_ID_PREFIX @ t @ [58] @ s)))"

text \<open>\<open>s.partition(":")\<close>: before the first colon, whether there is one, and after it.\<close>

definition partition_colon :: "ustr \<Rightarrow> ustr \<times> bool \<times> ustr" where
  "partition_colon s =
     (let a = takeWhile (\<lambda>c. c \<noteq> 58) s; r = dropWhile (\<lambda>c. c \<noteq> 58) s in (a, r \<noteq> [], tl r))"

record decision_id =
  d_tenant :: ustr
  d_session_id :: ustr

definition str_decision_id :: "decision_id \<Rightarrow> ustr" where
  "str_decision_id d = DECISION_ID_PREFIX @ d_tenant d @ [58] @ d_session_id d"

definition parse_decision_id :: "pyval \<Rightarrow> id_error + decision_id" where
  "parse_decision_id decision_id =
     (case decision_id of
        VStr s \<Rightarrow>
          (if \<not> startswith s DECISION_ID_PREFIX then Inl MissingPrefix
           else
             (let (tenant, sep, session_id) = partition_colon (drop (length DECISION_ID_PREFIX) s)
              in if \<not> sep then Inl MissingSeparator
                 else
                   rbind (check_tenant (VStr tenant)) (\<lambda>t.
                   rbind (check_session_half (VStr session_id)) (\<lambda>x.
                   Inr \<lparr>d_tenant = t, d_session_id = x\<rparr>))))
      | _ \<Rightarrow> Inl MissingPrefix)"

section \<open>Parsing inverts building\<close>

lemma token_not_colon: "token_char c \<Longrightarrow> c \<noteq> 58"
  by (auto simp: token_char_def)

lemma check_tenant_Inr: "check_tenant v = Inr t \<longleftrightarrow> v = VStr t \<and> is_tenant t"
  by (auto simp: check_tenant_def split: pyval.splits if_splits)

lemma check_session_half_Inr: "check_session_half v = Inr s \<longleftrightarrow> v = VStr s \<and> session_refusal v = None"
  by (auto simp: check_session_half_def split: pyval.splits option.splits)

lemma partition_colon_append: "58 \<notin> set t \<Longrightarrow> partition_colon (t @ 58 # s) = (t, True, s)"
  by (induction t) (auto simp: partition_colon_def Let_def)

lemma partition_colon_Some: "partition_colon s = (a, True, r) \<Longrightarrow> s = a @ 58 # r \<and> 58 \<notin> set a"
proof -
  assume p: "partition_colon s = (a, True, r)"
  let ?d = "dropWhile (\<lambda>c. c \<noteq> 58) s"
  from p have a: "a = takeWhile (\<lambda>c. c \<noteq> 58) s" and d: "?d \<noteq> []" "r = tl ?d"
    by (auto simp: partition_colon_def Let_def)
  from d(1) have "hd ?d = 58" using hd_dropWhile by blast
  with d have "?d = 58 # r" by (cases ?d) auto
  with a have "s = a @ 58 # r" using takeWhile_dropWhile_id [of "\<lambda>c. c \<noteq> 58" s] by metis
  moreover have "58 \<notin> set a" using a set_takeWhileD by fastforce
  ultimately show ?thesis ..
qed

lemma tenant_no_colon: "is_tenant t \<Longrightarrow> 58 \<notin> set t"
  using token_not_colon by (auto simp: is_tenant_def list_all_iff)

lemma parse_decision_id_Inr:
  "parse_decision_id v = Inr d \<longleftrightarrow>
     is_tenant (d_tenant d) \<and> session_refusal (VStr (d_session_id d)) = None \<and> v = VStr (str_decision_id d)"
  (is "?l \<longleftrightarrow> ?r")
proof
  assume ?l
  then obtain s where s: "v = VStr s" "startswith s DECISION_ID_PREFIX"
    by (auto simp: parse_decision_id_def split: pyval.splits if_splits)
  obtain t b x where part: "partition_colon (drop (length DECISION_ID_PREFIX) s) = (t, b, x)"
    by (cases "partition_colon (drop (length DECISION_ID_PREFIX) s)")
  with \<open>?l\<close> s have b and d: "check_tenant (VStr t) = Inr (d_tenant d)" "check_session_half (VStr x) = Inr (d_session_id d)"
    by (auto simp: parse_decision_id_def rbind_eq_Inr split: if_splits)
  with part partition_colon_Some [of _ t x] have "drop (length DECISION_ID_PREFIX) s = t @ 58 # x" by simp
  then have "s = DECISION_ID_PREFIX @ t @ 58 # x"
    using s(2) append_take_drop_id [of "length DECISION_ID_PREFIX" s] by (simp add: startswith_def)
  with d s(1) show ?r by (auto simp: check_tenant_Inr check_session_half_Inr str_decision_id_def)
next
  assume ?r
  then show ?l
    by (simp add: parse_decision_id_def str_decision_id_def partition_colon_append tenant_no_colon
        check_tenant_Inr check_session_half_Inr rbind_eq_Inr)
qed

text \<open>C38: Decision ids and their parts are in bijection: what is built from a tenant and a session parses
  back to exactly those two, whatever they are; and whatever parses is what building its parts
  gives. No other text parses, and no other parts build.\<close>

theorem decision_id_roundtrip:
  "decision_id_for_session (VStr t) (VStr s) = Inr d \<longleftrightarrow>
     parse_decision_id (VStr d) = Inr \<lparr>d_tenant = t, d_session_id = s\<rparr>"
  unfolding parse_decision_id_Inr
  by (auto simp: decision_id_for_session_def rbind_eq_Inr check_tenant_Inr check_session_half_Inr str_decision_id_def)

section \<open>Canonical UUIDs are accepted\<close>

lemma fullmatch_mono:
  assumes "fullmatch ps s" "list_all2 (\<lambda>p q. \<forall>c. p c \<longrightarrow> q c) ps qs"
  shows "fullmatch qs s"
proof -
  from assms(2) have "list_all2 (\<lambda>q p. \<forall>c. p c \<longrightarrow> q c) qs ps" by (simp add: list_all2_conv_all_nth)
  from this assms(1) [unfolded fullmatch_def] show ?thesis
    unfolding fullmatch_def by (rule list_all2_trans [rotated]) blast
qed

lemma list_all2_replicate: "R p q \<Longrightarrow> list_all2 R (replicate n p) (replicate n q)"
  by (induction n) auto

lemma canonical_uuid_shaped: "is_canonical_uuid s \<Longrightarrow> is_uuid_shaped s"
  unfolding is_canonical_uuid_def is_uuid_shaped_def
  by (erule fullmatch_mono, unfold uuid_pattern_def append_Cons append_Nil)
    (intro list_all2_appendI list.rel_intros(2) list_all2_replicate; auto simp: hex_char_def lower_hex_char_def)

lemma fullmatch_all: "fullmatch ps s \<Longrightarrow> \<forall>p \<in> set ps. \<forall>c. p c \<longrightarrow> Q c \<Longrightarrow> \<forall>c \<in> set s. Q c"
  unfolding fullmatch_def by (induction rule: list_all2_induct) auto

lemma canonical_uuid_ascii: "is_canonical_uuid s \<Longrightarrow> \<forall>c \<in> set s. c < 0x80"
  unfolding is_canonical_uuid_def
  by (erule fullmatch_all) (auto simp: uuid_pattern_def lower_hex_char_def)

lemma canonical_uuid_accepted: "is_canonical_uuid s \<Longrightarrow> session_refusal (VStr s) = None"
proof -
  assume s: "is_canonical_uuid s"
  then have "utf8_encode s = Inr (map of_nat s)" using canonical_uuid_ascii by (intro utf8_encode_ascii) blast
  moreover have "length s = 36" using s by (auto simp: is_canonical_uuid_def fullmatch_def uuid_pattern_def dest: list_all2_lengthD)
  ultimately show ?thesis using s canonical_uuid_shaped [OF s]
    by (simp add: session_refusal_def SESSION_ID_MAX_BYTES_def)
qed

lemma hex_digit_lower: "v < 16 \<Longrightarrow> lower_hex_char (hex_digit v)"
  by (auto simp: hex_digit_def lower_hex_char_def)

lemma hex_lower: "list_all lower_hex_char (hex b)"
proof (induction b)
  case (Cons x b)
  have "unat x div 16 < 16" using unat_byte_lt [of x] by simp
  with Cons show ?case by (simp add: hex_digit_lower)
qed simp

lemma fullmatch_digits: "list_all P s \<Longrightarrow> length s = n \<Longrightarrow> fullmatch (replicate n P) s"
  by (auto simp: fullmatch_def list_all2_conv_all_nth list_all_length)

lemma fullmatch_append: "fullmatch ps s \<Longrightarrow> fullmatch qs t \<Longrightarrow> fullmatch (ps @ qs) (s @ t)"
  by (simp add: fullmatch_def list_all2_appendI)

lemma fullmatch_Cons: "p c \<Longrightarrow> fullmatch ps s \<Longrightarrow> fullmatch (p # ps) (c # s)"
  by (simp add: fullmatch_def)

lemma hex_nth: "i < length b \<Longrightarrow> hex b ! (2 * i) = hex_digit (unat (b ! i) div 16)"
proof (induction b arbitrary: i)
  case (Cons x b)
  then show ?case by (cases i) auto
qed simp

text \<open>The text of a UUID of version 4 or 7 is always an acceptable session id, and so is every id the
  SDK derives for a message: whatever its sixteen bytes are otherwise.\<close>

theorem uuid_session_id_accepted:
  assumes "length u = 16" and "unat (u ! 6) div 16 \<in> {4, 7}"
  shows "is_valid_session_id (VStr (uuid_str u))"
proof -
  let ?s = "hex u"
  have len: "length ?s = 32" using assms(1) by simp
  have P: "list_all lower_hex_char (take n (drop m ?s))" for m n
    using hex_lower [of u] by (auto simp: list_all_iff dest: in_set_takeD in_set_dropD)
  have v: "?s ! 12 = 52 \<or> ?s ! 12 = 55" using hex_nth [of 6 u] assms by (auto simp: hex_digit_def)
  have "drop 12 ?s = ?s ! 12 # drop (Suc 12) ?s" by (rule Cons_nth_drop_Suc [symmetric]) (simp add: assms(1))
  then have third: "take 4 (drop 12 ?s) = ?s ! 12 # take 3 (drop 13 ?s)"
    by (simp only:) simp
  have ends: "list_all lower_hex_char (take 8 ?s)" "list_all lower_hex_char (drop 20 ?s)"
    using hex_lower [of u] by (auto simp: list_all_iff dest: in_set_takeD in_set_dropD)
  have "is_canonical_uuid (uuid_str u)"
    unfolding is_canonical_uuid_def uuid_pattern_def uuid_str_def Let_def third append_Cons append_Nil
    by (intro fullmatch_append fullmatch_Cons fullmatch_digits P ends) (use len v in simp_all)
  then show ?thesis by (simp add: is_valid_session_id_def canonical_uuid_accepted)
qed

theorem uuid_session_id_accepted_witness:
  "is_valid_session_id (VStr (uuid_str ([1, 2, 3, 4, 5, 6, 0x47] @ replicate 9 0xFF)))"
  by (rule uuid_session_id_accepted) simp_all

end
