(* ===== verification/Tenant.thy ===== *)
theory Tenant
  imports Errors
begin

text \<open>
  The routing header on data-plane calls (\<open>tenant.py\<close>): the interceptors of the synchronous and the
  asynchronous channel, over all four call shapes. A call is its details and its request; the
  continuation is whatever sends it. The lemmas show that every call leaves with the header, that a
  header the caller set is kept, and that nothing else about the call changes.
\<close>

section \<open>Definitions\<close>

definition TENANT_HEADER :: ustr where
  "TENANT_HEADER = ustr ''x-seam-tenant''"

type_synonym metadata = "(ustr \<times> md_value) list"

record ('c, 'k) call_details =
  c_method :: ustr
  c_timeout :: "'c option"
  c_metadata :: "metadata option"
  c_credentials :: "'k option"
  c_wait_for_ready :: "bool option"
  c_compression :: "'c option"

definition require_tenant :: "pyval \<Rightarrow> ustr res" where
  "require_tenant tenant =
     (case tenant of VStr t \<Rightarrow> if t = [] then Inl ValueError else Inr t | _ \<Rightarrow> Inl ValueError)"

text \<open>\<open>list(metadata or ())\<close>, with the header appended when no pair names it.\<close>

definition with_tenant :: "metadata option \<Rightarrow> ustr \<Rightarrow> metadata" where
  "with_tenant md tenant =
     (let pairs = (case md of None \<Rightarrow> [] | Some m \<Rightarrow> m)
      in if list_ex (\<lambda>(k, _). k = TENANT_HEADER) pairs then pairs
         else pairs @ [(TENANT_HEADER, MText tenant)])"

text \<open>\<open>TenantInterceptor._details\<close> rebuilds the six fields; the asynchronous one replaces the metadata.\<close>

definition tenant_details :: "ustr \<Rightarrow> ('c, 'k) call_details \<Rightarrow> ('c, 'k) call_details" where
  "tenant_details tenant d =
     \<lparr>c_method = c_method d, c_timeout = c_timeout d, c_metadata = Some (with_tenant (c_metadata d) tenant),
      c_credentials = c_credentials d, c_wait_for_ready = c_wait_for_ready d, c_compression = c_compression d\<rparr>"

definition aio_tenant_details :: "ustr \<Rightarrow> ('c, 'k) call_details \<Rightarrow> ('c, 'k) call_details" where
  "aio_tenant_details tenant d = d\<lparr>c_metadata := Some (with_tenant (c_metadata d) tenant)\<rparr>"

datatype call_shape = UnaryUnary | UnaryStream | StreamUnary | StreamStream

text \<open>The four methods of each interceptor; the request of a streaming call is its iterator.\<close>

definition intercept_tenant ::
    "ustr \<Rightarrow> call_shape \<Rightarrow> (('c, 'k) call_details \<Rightarrow> 'r \<Rightarrow> 'o) \<Rightarrow> ('c, 'k) call_details \<Rightarrow> 'r \<Rightarrow> 'o" where
  "intercept_tenant tenant shape continuation d request =
     (case shape of
        UnaryUnary \<Rightarrow> continuation (tenant_details tenant d) request
      | UnaryStream \<Rightarrow> continuation (tenant_details tenant d) request
      | StreamUnary \<Rightarrow> continuation (tenant_details tenant d) request
      | StreamStream \<Rightarrow> continuation (tenant_details tenant d) request)"

definition aio_intercept_tenant ::
    "ustr \<Rightarrow> call_shape \<Rightarrow> (('c, 'k) call_details \<Rightarrow> 'r \<Rightarrow> 'o) \<Rightarrow> ('c, 'k) call_details \<Rightarrow> 'r \<Rightarrow> 'o" where
  "aio_intercept_tenant tenant shape continuation d request =
     (case shape of
        UnaryUnary \<Rightarrow> continuation (aio_tenant_details tenant d) request
      | UnaryStream \<Rightarrow> continuation (aio_tenant_details tenant d) request
      | StreamUnary \<Rightarrow> continuation (aio_tenant_details tenant d) request
      | StreamStream \<Rightarrow> continuation (aio_tenant_details tenant d) request)"

section \<open>Every call leaves with the header\<close>

definition header_of :: "ustr \<Rightarrow> metadata option \<Rightarrow> md_value option" where
  "header_of k md = map_of (case md of None \<Rightarrow> [] | Some m \<Rightarrow> m) k"

definition pairs_of :: "metadata option \<Rightarrow> metadata" where
  "pairs_of md = (case md of None \<Rightarrow> [] | Some m \<Rightarrow> m)"

lemma header_named: "header_of k md \<noteq> None \<longleftrightarrow> list_ex (\<lambda>(k', _). k' = k) (pairs_of md)"
  by (force simp: header_of_def pairs_of_def list_ex_iff map_of_eq_None_iff)

lemma with_tenant_pairs:
  "with_tenant md t = (if header_of TENANT_HEADER md = None then pairs_of md @ [(TENANT_HEADER, MText t)] else pairs_of md)"
  using header_named [of TENANT_HEADER md] by (simp add: with_tenant_def pairs_of_def Let_def)

text \<open>On every call shape and on both kinds of channel the continuation is handed the same call: its
  tenant header is the one the caller set, or else the configured tenant; every other header reads
  as before; the other five details are untouched; and a second interceptor changes nothing more.\<close>

theorem tenant_header_attached:
  "\<exists>d'. intercept_tenant t shape k d req = k d' req \<and> aio_intercept_tenant t shape k d req = k d' req \<and>
     header_of TENANT_HEADER (c_metadata d') =
       (case header_of TENANT_HEADER (c_metadata d) of None \<Rightarrow> Some (MText t) | Some v \<Rightarrow> Some v) \<and>
     (\<forall>h. h \<noteq> TENANT_HEADER \<longrightarrow> header_of h (c_metadata d') = header_of h (c_metadata d)) \<and>
     d' = d\<lparr>c_metadata := c_metadata d'\<rparr> \<and> tenant_details t' d' = d'"
proof -
  let ?d = "tenant_details t d"
  have same: "aio_tenant_details t d = ?d" by (simp add: tenant_details_def aio_tenant_details_def)
  have hdr: "header_of h (c_metadata ?d) =
      (if h = TENANT_HEADER \<and> header_of h (c_metadata d) = None then Some (MText t) else header_of h (c_metadata d))" for h
    by (auto simp: tenant_details_def with_tenant_pairs header_of_def pairs_of_def map_add_def split: option.splits)
  then have "header_of TENANT_HEADER (c_metadata ?d) \<noteq> None" by simp
  then have "tenant_details t' ?d = ?d"
    by (simp add: tenant_details_def [of t'] with_tenant_pairs) (simp add: tenant_details_def pairs_of_def)
  moreover have "?d = d\<lparr>c_metadata := c_metadata ?d\<rparr>" by (simp add: tenant_details_def)
  ultimately show ?thesis using same hdr
    by (intro exI [of _ ?d]) (auto simp: intercept_tenant_def aio_intercept_tenant_def split: call_shape.splits option.splits)
qed

definition example_call :: "(nat, nat) call_details" where
  "example_call =
     \<lparr>c_method = [], c_timeout = None, c_metadata = Some [(ustr ''a'', MText [])],
      c_credentials = None, c_wait_for_ready = None, c_compression = None\<rparr>"

theorem tenant_header_attached_witness:
  "\<exists>d'. intercept_tenant (ustr ''acme'') UnaryUnary (\<lambda>d r. (d, r)) example_call () = (d', ()) \<and>
     header_of TENANT_HEADER (c_metadata d') = Some (MText (ustr ''acme'')) \<and>
     header_of (ustr ''a'') (c_metadata d') = Some (MText [])"
proof -
  have h: "header_of TENANT_HEADER (c_metadata example_call) = None" "ustr ''a'' \<noteq> TENANT_HEADER"
    "header_of (ustr ''a'') (c_metadata example_call) = Some (MText [])"
    by (simp_all add: example_call_def header_of_def TENANT_HEADER_def ustr_def)
  from tenant_header_attached [of "ustr ''acme''" UnaryUnary "\<lambda>d r. (d, r)" example_call "()" "[]"]
  show ?thesis unfolding h using h by fastforce
qed

end
