(* ===== verification/Outcome.thy ===== *)
theory Outcome
  imports Errors
begin

text \<open>
  The outcome fields of \<open>report_outcome\<close> (\<open>_outcome.py\<close>): the checks that refuse a malformed reward,
  metric or observation time before anything is sent. The lemmas say exactly which fields pass, and
  that the time of a timezone-aware datetime is rounded down to the millisecond without float
  error.
\<close>

section \<open>Definitions\<close>

definition OUTCOME_METRICS_MAX :: nat where
  "OUTCOME_METRICS_MAX = 16"

definition finite_float :: "pyval \<Rightarrow> f64 res" where
  "finite_float v =
     rbind (case v of
              VInt n \<Rightarrow> Inr (case f64_of_int n of Inl _ \<Rightarrow> f64_inf False | Inr x \<Rightarrow> x)
            | VFloat x \<Rightarrow> Inr x
            | _ \<Rightarrow> Inl TypeError) (\<lambda>f.
     if \<not> f64_isfinite f then Inl ValueError else Inr f)"

text \<open>What a caller passes as \<open>observed_at\<close>. An aware datetime is an instant: its microseconds since the
  epoch. Python's difference of two aware datetimes is a \<open>timedelta\<close> in normal form.\<close>

datatype observed_at = Naive | Aware int | Millis int | OtherTime

record timedelta =
  td_days :: int
  td_seconds :: int
  td_microseconds :: int

definition timedelta_of :: "int \<Rightarrow> timedelta" where
  "timedelta_of us =
     \<lparr>td_days = us div 86400000000, td_seconds = us mod 86400000000 div 1000000,
      td_microseconds = us mod 1000000\<rparr>"

definition observed_at_millis :: "observed_at \<Rightarrow> nat res" where
  "observed_at_millis t =
     rbind (case t of
              Naive \<Rightarrow> Inl ValueError
            | Aware us \<Rightarrow>
                (let td = timedelta_of us
                 in Inr ((td_days td * 86400 + td_seconds td) * 1000 + td_microseconds td div 1000))
            | Millis ms \<Rightarrow> Inr ms
            | OtherTime \<Rightarrow> Inl TypeError) (\<lambda>ms.
     if \<not> (0 \<le> ms \<and> ms \<le> 2 ^ 64 - 1) then Inl ValueError else Inr (nat ms))"

definition metric_key :: "pyval \<Rightarrow> ustr option" where
  "metric_key k =
     (case k of
        VStr (c # cs) \<Rightarrow>
          (if 97 \<le> c \<and> c \<le> 122 \<and> length cs \<le> 62 \<and>
              list_all (\<lambda>c. 97 \<le> c \<and> c \<le> 122 \<or> 48 \<le> c \<and> c \<le> 57 \<or> c = 95) cs
           then Some (c # cs) else None)
      | _ \<Rightarrow> None)"

definition check_metric :: "pyval \<times> pyval \<Rightarrow> (ustr \<times> f64) res" where
  "check_metric kv =
     (case metric_key (fst kv) of
        None \<Rightarrow> Inl ValueError
      | Some k \<Rightarrow> rbind (finite_float (snd kv)) (\<lambda>f. Inr (k, f)))"

definition check_reward :: "pyval \<Rightarrow> f64 option res" where
  "check_reward reward = (if reward = VNone then Inr None else rbind (finite_float reward) (\<lambda>r. Inr (Some r)))"

definition check_metrics :: "pyval \<Rightarrow> (ustr \<times> f64) list res" where
  "check_metrics metrics =
     (case metrics of
        VNone \<Rightarrow> Inr []
      | VDict d \<Rightarrow> (if length d > OUTCOME_METRICS_MAX then Inl ValueError else mapR check_metric d)
      | _ \<Rightarrow> Inl TypeError)"

definition check_observed :: "observed_at option \<Rightarrow> nat option res" where
  "check_observed observed =
     (case observed of None \<Rightarrow> Inr None | Some t \<Rightarrow> rbind (observed_at_millis t) (\<lambda>ms. Inr (Some ms)))"

definition check_outcome_fields ::
    "pyval \<Rightarrow> pyval \<Rightarrow> observed_at option \<Rightarrow> (f64 option \<times> (ustr \<times> f64) list \<times> nat option) res" where
  "check_outcome_fields reward metrics observed =
     rbind (check_reward reward) (\<lambda>r.
     rbind (check_metrics metrics) (\<lambda>m.
     rbind (check_observed observed) (\<lambda>t. Inr (r, m, t))))"

section \<open>The time of an instant\<close>

lemma div_1000: "(s + 1000 * k) div 1000 = k + s div (1000 :: int)"
  by simp

lemma timedelta_millis:
  "(td_days (timedelta_of us) * 86400 + td_seconds (timedelta_of us)) * 1000 + td_microseconds (timedelta_of us) div 1000
     = us div 1000"
proof -
  define a where "a = us div 86400000000"
  define r where "r = us mod 86400000000"
  define q where "q = r div 1000000"
  define s where "s = r mod 1000000"
  have "(1000000 :: int) dvd 86400000000" by simp
  then have "us mod 1000000 = s" unfolding s_def r_def by (rule mod_mod_cancel [symmetric])
  then have td: "timedelta_of us = \<lparr>td_days = a, td_seconds = q, td_microseconds = s\<rparr>"
    unfolding timedelta_of_def a_def q_def r_def by (simp only:)
  have r: "r = s + 1000 * (1000 * q)"
    using mult_div_mod_eq [of 1000000 r] unfolding q_def [symmetric] s_def [symmetric] by linarith
  have "us = r + 1000 * (86400000 * a)"
    using mult_div_mod_eq [of 86400000000 us] unfolding a_def [symmetric] r_def [symmetric] by linarith
  then have "us div 1000 = (r + 1000 * (86400000 * a)) div 1000" by (rule arg_cong)
  also have "\<dots> = 86400000 * a + (s + 1000 * (1000 * q)) div 1000" unfolding div_1000 r [symmetric] ..
  also have "\<dots> = 86400000 * a + (1000 * q + s div 1000)" unfolding div_1000 ..
  finally show ?thesis unfolding td by simp
qed

lemma observed_at_Aware:
  "observed_at_millis (Aware us) =
     (if 0 \<le> us div 1000 \<and> us div 1000 \<le> 2 ^ 64 - 1 then Inr (nat (us div 1000)) else Inl ValueError)"
  unfolding observed_at_millis_def observed_at.case Let_def timedelta_millis rbind.simps by auto

section \<open>Which fields pass\<close>

definition finite_number :: "pyval \<Rightarrow> f64 \<Rightarrow> bool" where
  "finite_number v f \<longleftrightarrow> f64_isfinite f \<and> (v = VFloat f \<or> (\<exists>n. v = VInt n \<and> f64_of_int n = Inr f))"

lemma finite_float_Inr: "finite_float v = Inr f \<longleftrightarrow> finite_number v f"
proof -
  have "\<not> f64_isfinite (f64_inf False)" by (simp add: f64_isfinite_def f64_inf_def f64_exponent_def)
  then show ?thesis
    by (auto simp: finite_float_def finite_number_def rbind_eq_Inr split: pyval.splits sum.splits if_splits)
qed

lemma finite_float_exn: "finite_float v = Inl e \<Longrightarrow> e = TypeError \<or> e = ValueError"
  by (auto simp: finite_float_def rbind_eq_Inl split: pyval.splits if_splits)

lemma check_reward_Inr:
  "check_reward reward = Inr r \<longleftrightarrow> (case r of None \<Rightarrow> reward = VNone | Some f \<Rightarrow> finite_number reward f)"
  by (auto simp: check_reward_def rbind_eq_Inr finite_float_Inr finite_number_def split: option.splits)

lemma check_metric_Inr:
  "check_metric kv = Inr kf \<longleftrightarrow>
     (case kv of (k, v) \<Rightarrow> \<lambda>(k', f). metric_key k = Some k' \<and> finite_number v f) kf"
  by (cases kv; cases kf) (auto simp: check_metric_def rbind_eq_Inr finite_float_Inr split: option.splits)

lemma check_metrics_Inr:
  "check_metrics metrics = Inr m \<longleftrightarrow>
     metrics = VNone \<and> m = [] \<or>
     (\<exists>d. metrics = VDict d \<and> length d \<le> 16 \<and>
        list_all2 (\<lambda>(k, v) (k', f). metric_key k = Some k' \<and> finite_number v f) d m)"
  by (cases metrics) (auto simp: check_metrics_def mapR_eq_Inr check_metric_Inr OUTCOME_METRICS_MAX_def)

lemma observed_at_Inr:
  "observed_at_millis t = Inr n \<longleftrightarrow>
     int n < 2 ^ 64 \<and> (t = Millis (int n) \<or> (\<exists>us. t = Aware us \<and> us div 1000 = int n))"
proof (cases t)
  case (Aware us)
  then show ?thesis unfolding Aware observed_at_Aware by auto
qed (auto simp: observed_at_millis_def)

lemma check_observed_Inr:
  "check_observed observed = Inr t \<longleftrightarrow>
     (case t of None \<Rightarrow> observed = None
      | Some ms \<Rightarrow> int ms < 2 ^ 64 \<and>
          (observed = Some (Millis (int ms)) \<or> (\<exists>us. observed = Some (Aware us) \<and> us div 1000 = int ms)))"
  by (cases observed; cases t) (simp_all add: check_observed_def rbind_eq_Inr observed_at_Inr)

lemma check_exns:
  "check_reward reward = Inl e \<Longrightarrow> e = TypeError \<or> e = ValueError"
  "check_metrics metrics = Inl e \<Longrightarrow> e = TypeError \<or> e = ValueError"
  "check_observed observed = Inl e \<Longrightarrow> e = TypeError \<or> e = ValueError"
proof -
  show "check_reward reward = Inl e \<Longrightarrow> e = TypeError \<or> e = ValueError"
    using finite_float_exn by (simp add: check_reward_def rbind_eq_Inl split: if_splits)
  have "mapR check_metric d = Inl e \<Longrightarrow> e = TypeError \<or> e = ValueError" for d
  proof (induction d)
    case (Cons kv d)
    have "check_metric kv = Inl e \<Longrightarrow> e = TypeError \<or> e = ValueError"
      using finite_float_exn by (simp add: check_metric_def rbind_eq_Inl split: option.splits)
    with Cons show ?case by (auto simp: rbind_eq_Inl)
  qed simp
  then show "check_metrics metrics = Inl e \<Longrightarrow> e = TypeError \<or> e = ValueError"
    by (cases metrics) (simp_all add: check_metrics_def split: if_splits)
  show "check_observed observed = Inl e \<Longrightarrow> e = TypeError \<or> e = ValueError"
    by (cases observed; cases "the observed")
      (auto simp: check_observed_def rbind_eq_Inl observed_at_millis_def Let_def split: if_splits)
qed

text \<open>C39: The outcome fields that reach the wire are exactly the well-formed ones: a reward, if given, is a
  finite number, not a bool; at most sixteen metrics, each under a key of the permitted form with a
  finite value, converted to the nearest double; and an observation time that is an integer or an
  instant with a timezone, in whole milliseconds since the epoch, rounded down, below two to the
  sixty-fourth. Anything else raises, and only \<open>TypeError\<close> or \<open>ValueError\<close>.\<close>

theorem outcome_fields_checked:
  "(check_outcome_fields reward metrics observed = Inr (r, m, t) \<longleftrightarrow>
     (case r of None \<Rightarrow> reward = VNone | Some f \<Rightarrow> finite_number reward f) \<and>
     (metrics = VNone \<and> m = [] \<or>
      (\<exists>d. metrics = VDict d \<and> length d \<le> 16 \<and>
         list_all2 (\<lambda>(k, v) (k', f). metric_key k = Some k' \<and> finite_number v f) d m)) \<and>
     (case t of None \<Rightarrow> observed = None
      | Some ms \<Rightarrow> int ms < 2 ^ 64 \<and> (observed = Some (Millis (int ms)) \<or> (\<exists>us. observed = Some (Aware us) \<and> us div 1000 = int ms)))) \<and>
   (\<forall>e. check_outcome_fields reward metrics observed = Inl e \<longrightarrow> e = TypeError \<or> e = ValueError)"
  using check_exns(1) [of reward] check_exns(2) [of metrics] check_exns(3) [of observed]
  unfolding check_outcome_fields_def rbind_eq_Inr rbind_eq_Inl sum.inject prod.inject
    check_reward_Inr check_metrics_Inr check_observed_Inr
  by (auto simp del: int_ops)

theorem outcome_fields_checked_witness:
  "check_outcome_fields VNone (VDict []) (Some (Aware 1999)) = Inr (None, [], Some 1) \<and>
   check_outcome_fields (VBool True) VNone None = Inl TypeError"
  using outcome_fields_checked [of VNone "VDict []" "Some (Aware 1999)" None "[]" "Some 1"]
  by (simp add: check_outcome_fields_def check_reward_def finite_float_def)

end
