(* ===== verification/Decoders.thy ===== *)
theory Decoders
  imports Errors
begin

text \<open>
  The decoders of what the runtime says about a decision (\<open>_collective.py\<close>, \<open>_seal.py\<close>, \<open>_policy.py\<close>):
  the collective verdict, the seal attestation and the policy enforcement. The messages are those
  of the generated protobuf classes: a field with explicit presence is an option, and the numbers
  of the enum constants are arguments, of which only what protobuf guarantees is assumed (they are
  distinct, and none is the zero value). The lemmas show that the decoders fail closed: an unknown
  verdict is never an approval, and what is withheld is never read.
\<close>

section \<open>The closed enums\<close>

type_synonym 'n enum_table = "(int \<times> 'n) list"

text \<open>A Python dict display: a later entry for the same key replaces an earlier one.\<close>

definition dict_lookup :: "'n enum_table \<Rightarrow> int \<Rightarrow> 'n option" where
  "dict_lookup table v = map_of (rev table) v"

text \<open>What the generated enum constants guarantee.\<close>

definition proper_enum :: "'n enum_table \<Rightarrow> bool" where
  "proper_enum table \<longleftrightarrow> distinct (map fst table) \<and> 0 \<notin> fst ` set table"

lemma dict_lookup_iff: "proper_enum table \<Longrightarrow> dict_lookup table v = Some n \<longleftrightarrow> (v, n) \<in> set table"
  by (simp add: dict_lookup_def proper_enum_def map_of_eq_Some_iff rev_map [symmetric] distinct_rev)

lemma dict_lookup_zero: "proper_enum table \<Longrightarrow> dict_lookup table 0 = None"
  by (simp add: dict_lookup_def proper_enum_def map_of_eq_None_iff)

section \<open>The collective verdict\<close>

datatype verdict = APPROVED | DECLINED | SPLIT | ESCALATED | NO_VOTES

record collective_consts =
  k_approved :: int
  k_declined :: int
  k_split :: int
  k_escalated :: int
  k_no_votes :: int

definition verdict_names :: "collective_consts \<Rightarrow> verdict enum_table" where
  "verdict_names k =
     [(k_approved k, APPROVED), (k_declined k, DECLINED), (k_split k, SPLIT), (k_escalated k, ESCALATED),
      (k_no_votes k, NO_VOTES)]"

record pb_collective =
  w_verdict :: int
  w_approve_count :: nat
  w_reject_count :: nat
  w_abstain_count :: nat
  w_declared_participant_count :: nat
  w_stated_value_contradicted_tally :: bool
  w_effective_threshold :: "nat option"

record collective_outcome =
  o_verdict :: verdict
  o_approve_count :: nat
  o_reject_count :: nat
  o_abstain_count :: nat
  o_declared_participant_count :: nat
  o_stated_value_contradicted_tally :: bool
  o_effective_threshold :: "nat option"

definition approved :: "collective_outcome \<Rightarrow> bool" where
  "approved res = (o_verdict res = APPROVED)"

definition decode_collective ::
    "collective_consts \<Rightarrow> pb_collective \<Rightarrow> ustr \<Rightarrow> collective_outcome sres" where
  "decode_collective k outcome decision_id =
     (case dict_lookup (verdict_names k) (w_verdict outcome) of
        None \<Rightarrow> Inl (UnknownCollectiveVerdictError (w_verdict outcome) decision_id)
      | Some name \<Rightarrow>
          Inr \<lparr>o_verdict = name, o_approve_count = w_approve_count outcome,
               o_reject_count = w_reject_count outcome, o_abstain_count = w_abstain_count outcome,
               o_declared_participant_count = w_declared_participant_count outcome,
               o_stated_value_contradicted_tally = w_stated_value_contradicted_tally outcome,
               o_effective_threshold = w_effective_threshold outcome\<rparr>)"

text \<open>A carrier of the field: a decision response or a session step.\<close>

record pb_carrier =
  c_decision_id :: ustr
  c_collective_outcome :: "pb_collective option"
  c_policy_enforcement :: "(bool \<times> ustr option) option"

definition collective_outcome_of ::
    "collective_consts \<Rightarrow> pb_carrier \<Rightarrow> collective_outcome option sres" where
  "collective_outcome_of k resp =
     (case c_collective_outcome resp of
        None \<Rightarrow> Inr None
      | Some outcome \<Rightarrow> rbind (decode_collective k outcome (c_decision_id resp)) (\<lambda>res. Inr (Some res)))"

section \<open>Policy enforcement\<close>

record policy_enforcement =
  enforced :: bool
  policy_id :: "ustr option"

definition policy_enforcement_of :: "pb_carrier \<Rightarrow> policy_enforcement option" where
  "policy_enforcement_of resp =
     (case c_policy_enforcement resp of
        None \<Rightarrow> None
      | Some (e, pid) \<Rightarrow> Some \<lparr>enforced = e, policy_id = pid\<rparr>)"

section \<open>The seal attestation\<close>

datatype availability =
    RECORDED | NOT_RECORDED | KEY_UNAVAILABLE | ARCHIVED | CLEARANCE_DENIED | SEAL_UNAVAILABLE
  | UNRECOGNIZED_AVAILABILITY

datatype seal_reason = COMMIT | CANCEL | EXPIRE_TTL | EXPIRE_SUSPEND_CAP | UNRECOGNIZED_REASON

record seal_consts =
  k_recorded :: int
  k_not_recorded :: int
  k_key_unavailable :: int
  k_archived :: int
  k_clearance_denied :: int
  k_unavailable :: int
  k_commit :: int
  k_cancel :: int
  k_expire_ttl :: int
  k_expire_suspend_cap :: int

definition availability_names :: "seal_consts \<Rightarrow> availability enum_table" where
  "availability_names k =
     [(k_recorded k, RECORDED), (k_not_recorded k, NOT_RECORDED), (k_key_unavailable k, KEY_UNAVAILABLE),
      (k_archived k, ARCHIVED), (k_clearance_denied k, CLEARANCE_DENIED), (k_unavailable k, SEAL_UNAVAILABLE)]"

definition reason_names :: "seal_consts \<Rightarrow> seal_reason enum_table" where
  "reason_names k =
     [(k_commit k, COMMIT), (k_cancel k, CANCEL), (k_expire_ttl k, EXPIRE_TTL),
      (k_expire_suspend_cap k, EXPIRE_SUSPEND_CAP)]"

record pb_attestation =
  a_availability :: int
  a_seal_reason :: int
  a_collective_outcome :: "pb_collective option"

record pb_view =
  v_decision_id :: ustr
  v_seal_attestation :: "pb_attestation option"

record seal_attestation =
  s_availability :: availability
  s_seal_reason :: "seal_reason option"
  s_collective_outcome :: "collective_outcome option"

definition name_or :: "'n enum_table \<Rightarrow> 'n \<Rightarrow> int \<Rightarrow> 'n" where
  "name_or table dflt v = (case dict_lookup table v of None \<Rightarrow> dflt | Some n \<Rightarrow> n)"

definition seal_attestation_of ::
    "collective_consts \<Rightarrow> seal_consts \<Rightarrow> pb_view \<Rightarrow> seal_attestation option sres" where
  "seal_attestation_of kc ks view =
     (case v_seal_attestation view of
        None \<Rightarrow> Inr None
      | Some att \<Rightarrow>
          (let availability = name_or (availability_names ks) UNRECOGNIZED_AVAILABILITY (a_availability att)
           in if availability \<noteq> RECORDED then
                Inr (Some \<lparr>s_availability = availability, s_seal_reason = None, s_collective_outcome = None\<rparr>)
              else
                (let reason = name_or (reason_names ks) UNRECOGNIZED_REASON (a_seal_reason att)
                 in rbind (case a_collective_outcome att of
                             Some outcome \<Rightarrow>
                               (if reason = COMMIT then
                                  rbind (decode_collective kc outcome (v_decision_id view)) (\<lambda>res. Inr (Some res))
                                else Inr None)
                           | None \<Rightarrow> Inr None) (\<lambda>collective.
                    Inr (Some \<lparr>s_availability = availability, s_seal_reason = Some reason,
                               s_collective_outcome = collective\<rparr>)))))"

section \<open>The decoders fail closed\<close>

text \<open>C36: A response reads as approved exactly when it carries a collective outcome whose wire verdict is
  the APPROVED constant; the tally is never consulted. A verdict outside the five, the zero value
  included, raises \<open>UnknownCollectiveVerdictError\<close> with that value, and an absent outcome is
  \<open>None\<close>, so neither can pass for an approval or a refusal.\<close>

theorem approval_fails_closed:
  assumes "proper_enum (verdict_names k)"
  shows "((\<exists>res. collective_outcome_of k resp = Inr (Some res) \<and> approved res) \<longleftrightarrow>
      (\<exists>w. c_collective_outcome resp = Some w \<and> w_verdict w = k_approved k)) \<and>
    (collective_outcome_of k resp = Inr None \<longleftrightarrow> c_collective_outcome resp = None) \<and>
    (\<forall>w. c_collective_outcome resp = Some w \<longrightarrow> w_verdict w = 0 \<or> w_verdict w \<notin> fst ` set (verdict_names k) \<longrightarrow>
      collective_outcome_of k resp = Inl (UnknownCollectiveVerdictError (w_verdict w) (c_decision_id resp)))"
proof (cases "c_collective_outcome resp")
  case None
  then show ?thesis by (simp add: collective_outcome_of_def)
next
  case (Some w)
  have z: "dict_lookup (verdict_names k) 0 = None" by (rule dict_lookup_zero [OF assms])
  have out: "dict_lookup (verdict_names k) v = None \<longleftrightarrow> v \<notin> fst ` set (verdict_names k)" for v
    by (simp add: dict_lookup_def map_of_eq_None_iff)
  have ap: "dict_lookup (verdict_names k) v = Some APPROVED \<longleftrightarrow> v = k_approved k" for v
    unfolding dict_lookup_iff [OF assms] by (auto simp: verdict_names_def)
  show ?thesis
  proof (cases "dict_lookup (verdict_names k) (w_verdict w)")
    case None
    with ap [of "w_verdict w"] have "w_verdict w \<noteq> k_approved k" by simp
    with None Some z show ?thesis by (simp add: collective_outcome_of_def decode_collective_def)
  next
    case (Some n)
    then have "w_verdict w \<noteq> 0" "w_verdict w \<in> fst ` set (verdict_names k)"
      "n = APPROVED \<longleftrightarrow> w_verdict w = k_approved k"
      using z out [of "w_verdict w"] ap [of "w_verdict w"] by auto
    with Some \<open>c_collective_outcome resp = Some w\<close> show ?thesis
      by (simp add: collective_outcome_of_def decode_collective_def approved_def)
  qed
qed

definition example_consts :: collective_consts where
  "example_consts = \<lparr>k_approved = 1, k_declined = 2, k_split = 3, k_escalated = 4, k_no_votes = 5\<rparr>"

definition example_tally :: "int \<Rightarrow> pb_collective" where
  "example_tally v = \<lparr>w_verdict = v, w_approve_count = 3, w_reject_count = 0, w_abstain_count = 0,
     w_declared_participant_count = 3, w_stated_value_contradicted_tally = False, w_effective_threshold = None\<rparr>"

definition example_carrier :: "int \<Rightarrow> pb_carrier" where
  "example_carrier v = \<lparr>c_decision_id = [], c_collective_outcome = Some (example_tally v), c_policy_enforcement = None\<rparr>"

lemma example_consts_proper: "proper_enum (verdict_names example_consts)"
  by (simp add: proper_enum_def verdict_names_def example_consts_def)

theorem approval_fails_closed_witness:
  "(\<exists>res. collective_outcome_of example_consts (example_carrier 1) = Inr (Some res) \<and> approved res) \<and>
   collective_outcome_of example_consts (example_carrier 0) = Inl (UnknownCollectiveVerdictError 0 [])"
  using approval_fails_closed [OF example_consts_proper, of "example_carrier 1"]
    approval_fails_closed [OF example_consts_proper, of "example_carrier 0"]
  by (simp add: example_carrier_def example_tally_def example_consts_def)

section \<open>What is withheld is never read\<close>

lemma name_or_eq: "proper_enum table \<Longrightarrow> n \<noteq> dflt \<Longrightarrow> name_or table dflt v = n \<longleftrightarrow> (v, n) \<in> set table"
  using dict_lookup_iff [of table v n] by (auto simp: name_or_def split: option.splits)

lemma seal_recorded:
  assumes "v_seal_attestation view = Some att"
    "name_or (availability_names ks) UNRECOGNIZED_AVAILABILITY (a_availability att) = RECORDED"
  shows "seal_attestation_of kc ks view =
    (let reason = name_or (reason_names ks) UNRECOGNIZED_REASON (a_seal_reason att)
     in rbind (case a_collective_outcome att of
                 Some outcome \<Rightarrow>
                   if reason = COMMIT then rbind (decode_collective kc outcome (v_decision_id view)) (\<lambda>res. Inr (Some res))
                   else Inr None
               | None \<Rightarrow> Inr None)
          (\<lambda>c. Inr (Some \<lparr>s_availability = RECORDED, s_seal_reason = Some reason, s_collective_outcome = c\<rparr>)))"
  using assms by (simp add: seal_attestation_of_def Let_def)

text \<open>C37: A seal attestation carries a collective outcome only when the wire says RECORDED and COMMIT, and
  it is then the decoded wire outcome. Under any other availability the reason and the outcome are
  not read at all: whatever the wire carries there, the answer is the same and nothing raises. The
  decoder raises only for a recorded commit whose verdict is unknown.\<close>

theorem seal_payload_withheld:
  assumes "proper_enum (availability_names ks)" and "proper_enum (reason_names ks)"
  shows "(\<forall>att. v_seal_attestation view = Some att \<longrightarrow> a_availability att \<noteq> k_recorded ks \<longrightarrow>
      (\<exists>av. av \<noteq> RECORDED \<and> seal_attestation_of kc ks view =
         Inr (Some \<lparr>s_availability = av, s_seal_reason = None, s_collective_outcome = None\<rparr>) \<and>
         (\<forall>r c. seal_attestation_of kc ks (view\<lparr>v_seal_attestation := Some (att\<lparr>a_seal_reason := r, a_collective_outcome := c\<rparr>)\<rparr>) =
            seal_attestation_of kc ks view))) \<and>
    (\<forall>s res. seal_attestation_of kc ks view = Inr (Some s) \<longrightarrow> s_collective_outcome s = Some res \<longrightarrow>
      (\<exists>att w. v_seal_attestation view = Some att \<and> a_availability att = k_recorded ks \<and> a_seal_reason att = k_commit ks \<and>
         a_collective_outcome att = Some w \<and> decode_collective kc w (v_decision_id view) = Inr res)) \<and>
    (\<forall>e. seal_attestation_of kc ks view = Inl e \<longrightarrow>
      (\<exists>att w. v_seal_attestation view = Some att \<and> a_availability att = k_recorded ks \<and> a_seal_reason att = k_commit ks \<and>
         a_collective_outcome att = Some w \<and> e = UnknownCollectiveVerdictError (w_verdict w) (v_decision_id view)))"
proof -
  let ?av = "\<lambda>att. name_or (availability_names ks) UNRECOGNIZED_AVAILABILITY (a_availability att)"
  let ?re = "\<lambda>att. name_or (reason_names ks) UNRECOGNIZED_REASON (a_seal_reason att)"
  have av: "?av att = RECORDED \<longleftrightarrow> a_availability att = k_recorded ks" for att
    by (subst name_or_eq [OF assms(1)]) (auto simp: availability_names_def)
  have re: "?re att = COMMIT \<longleftrightarrow> a_seal_reason att = k_commit ks" for att
    by (subst name_or_eq [OF assms(2)]) (auto simp: reason_names_def)
  show ?thesis
  proof (cases "v_seal_attestation view")
    case None
    then show ?thesis by (simp add: seal_attestation_of_def)
  next
    case (Some att)
    show ?thesis
    proof (cases "a_availability att = k_recorded ks")
      case True
      then have "?av att = RECORDED" using av [of att] by blast
      note eq = seal_recorded [OF Some this, of kc]
      show ?thesis
      proof (cases "?re att = COMMIT \<and> a_collective_outcome att \<noteq> None")
        case False
        then have "seal_attestation_of kc ks view =
            Inr (Some \<lparr>s_availability = RECORDED, s_seal_reason = Some (?re att), s_collective_outcome = None\<rparr>)"
          unfolding eq Let_def by (auto split: option.split)
        with Some True show ?thesis by simp
      next
        case commit: True
        then obtain w where w: "a_collective_outcome att = Some w" "a_seal_reason att = k_commit ks"
          using re [of att] by auto
        show ?thesis
        proof (cases "decode_collective kc w (v_decision_id view)")
          case (Inl e)
          then have "e = UnknownCollectiveVerdictError (w_verdict w) (v_decision_id view)"
            by (auto simp: decode_collective_def split: option.splits)
          moreover have "seal_attestation_of kc ks view = Inl e" unfolding eq Let_def using w commit Inl by simp
          ultimately show ?thesis using Some True w by simp
        next
          case (Inr res)
          have "seal_attestation_of kc ks view =
              Inr (Some \<lparr>s_availability = RECORDED, s_seal_reason = Some COMMIT, s_collective_outcome = Some res\<rparr>)"
            unfolding eq Let_def using w commit Inr by simp
          with Some True w Inr show ?thesis by simp
        qed
      qed
    next
      case False
      then have "?av att \<noteq> RECORDED" using av [of att] by blast
      with Some False show ?thesis by (simp add: seal_attestation_of_def Let_def)
    qed
  qed
qed

theorem seal_payload_withheld_witness:
  "let ks = \<lparr>k_recorded = 1, k_not_recorded = 2, k_key_unavailable = 3, k_archived = 4, k_clearance_denied = 5,
        k_unavailable = 6, k_commit = 1, k_cancel = 2, k_expire_ttl = 3, k_expire_suspend_cap = 4\<rparr>;
      att = \<lparr>a_availability = 7, a_seal_reason = 1, a_collective_outcome = Some (example_tally 99)\<rparr>
   in \<exists>av. seal_attestation_of example_consts ks \<lparr>v_decision_id = [], v_seal_attestation = Some att\<rparr> =
       Inr (Some \<lparr>s_availability = av, s_seal_reason = None, s_collective_outcome = None\<rparr>)"
proof -
  define ks where "ks = \<lparr>k_recorded = 1, k_not_recorded = 2, k_key_unavailable = 3, k_archived = 4,
    k_clearance_denied = 5, k_unavailable = 6, k_commit = 1, k_cancel = 2, k_expire_ttl = 3, k_expire_suspend_cap = 4\<rparr>"
  have "proper_enum (availability_names ks)" "proper_enum (reason_names ks)"
    by (simp_all add: proper_enum_def availability_names_def reason_names_def ks_def)
  from seal_payload_withheld [OF this, of "\<lparr>v_decision_id = [], v_seal_attestation =
      Some \<lparr>a_availability = 7, a_seal_reason = 1, a_collective_outcome = Some (example_tally 99)\<rparr>\<rparr>" example_consts]
  show ?thesis unfolding Let_def ks_def by auto
qed

end
