(* ===== verification/Repr.thy ===== *)
theory Repr
  imports Json_Print Floats Complex_Main
begin

text \<open>
  The shortest decimal digits of a double, as Python's \<open>repr\<close> gives them to the canonicalizer of
  \<open>crypto.py\<close>. Conversion from decimal rounds to the nearest double; the lemmas show that it depends
  on the value of the decimal only, that the exact expansion of a double converts to that double,
  and hence that the digits of \<open>repr\<close> always read back.
\<close>

section \<open>The digits of a float\<close>

text \<open>A positive finite double is \<open>f64_units x / 2 ^ 1074\<close>. Its decimal point: the \<open>p\<close> with
  \<open>10 ^ (p - 1) <= x < 10 ^ p\<close>.\<close>

definition dec_point :: "nat \<Rightarrow> nat \<Rightarrow> int" where
  "dec_point num den =
     (if den \<le> num then int (length (str_nat (num div den)))
      else case find (\<lambda>j. den \<le> num * 10 ^ j) [1 ..< 400] of Some j \<Rightarrow> 1 - int j | None \<Rightarrow> 0)"

text \<open>The decimals of \<open>k\<close> digits next to \<open>num / den\<close>: \<open>c * 10 ^ (p - k)\<close>, the closer one first.\<close>

definition dec_scaled :: "nat \<Rightarrow> nat \<Rightarrow> int \<Rightarrow> nat \<times> nat" where
  "dec_scaled num den s = (num * 10 ^ nat s, den * 10 ^ nat (- s))"

definition dec_candidates :: "nat \<Rightarrow> nat \<Rightarrow> int \<Rightarrow> nat list" where
  "dec_candidates num den s =
     (let (n, d) = dec_scaled num den s; lo = n div d; near = round_half_even n d
      in if near = lo then [lo, lo + 1] else [lo + 1, lo])"

text \<open>Seventeen digits are always enough; the search is closed by the exact decimal expansion.\<close>

definition exact_decimal :: "f64 \<Rightarrow> nat \<times> int" where
  "exact_decimal x = (f64_units x * 5 ^ 1074, - 1074)"

definition shortest_decimal :: "f64 \<Rightarrow> nat \<times> int" where
  "shortest_decimal x =
     (let num = f64_units x; den = 2 ^ 1074; p = dec_point num den;
          cands = concat (map (\<lambda>k. map (\<lambda>c. (c, p - int k)) (dec_candidates num den (int k - p))) [1 ..< 18])
      in case find (\<lambda>(c, e). f64_of_decimal False c e = x) cands of
           Some ce \<Rightarrow> ce
         | None \<Rightarrow> exact_decimal x)"

text \<open>\<open>Decimal(repr(x)).as_tuple()\<close>: digits and exponent. In the plain notation, which \<open>repr\<close> uses below
  \<open>10 ^ 16\<close>, an integral value shows its trailing zeros and \<open>.0\<close>.\<close>

definition strip_zeros :: "ustr \<Rightarrow> ustr" where
  "strip_zeros s = rstrip 48 s"

definition repr_tuple :: "f64 \<Rightarrow> ustr \<times> int" where
  "repr_tuple x =
     (let (c, e) = shortest_decimal x; ds = strip_zeros (str_nat c);
          q = e + int (length (str_nat c)) - int (length ds); p = q + int (length ds)
      in if 0 \<le> q \<and> p \<le> 16 then (ds @ replicate (nat q + 1) 48, - 1) else (ds, q))"

section \<open>Doubles are their own nearest doubles\<close>

lemma round_half_even_exact: "0 < q \<Longrightarrow> round_half_even (m * q) q = m"
  by (simp add: round_half_even_def Let_def)

definition ratio_exp :: "nat \<Rightarrow> nat \<Rightarrow> int" where
  "ratio_exp n d =
     (let e0 = int (bit_length n) - int (bit_length d) - 53
      in if (n * 2 ^ nat (- e0)) div (d * 2 ^ nat e0) < 2 ^ 53 then e0 else e0 + 1)"

lemma scale_powi: "0 < d \<Longrightarrow> real (n * 2 ^ nat (- e)) / real (d * 2 ^ nat e) = real n / real d * 2 powi (- e)"
  by (cases "0 \<le> e") (simp_all add: power_int_def field_simps)

lemma bit_length_powi: "n \<noteq> 0 \<Longrightarrow> 2 powi (int (bit_length n) - 1) \<le> real n \<and> real n < 2 powi int (bit_length n)"
proof -
  assume n: "n \<noteq> 0"
  then have b: "2 ^ (bit_length n - 1) \<le> n" "n < 2 ^ bit_length n" using bit_length_bounds by auto
  have "real (2 ^ (bit_length n - 1)) \<le> real n" "real n < real (2 ^ bit_length n)"
    using b by (simp_all only: of_nat_le_iff of_nat_less_iff)
  moreover have "2 powi (int (bit_length n) - 1) = real (2 ^ (bit_length n - 1))"
    using bit_length_pos [OF n] by (simp add: power_int_def nat_diff_distrib)
  ultimately show ?thesis by (simp add: power_int_def)
qed

lemma ratio_exp_window:
  assumes "n \<noteq> 0" "d \<noteq> 0"
  shows "2 powi (52 + ratio_exp n d) \<le> real n / real d \<and> real n / real d < 2 powi (53 + ratio_exp n d)"
proof -
  let ?v = "real n / real d" and ?e = "int (bit_length n) - int (bit_length d) - 53"
  have n: "2 powi (int (bit_length n) - 1) \<le> real n" "real n < 2 powi int (bit_length n)"
    and d: "2 powi (int (bit_length d) - 1) \<le> real d" "real d < 2 powi int (bit_length d)"
    using bit_length_powi assms by auto
  have "2 powi (int (bit_length n) - 1) / 2 powi int (bit_length d) \<le> ?v"
    by (rule frac_le) (use n d assms in auto)
  then have lo: "2 powi (52 + ?e) \<le> ?v" by (simp add: power_int_diff power_int_add field_simps)
  have "?v < 2 powi int (bit_length n) / 2 powi (int (bit_length d) - 1)"
    by (rule frac_less) (use n d assms in auto)
  then have hi: "?v < 2 powi (54 + ?e)" by (simp add: power_int_diff power_int_add field_simps)
  have below: "(n * 2 ^ nat (- ?e)) div (d * 2 ^ nat ?e) < 2 ^ 53 \<longleftrightarrow> ?v < 2 powi (53 + ?e)"
  proof -
    have "(n * 2 ^ nat (- ?e)) div (d * 2 ^ nat ?e) < 2 ^ 53 \<longleftrightarrow> n * 2 ^ nat (- ?e) < 2 ^ 53 * (d * 2 ^ nat ?e)"
      using assms by (simp add: div_less_iff_less_mult)
    also have "\<dots> \<longleftrightarrow> real (n * 2 ^ nat (- ?e)) < real (2 ^ 53 * (d * 2 ^ nat ?e))" by (simp only: of_nat_less_iff)
    also have "\<dots> \<longleftrightarrow> real (n * 2 ^ nat (- ?e)) / real (d * 2 ^ nat ?e) < 2 ^ 53"
      using assms by (simp add: pos_divide_less_eq)
    also have "\<dots> \<longleftrightarrow> ?v * 2 powi (- ?e) < 2 ^ 53" using assms by (subst scale_powi) auto
    also have "\<dots> \<longleftrightarrow> ?v < 2 ^ 53 * 2 powi ?e" unfolding power_int_minus
      using pos_divide_less_eq [of "2 powi ?e" ?v "2 ^ 53"] by (simp only: divide_inverse zero_less_power_int zero_less_numeral)
    also have "2 ^ 53 * 2 powi ?e = (2 powi (53 + ?e) :: real)" by (subst power_int_add) simp_all
    finally show ?thesis .
  qed
  show ?thesis
  proof (cases "?v < 2 powi (53 + ?e)")
    case True
    then have "ratio_exp n d = ?e" using below by (simp add: ratio_exp_def Let_def)
    then show ?thesis using True lo by simp
  next
    case False
    then have "ratio_exp n d = ?e + 1" using below by (simp add: ratio_exp_def Let_def)
    moreover have "52 + (?e + 1) = 53 + ?e" "53 + (?e + 1) = 54 + ?e" by simp_all
    ultimately show ?thesis using False hi by (simp only: not_less)
  qed
qed

lemma ratio_exp_unique:
  assumes "n \<noteq> 0" "d \<noteq> 0" "2 powi (52 + e) \<le> real n / real d" "real n / real d < 2 powi (53 + e)"
  shows "ratio_exp n d = e"
proof -
  have less: "a < b" if "2 powi a \<le> x" "x < 2 powi b" for a b and x :: real
  proof (rule ccontr)
    assume "\<not> a < b"
    then have "2 powi b \<le> (2 powi a :: real)" by (intro power_int_increasing) auto
    with that show False by linarith
  qed
  have "52 + e < 53 + ratio_exp n d" "52 + ratio_exp n d < 53 + e"
    using less ratio_exp_window [OF assms(1,2)] assms(3,4) by blast+
  then show ?thesis by linarith
qed

lemma f64_of_ratio_exp:
  assumes "n \<noteq> 0" "round_half_even (n * 2 ^ nat (- e)) (d * 2 ^ nat e) = m" "e = max (- 1074) (ratio_exp n d)"
    "nat (e + 1074) * 2 ^ 52 + m < 2047 * 2 ^ 52"
  shows "f64_of_ratio False n d = of_nat (nat (e + 1074) * 2 ^ 52 + m)"
  unfolding f64_of_ratio_def Let_def ratio_exp_def [symmetric, unfolded Let_def] assms(3) [symmetric] assms(2)
  using assms(1,4) by simp

lemma f64_bits:
  assumes "\<not> f64_negative x" shows "unat x = f64_exponent x * 2 ^ 52 + f64_fraction x"
proof -
  have "unat x < 2 ^ 11 * 2 ^ 52" using assms by (simp add: f64_negative_def)
  then have "unat x div 2 ^ 52 < 2 ^ 11" by (simp only: less_mult_imp_div_less)
  then have "f64_exponent x = unat x div 2 ^ 52" by (simp only: f64_exponent_def mod_less)
  then show ?thesis by (simp only: f64_fraction_def div_mult_mod_eq)
qed

lemma f64_exponent_lt: "f64_isfinite x \<Longrightarrow> f64_exponent x < 2047"
proof -
  have "f64_exponent x < 2 ^ 11" by (simp add: f64_exponent_def)
  then show "f64_isfinite x \<Longrightarrow> f64_exponent x < 2047" by (simp add: f64_isfinite_def)
qed

lemma powi_window:
  assumes "real (2 ^ 52) \<le> m" "m < real (2 ^ 53)"
  shows "2 powi (52 + e) \<le> m * 2 powi e" "m * 2 powi e < 2 powi (53 + e)"
proof -
  have "2 powi (52 + e) = real (2 ^ 52) * 2 powi e" "2 powi (53 + e) = real (2 ^ 53) * 2 powi e"
    by (simp_all add: power_int_add del: power_int_add_numeral)
  then show "2 powi (52 + e) \<le> m * 2 powi e" "m * 2 powi e < 2 powi (53 + e)"
    using assms by (simp_all only: mult_right_mono mult_strict_right_mono zero_less_power_int zero_le_power_int zero_less_numeral zero_le_numeral)
qed

lemma ratio_value: "0 < k \<Longrightarrow> real (m * 2 ^ j * k) / real (2 ^ N * k) = real m * 2 powi (int j - int N)"
  by (simp add: power_int_diff)

lemma ratio_exp_normal:
  assumes "2 ^ 52 \<le> m" "m < 2 ^ 53" "0 < k"
  shows "ratio_exp (m * 2 ^ j * k) (2 ^ N * k) = int j - int N"
proof (rule ratio_exp_unique)
  have "real (2 ^ 52) \<le> real m" "real m < real (2 ^ 53)"
    using assms(1,2) by (simp_all only: of_nat_le_iff of_nat_less_iff)
  then show "2 powi (52 + (int j - int N)) \<le> real (m * 2 ^ j * k) / real (2 ^ N * k)"
    "real (m * 2 ^ j * k) / real (2 ^ N * k) < 2 powi (53 + (int j - int N))"
    unfolding ratio_value [OF assms(3)] by (rule powi_window)+
qed (use assms in auto)

lemma ratio_exp_small:
  assumes "m \<noteq> 0" "m < 2 ^ 52" "0 < k"
  shows "ratio_exp (m * k) (2 ^ N * k) < - int N"
proof -
  have "real m < real (2 ^ 52)" using assms(2) by (simp only: of_nat_less_iff)
  then have "real m * 2 powi (- int N) < real (2 ^ 52) * 2 powi (- int N)"
    by (rule mult_strict_right_mono) simp
  moreover have "real (2 ^ 52) * 2 powi (- int N) = 2 powi (52 + - int N)" by (subst power_int_add) simp_all
  moreover have "real (m * k) / real (2 ^ N * k) = real m * 2 powi (- int N)"
    using ratio_value [OF assms(3), of m 0 N] by (simp only: power_0 mult_1_right semiring_1_class.of_nat_0 diff_0)
  ultimately have "real (m * k) / real (2 ^ N * k) < 2 powi (52 + - int N)" by (simp only:)
  then have "\<not> 52 + - int N \<le> 52 + ratio_exp (m * k) (2 ^ N * k)"
    using ratio_exp_window [of "m * k" "2 ^ N * k"] assms
      power_int_increasing [of "52 + - int N" "52 + ratio_exp (m * k) (2 ^ N * k)" "2 :: real"] by fastforce
  then show ?thesis by linarith
qed

lemma scaled_exact:
  assumes "e = int j - int N" "0 < k"
  shows "round_half_even (m * 2 ^ j * k * 2 ^ nat (- e)) (2 ^ N * k * 2 ^ nat e) = m"
proof -
  have "j + nat (- e) = N + nat e" using assms(1) by linarith
  then have "(2 :: nat) ^ j * 2 ^ nat (- e) = 2 ^ N * 2 ^ nat e" by (simp only: power_add [symmetric])
  then have "m * 2 ^ j * k * 2 ^ nat (- e) = m * (2 ^ N * k * 2 ^ nat e)"
    by (metis mult.assoc mult.commute)
  then show ?thesis using assms(2) by (simp only: round_half_even_exact nat_0_less_mult_iff zero_less_power pos2)
qed

text \<open>The exact ratio of a double, expanded or not, is converted to that double.\<close>

lemma f64_of_ratio_exact:
  assumes x: "f64_isfinite x" "\<not> f64_negative x" "f64_units x \<noteq> 0" and k: "0 < k" and N: "N = (1074 :: nat)"
  shows "f64_of_ratio False (f64_units x * k) (2 ^ N * k) = x"
proof -
  let ?E = "f64_exponent x" and ?F = "f64_fraction x" and ?n = "f64_units x * k" and ?d = "2 ^ N * k :: nat"
  let ?j = "?E - 1" and ?m = "if ?E = 0 then ?F else 2 ^ 52 + ?F" and ?e = "int (?E - 1) - int N"
  have F: "?F < 2 ^ 52" by (simp add: f64_fraction_def)
  have n: "?n = ?m * 2 ^ ?j * k" by (simp add: f64_units_def)
  have e: "?e = max (- int N) (ratio_exp ?n ?d)"
  proof (cases "?E = 0")
    case True
    then have "f64_units x = ?F" by (simp add: f64_units_def)
    with ratio_exp_small [of ?F k N] x(3) F k True show ?thesis by simp
  next
    case False
    then have "ratio_exp ?n ?d = ?e" unfolding n using F k by (intro ratio_exp_normal) simp_all
    then show ?thesis by simp
  qed
  have m: "round_half_even (?n * 2 ^ nat (- ?e)) (?d * 2 ^ nat ?e) = ?m"
    unfolding n using k by (intro scaled_exact) simp_all
  have b: "nat (?e + 1074) * 2 ^ 52 + ?m = unat x"
    unfolding f64_bits [OF x(2)] N by (cases ?E) simp_all
  have u: "unat x < 2047 * 2 ^ 52"
  proof -
    have "?E * 2 ^ 52 \<le> 2046 * 2 ^ 52" using f64_exponent_lt [OF x(1)] by (intro mult_le_mono1) simp
    with F show ?thesis unfolding f64_bits [OF x(2)] by simp
  qed
  have "- int N = - 1074" "?n \<noteq> 0" using N x(3) k by auto
  with f64_of_ratio_exp [of ?n ?e ?d ?m] e m u have "f64_of_ratio False ?n ?d = of_nat (unat x)"
    unfolding b by (simp only: simp_thms)
  then show ?thesis by simp
qed

lemma nat_of_digits_append: "nat_of_digits (a @ b) = nat_of_digits a * 10 ^ length b + nat_of_digits b"
proof -
  have fold: "foldl (\<lambda>n c. 10 * n + (c - 48)) i b = i * 10 ^ length b + foldl (\<lambda>n c. 10 * n + (c - 48)) 0 b" for i :: nat
  proof (induction b arbitrary: i)
    case (Cons c b)
    show ?case unfolding foldl_Cons Cons.IH [of "10 * i + (c - 48)"] Cons.IH [of "10 * 0 + (c - 48)"]
      by (simp add: distrib_right)
  qed simp
  show ?thesis unfolding nat_of_digits_def foldl_append by (rule fold)
qed

lemma nat_of_digits_zeros [simp]: "nat_of_digits (replicate n 48) = 0"
  by (induction n) (simp_all add: nat_of_digits_def)

lemma nat_of_digits_zero: "nat_of_digits (48 # s) = nat_of_digits s"
  by (simp add: nat_of_digits_def)

lemma str_nat_is_digit: "list_all is_digit (str_nat n)"
  using str_nat_digits by (auto simp: list_all_iff is_digit_def)

section \<open>Only the value of a ratio matters\<close>

lemma f64_of_ratio_alt:
  "f64_of_ratio neg n d =
     (let e = max (- 1074) (ratio_exp n d);
          bits = nat (e + 1074) * 2 ^ 52 + round_half_even (n * 2 ^ nat (- e)) (d * 2 ^ nat e)
      in of_nat ((if neg then 2 ^ 63 else 0)
           + (if n = 0 then 0 else if 2047 * 2 ^ 52 \<le> bits then 2047 * 2 ^ 52 else bits)))"
  unfolding f64_of_ratio_def ratio_exp_def Let_def by (rule refl)

lemma ratio_exp_scale:
  assumes "n \<noteq> 0" "d \<noteq> 0" "0 < k" shows "ratio_exp (n * k) (d * k) = ratio_exp n d"
proof (rule ratio_exp_unique)
  have "real (n * k) / real (d * k) = real n / real d" using assms(3) by simp
  then show "2 powi (52 + ratio_exp n d) \<le> real (n * k) / real (d * k)"
    "real (n * k) / real (d * k) < 2 powi (53 + ratio_exp n d)"
    using ratio_exp_window [OF assms(1,2)] by (simp_all only:)
qed (use assms in auto)

lemma round_half_even_scale: "0 < k \<Longrightarrow> round_half_even (n * k) (d * k) = round_half_even n d"
  by (simp add: round_half_even_def Let_def mult.commute [of _ k] mult.left_commute [of 2 k])

lemma f64_of_ratio_scale:
  assumes "d \<noteq> 0" "0 < k" shows "f64_of_ratio neg (n * k) (d * k) = f64_of_ratio neg n d"
proof (cases "n = 0")
  case False
  have scale: "round_half_even (n * k * a) (d * k * b) = round_half_even (n * a) (d * b)" for a b
    using round_half_even_scale [OF assms(2), of "n * a" "d * b"] by (simp only: mult_ac)
  have "n * k = 0 \<longleftrightarrow> n = 0" using assms(2) by simp
  then show ?thesis unfolding f64_of_ratio_alt ratio_exp_scale [OF False assms] scale by (simp only:)
qed (simp add: f64_of_ratio_alt)

lemma f64_of_decimal_shift: "f64_of_decimal neg (m * 10 ^ j) e = f64_of_decimal neg m (e + int j)"
proof -
  consider (pos) "0 \<le> e" | (mid) "e < 0" "0 \<le> e + int j" | (low) "e + int j < 0" by linarith
  then show ?thesis
  proof cases
    case pos
    then show ?thesis by (simp add: f64_of_decimal_def nat_add_distrib power_add mult_ac)
  next
    case mid
    let ?a = "nat (- e)"
    have "j = nat (e + int j) + ?a" using mid by linarith
    then have eq: "m * 10 ^ j = m * 10 ^ nat (e + int j) * 10 ^ ?a" by (metis mult.assoc power_add)
    show ?thesis unfolding f64_of_decimal_def eq
      using mid f64_of_ratio_scale [of 1 "10 ^ ?a" neg "m * 10 ^ nat (e + int j)"] by simp
  next
    case low
    have "nat (- e) = nat (- (e + int j)) + j" using low by linarith
    then have eq: "(10 :: nat) ^ nat (- e) = 10 ^ nat (- (e + int j)) * 10 ^ j" by (simp only: power_add)
    show ?thesis unfolding f64_of_decimal_def eq
      using low f64_of_ratio_scale [of "10 ^ nat (- (e + int j))" "10 ^ j" neg m] by simp
  qed
qed

lemma f64_of_decimal_neg: "f64_of_decimal True m e = f64_of_decimal False m e + 2 ^ 63"
  unfolding f64_of_decimal_def f64_of_ratio_def Let_def of_nat_add by (simp add: add.commute)

lemma f64_of_decimal_zero: "f64_of_decimal False 0 e = 0"
  by (simp add: f64_of_decimal_def f64_of_ratio_def Let_def)

section \<open>The digits of a float read back\<close>

lemma f64_of_decimal_exact:
  assumes "f64_isfinite x" "\<not> f64_negative x" "f64_units x \<noteq> 0" "N = (1074 :: nat)"
  shows "f64_of_decimal False (f64_units x * 5 ^ N) (- int N) = x"
proof -
  have "(10 :: nat) ^ N = 2 ^ N * 5 ^ N" by (simp only: power_mult_distrib [symmetric]) simp
  then show ?thesis using f64_of_ratio_exact [OF assms(1-3) _ assms(4), of "5 ^ N"]
    by (simp add: f64_of_decimal_def)
qed

lemma exact_decimal_reads:
  assumes "f64_isfinite x" "\<not> f64_negative x" "f64_units x \<noteq> 0" "exact_decimal x = (c, e)"
  shows "f64_of_decimal False c e = x"
proof -
  have "int 1074 = 1074" by simp
  then show ?thesis using f64_of_decimal_exact [OF assms(1-3) refl] assms(4)
    by (simp only: exact_decimal_def prod.inject)
qed

lemma shortest_decimal_reads:
  assumes "f64_isfinite x" "\<not> f64_negative x" "f64_units x \<noteq> 0" "shortest_decimal x = (c, e)"
  shows "f64_of_decimal False c e = x"
proof -
  have found: "(case find (\<lambda>(c, e). f64_of_decimal False c e = x) cands of Some ce \<Rightarrow> ce | None \<Rightarrow> exact_decimal x) = (c, e) \<Longrightarrow>
      f64_of_decimal False c e = x" for cands
    using exact_decimal_reads [OF assms(1-3)]
    by (cases "find (\<lambda>(c, e). f64_of_decimal False c e = x) cands") (auto simp: find_Some_iff)
  show ?thesis using assms(4) unfolding shortest_decimal_def Let_def by (rule found)
qed

lemma rstrip_split: "\<exists>j. s = rstrip c s @ replicate j c \<and> (rstrip c s \<noteq> [] \<longrightarrow> last (rstrip c s) \<noteq> c)"
proof (induction s rule: rev_induct)
  case (snoc x s)
  show ?case
  proof (cases "x = c")
    case True
    then have r: "rstrip c (s @ [x]) = rstrip c s" by (simp add: rstrip_def)
    from snoc obtain j where j: "s = rstrip c s @ replicate j c" "rstrip c s \<noteq> [] \<longrightarrow> last (rstrip c s) \<noteq> c" by blast
    have "s @ [x] = rstrip c s @ replicate (Suc j) c"
      using j(1) True by (metis append.assoc replicate_Suc replicate_append_same)
    then show ?thesis unfolding r using j(2) by blast
  next
    case False
    then have "rstrip c (s @ [x]) = s @ [x]" by (simp add: rstrip_def)
    with False show ?thesis by (intro exI [of _ 0]) simp
  qed
qed (simp add: rstrip_def)

lemma rstrip_last: "s \<noteq> [] \<Longrightarrow> last s \<noteq> c \<Longrightarrow> rstrip c (s @ replicate j c) = s"
proof -
  assume s: "s \<noteq> []" "last s \<noteq> c"
  have "dropWhile (\<lambda>x. x = c) (replicate j c @ rev s) = dropWhile (\<lambda>x. x = c) (rev s)" by (induction j) auto
  moreover have "dropWhile (\<lambda>x. x = c) (rev s) = rev s" using s by (cases s rule: rev_cases) auto
  ultimately show ?thesis by (simp add: rstrip_def)
qed

text \<open>The tuple of the digits of \<open>repr\<close>: no leading zero, and with its exponent the same double. The
  zeros it may end in are those of the plain notation.\<close>

lemma repr_tuple_digits:
  assumes "f64_isfinite x" "\<not> f64_negative x" "f64_units x \<noteq> 0"
  obtains ds q j where "repr_tuple x = (ds @ replicate j 48, q - int j)" "ds \<noteq> []" "hd ds \<noteq> 48" "last ds \<noteq> 48"
    "list_all is_digit ds" "f64_of_decimal False (nat_of_digits ds) q = x"
proof -
  obtain c e where ce: "shortest_decimal x = (c, e)" by (cases "shortest_decimal x")
  have x: "f64_of_decimal False c e = x" using shortest_decimal_reads [OF assms ce] .
  have "x \<noteq> 0" using assms(3) by (auto simp: f64_units_def f64_exponent_def f64_fraction_def)
  with x have c: "c \<noteq> 0" using f64_of_decimal_zero by metis
  let ?ds = "strip_zeros (str_nat c)"
  obtain j where j: "str_nat c = ?ds @ replicate j 48" "?ds \<noteq> [] \<longrightarrow> last ?ds \<noteq> 48"
    using rstrip_split [of "str_nat c" 48] unfolding strip_zeros_def by blast
  let ?q = "e + int j"
  have cj: "c = nat_of_digits ?ds * 10 ^ j"
    using nat_of_digits_str [of c] nat_of_digits_append [of ?ds "replicate j 48"] j(1) by simp
  then have ne: "?ds \<noteq> []" using c by (auto simp: nat_of_digits_def)
  have "hd (str_nat c) \<noteq> 48" using str_nat_hd c by blast
  then have hd: "hd ?ds \<noteq> 48" using ne j(1) by (metis hd_append2)
  have dig: "list_all is_digit ?ds" using str_nat_digits [of _ c] j(1)
    by (metis list_all_append str_nat_is_digit)
  have q: "e + int (length (str_nat c)) - int (length ?ds) = ?q"
    using arg_cong [OF j(1), of length] by simp
  have val: "f64_of_decimal False (nat_of_digits ?ds) ?q = x"
    using x f64_of_decimal_shift [of False "nat_of_digits ?ds" j e] cj by simp
  have "repr_tuple x = (?ds @ replicate (nat ?q + 1) 48, ?q - int (nat ?q + 1)) \<or> repr_tuple x = (?ds @ replicate 0 48, ?q - int 0)"
    unfolding repr_tuple_def ce Let_def prod.case q by auto
  with ne hd j(2) dig val that show ?thesis by blast
qed

end
