(* ===== verification/Jcs.thy ===== *)
theory Jcs
  imports Repr "HOL-Library.List_Lexorder" "HOL-Library.Multiset"
begin

text \<open>
  RFC 8785 canonicalization (\<open>jcs_canonicalize\<close> of \<open>crypto.py\<close>) and the digest of a tool input. The
  digits of a float are those of Python's \<open>repr\<close>: the shortest decimal that reads back as the same
  double, the closest such one. Nesting beyond the interpreter's recursion limit, the argument
  \<open>depth\<close>, raises. The lemmas show that canonical bytes read back, as JSON, to the value they were
  made from (with keys sorted and integral floats as integers), so that equal digests mean equal
  inputs; that the order in which a dict was built is immaterial; and that an integer is either
  written as itself or refused.
\<close>

section \<open>Writing\<close>

definition jcs_escape :: "nat \<Rightarrow> ustr" where
  "jcs_escape c =
     (if c = 8 then [92, 98] else if c = 9 then [92, 116] else if c = 10 then [92, 110]
      else if c = 12 then [92, 102] else if c = 13 then [92, 114]
      else if c = 34 then [92, 34] else if c = 92 then [92, 92]
      else if c < 0x20 then [92, 117] @ hex_04x c
      else [c])"

definition jcs_string :: "ustr \<Rightarrow> ustr" where
  "jcs_string s = 34 # concat (map jcs_escape s) @ [34]"

text \<open>The surface form of \<open>digits\<close> with the decimal point at \<open>n\<close>.\<close>

definition es6_body :: "ustr \<Rightarrow> int \<Rightarrow> ustr" where
  "es6_body digits n =
     (let k = int (length digits)
      in if k \<le> n \<and> n \<le> 21 then digits @ replicate (nat (n - k)) 48
         else if 0 < n \<and> n \<le> 21 then take (nat n) digits @ [46] @ drop (nat n) digits
         else if - 6 < n \<and> n \<le> 0 then [48, 46] @ replicate (nat (- n)) 48 @ digits
         else take 1 digits @ (if k > 1 then 46 # drop 1 digits else []) @ [101]
                @ (if 0 \<le> n - 1 then [43] else [45]) @ str_nat (nat \<bar>n - 1\<bar>))"

definition jcs_digits :: "f64 \<Rightarrow> ustr \<times> int" where
  "jcs_digits x =
     (let (raw, dexp) = repr_tuple x;
          digits = (if strip_zeros raw = [] then [48] else strip_zeros raw);
          dexp' = dexp + int (length raw) - int (length digits)
      in (digits, int (length digits) + dexp'))"

text \<open>\<open>abs(v)\<close> clears the sign bit.\<close>

definition f64_abs :: "f64 \<Rightarrow> f64" where
  "f64_abs x = (if f64_negative x then x - 2 ^ 63 else x)"

definition jcs_number :: "f64 \<Rightarrow> ustr res" where
  "jcs_number v =
     (if f64_isnan v \<or> f64_isinf v then Inl ValueError
      else if f64_zero v then Inr [48]
      else let (digits, n) = jcs_digits (f64_abs v)
           in Inr ((if f64_negative v then [45] else []) @ es6_body digits n))"

definition MAX_SAFE_INT :: int where
  "MAX_SAFE_INT = 2 ^ 53"

definition jcs_int :: "int \<Rightarrow> ustr res" where
  "jcs_int v =
     (let t = str_int v
      in if - MAX_SAFE_INT \<le> v \<and> v \<le> MAX_SAFE_INT then Inr t
         else case f64_of_int v of
                Inl _ \<Rightarrow> Inl ValueError
              | Inr x \<Rightarrow> rbind (jcs_number x) (\<lambda>rendered. if rendered \<noteq> t then Inl ValueError else Inr rendered))"

text \<open>The keys of a dict, refused unless all are str; and the pairs sorted by the UTF-16 of their keys.\<close>

definition str_key :: "pyval \<times> pyval \<Rightarrow> (ustr \<times> pyval) res" where
  "str_key kv = (case fst kv of VStr k \<Rightarrow> Inr (k, snd kv) | _ \<Rightarrow> Inl TypeError)"

definition keyed :: "ustr \<times> pyval \<Rightarrow> (bytes \<times> ustr \<times> pyval) res" where
  "keyed kv = rbind (utf16_be_encode (fst kv)) (\<lambda>b. Inr (b, kv))"

definition sorted_pairs :: "(pyval \<times> pyval) list \<Rightarrow> (ustr \<times> pyval) list res" where
  "sorted_pairs d =
     rbind (mapR str_key d) (\<lambda>kvs.
     rbind (mapR keyed kvs) (\<lambda>ks. Inr (map snd (sort_key fst ks))))"

fun jcs_write :: "nat \<Rightarrow> pyval \<Rightarrow> ustr res" where
  "jcs_write 0 v = Inl RecursionError"
| "jcs_write (Suc d) v =
     (case v of
        VNone \<Rightarrow> Inr (ustr ''null'')
      | VBool True \<Rightarrow> Inr (ustr ''true'')
      | VBool False \<Rightarrow> Inr (ustr ''false'')
      | VStr s \<Rightarrow> Inr (jcs_string s)
      | VInt n \<Rightarrow> jcs_int n
      | VFloat x \<Rightarrow> jcs_number x
      | VList vs \<Rightarrow> rbind (mapR (jcs_write d) vs) (\<lambda>ss. Inr (91 # join_with [44] ss @ [93]))
      | VDict kvs \<Rightarrow>
          rbind (sorted_pairs kvs) (\<lambda>ps.
          rbind (mapR (\<lambda>(k, x). rbind (jcs_write d x) (\<lambda>t. Inr (jcs_string k @ [58] @ t))) ps) (\<lambda>ss.
          Inr (123 # join_with [44] ss @ [125])))
      | _ \<Rightarrow> Inl TypeError)"

definition jcs_canonicalize :: "nat \<Rightarrow> pyval \<Rightarrow> bytes res" where
  "jcs_canonicalize depth obj = rbind (jcs_write depth obj) utf8_encode"

definition tool_input_digest :: "bytes \<Rightarrow> ustr" where
  "tool_input_digest canonical = ustr ''sha256:'' @ hex (sha256 canonical)"

section \<open>Numbers read back\<close>

text \<open>The texts of JSON numbers: sign, integer part, fraction, exponent.\<close>

definition exp_text :: "int option \<Rightarrow> ustr" where
  "exp_text ex =
     (case ex of None \<Rightarrow> []
      | Some e \<Rightarrow> [101] @ (if 0 \<le> e then [43] else [45]) @ str_nat (nat \<bar>e\<bar>))"

lemma digits_stop: "list_all is_digit ds \<Longrightarrow> (case t of [] \<Rightarrow> True | c # _ \<Rightarrow> \<not> is_digit c) \<Longrightarrow> takeWhile is_digit (ds @ t) = ds"
  by (induction ds) (auto split: list.splits)

lemma follows_stop: "follows r \<Longrightarrow> (case r of [] \<Rightarrow> True | c # _ \<Rightarrow> \<not> is_digit c)"
  by (auto simp: follows_def split: list.splits)

lemma exp_stop: "follows r \<Longrightarrow> (case exp_text ex @ r of [] \<Rightarrow> True | c # _ \<Rightarrow> \<not> is_digit c)"
  using follows_stop by (auto simp: exp_text_def is_digit_def split: option.splits)

lemma scan_fraction_text:
  assumes "list_all is_digit fp" "follows r"
  shows "scan_fraction ((if fp = [] then [] else 46 # fp) @ exp_text ex @ r) = (fp, exp_text ex @ r)"
proof (cases "fp = []")
  case True
  then show ?thesis
    using scan_ends(1) [OF assms(2)] by (cases ex) (simp_all add: exp_text_def scan_fraction_def)
next
  case False
  then show ?thesis
    using digits_stop [OF assms(1) exp_stop [OF assms(2)]] by (simp add: scan_fraction_def Let_def)
qed

lemma scan_exponent_text:
  assumes "follows r"
  shows "scan_exponent (exp_text ex @ r) = (ex, r)"
proof (cases ex)
  case None
  then show ?thesis using scan_ends(2) [OF assms] by (simp add: exp_text_def)
next
  case (Some e)
  show ?thesis
    using str_nat_nonempty
    by (simp add: Some exp_text_def scan_exponent_def Let_def nat_of_digits_str takeWhile_str_nat [OF assms])
qed

lemma scan_number_text:
  assumes ip: "list_all is_digit ip" "ip \<noteq> []" "hd ip = 48 \<longrightarrow> ip = [48]" "length ip \<le> INT_MAX_STR_DIGITS"
    and fp: "list_all is_digit fp" and r: "follows r"
  shows "scan_number ((if neg then [45] else []) @ ip @ (if fp = [] then [] else 46 # fp) @ exp_text ex @ r) =
    Inr (if fp = [] \<and> ex = None then VInt (if neg then - int (nat_of_digits ip) else int (nat_of_digits ip))
         else VFloat (f64_of_decimal neg (nat_of_digits (ip @ fp)) ((case ex of None \<Rightarrow> 0 | Some e \<Rightarrow> e) - int (length fp))), r)"
proof -
  let ?t = "(if fp = [] then [] else 46 # fp) @ exp_text ex @ r"
  have stop: "case ?t of [] \<Rightarrow> True | c # _ \<Rightarrow> \<not> is_digit c"
    using exp_stop [OF r, of ex] by (cases "fp = []") (auto simp: is_digit_def)
  have ds: "takeWhile is_digit (ip @ ?t) = ip" by (rule digits_stop [OF ip(1) stop])
  have hd: "(if ip \<noteq> [] \<and> hd ip = 48 then [48] else ip) = ip" using ip(2,3) by auto
  have sign: "(case (if neg then [45] else []) @ ip @ ?t of [] \<Rightarrow> False | c # _ \<Rightarrow> c = 45) = neg"
    using ip(1,2) by (cases ip) (auto simp: is_digit_def)
  have body: "(if neg then tl ((if neg then [45] else []) @ ip @ ?t) else (if neg then [45] else []) @ ip @ ?t) = ip @ ?t"
    by simp
  show ?thesis
    unfolding scan_number_def Let_def sign body ds hd
    using ip(2,4) by (simp add: scan_fraction_text [OF fp r] scan_exponent_text [OF r])
qed

text \<open>What the canonical text of a float reads as: an integer when it is written without a point, the
  same double otherwise.\<close>

definition jcs_norm_float :: "f64 \<Rightarrow> pyval" where
  "jcs_norm_float x =
     (if f64_zero x then VInt 0
      else let (digits, n) = jcs_digits (f64_abs x); m = nat_of_digits digits; k = int (length digits)
           in if k \<le> n \<and> n \<le> 21 then
                VInt (if f64_negative x then - int (m * 10 ^ nat (n - k)) else int (m * 10 ^ nat (n - k)))
              else VFloat x)"

definition plain_digits :: "ustr \<Rightarrow> bool" where
  "plain_digits ds \<longleftrightarrow> list_all is_digit ds \<and> ds \<noteq> [] \<and> hd ds \<noteq> 48"

lemma es6_reads:
  assumes ds: "plain_digits ds" and r: "follows r"
  shows "scan_number ((if neg then [45] else []) @ es6_body ds n @ r) =
    Inr (if int (length ds) \<le> n \<and> n \<le> 21
         then VInt (if neg then - int (nat_of_digits ds * 10 ^ nat (n - int (length ds))) else int (nat_of_digits ds * 10 ^ nat (n - int (length ds))))
         else VFloat (f64_of_decimal neg (nat_of_digits ds) (n - int (length ds))), r)"
proof -
  let ?k = "int (length ds)"
  note T = scan_number_text [OF _ _ _ _ _ r, where neg = neg]
  from ds have d: "list_all is_digit ds" "ds \<noteq> []" "hd ds \<noteq> 48"
    by (simp_all add: plain_digits_def)
  have z: "list_all is_digit (replicate j 48)" for j by (simp add: list_all_iff is_digit_def)
  consider (int) "?k \<le> n" "n \<le> 21" | (frac) "0 < n" "n < ?k" "n \<le> 21" | (small) "- 6 < n" "n \<le> 0"
    | (sci) "\<not> (- 6 < n \<and> n \<le> 21)" by linarith
  then show ?thesis
  proof cases
    case int
    then have b: "es6_body ds n = ds @ replicate (nat (n - ?k)) 48" by (simp add: es6_body_def Let_def)
    have len: "length (ds @ replicate (nat (n - ?k)) 48) \<le> INT_MAX_STR_DIGITS"
      using int by (simp add: INT_MAX_STR_DIGITS_def)
    from T [of "ds @ replicate (nat (n - ?k)) 48" "[]" None] d z len int show ?thesis
      unfolding b by (simp add: exp_text_def nat_of_digits_append)
  next
    case frac
    then have b: "es6_body ds n = take (nat n) ds @ [46] @ drop (nat n) ds" by (simp add: es6_body_def Let_def)
    have f: "take (nat n) ds \<noteq> []" "drop (nat n) ds \<noteq> []" "hd (take (nat n) ds) \<noteq> 48" "length (drop (nat n) ds) = nat (?k - n)"
      using frac d(2,3) by (auto simp: hd_take)
    have "list_all is_digit (take (nat n) ds)" "list_all is_digit (drop (nat n) ds)"
      using d(1) by (auto simp: list_all_iff dest: in_set_takeD in_set_dropD)
    from T [of "take (nat n) ds" "drop (nat n) ds" None] this f frac show ?thesis
      unfolding b by (simp add: exp_text_def INT_MAX_STR_DIGITS_def)
  next
    case small
    then have nk: "\<not> ?k \<le> n" using d(2) by (cases ds) simp_all
    then have b: "es6_body ds n = [48] @ 46 # replicate (nat (- n)) 48 @ ds"
      using small by (simp add: es6_body_def Let_def)
    have m: "nat_of_digits ([48] @ replicate (nat (- n)) 48 @ ds) = nat_of_digits ds"
      by (simp add: nat_of_digits_append nat_of_digits_zero)
    have "scan_number ((if neg then [45] else []) @ [48] @ (46 # replicate (nat (- n)) 48 @ ds) @ r) =
        Inr (VFloat (f64_of_decimal neg (nat_of_digits ds) (0 - int (length (replicate (nat (- n)) 48 @ ds)))), r)"
      using T [of "[48]" "replicate (nat (- n)) 48 @ ds" None] d z m
      by (simp add: exp_text_def INT_MAX_STR_DIGITS_def is_digit_def)
    with nk small show ?thesis unfolding b by simp
  next
    case sci
    obtain c cs where c: "ds = c # cs" using d(2) by (cases ds) auto
    have b: "es6_body ds n = [c] @ (if cs = [] then [] else 46 # cs) @ exp_text (Some (n - 1))"
      using sci by (auto simp: es6_body_def Let_def exp_text_def c)
    have "scan_number ((if neg then [45] else []) @ [c] @ (if cs = [] then [] else 46 # cs) @ exp_text (Some (n - 1)) @ r) =
        Inr (VFloat (f64_of_decimal neg (nat_of_digits ([c] @ cs)) (n - 1 - int (length cs))), r)"
      using T [of "[c]" cs "Some (n - 1)"] d by (simp add: INT_MAX_STR_DIGITS_def c)
    moreover have "\<not> (?k \<le> n \<and> n \<le> 21)" using sci c by simp
    ultimately show ?thesis unfolding b by (simp add: c diff_diff_eq)
  qed
qed

lemma jcs_digits_read:
  assumes "f64_isfinite x" "\<not> f64_negative x" "f64_units x \<noteq> 0" "jcs_digits x = (ds, n)"
  shows "plain_digits ds" "f64_of_decimal False (nat_of_digits ds) (n - int (length ds)) = x"
proof -
  obtain es q j where es: "repr_tuple x = (es @ replicate j 48, q - int j)" "es \<noteq> []" "hd es \<noteq> 48" "last es \<noteq> 48"
    "list_all is_digit es" "f64_of_decimal False (nat_of_digits es) q = x"
    by (rule repr_tuple_digits [OF assms(1-3)])
  have "strip_zeros (es @ replicate j 48) = es" unfolding strip_zeros_def by (rule rstrip_last [OF es(2,4)])
  with assms(4) es(1,2) have "ds = es" "n = int (length es) + q" by (auto simp: jcs_digits_def Let_def)
  with es show "plain_digits ds" "f64_of_decimal False (nat_of_digits ds) (n - int (length ds)) = x"
    by (simp_all add: plain_digits_def)
qed

lemma f64_abs_bits:
  assumes "f64_negative x"
  shows "unat (f64_abs x) = unat x - 2 ^ 63" "f64_abs x + 2 ^ 63 = x"
  using assms by (simp_all add: f64_abs_def f64_negative_def unat_sub_if_size word_le_nat_alt)

lemma f64_abs_parts:
  "\<not> f64_negative (f64_abs x)" "f64_exponent (f64_abs x) = f64_exponent x" "f64_fraction (f64_abs x) = f64_fraction x"
proof -
  have "\<not> f64_negative (f64_abs x) \<and> f64_exponent (f64_abs x) = f64_exponent x \<and> f64_fraction (f64_abs x) = f64_fraction x"
  proof (cases "f64_negative x")
    case True
    have lt: "unat x < 2 ^ 64" using unsigned_less [of x] by simp
    obtain r where r: "unat x = r + 2 ^ 63" using True by (metis f64_negative_def le_add_diff_inverse2)
    have "(r + 2 ^ 63) div 2 ^ 52 = r div 2 ^ 52 + 2 ^ 11" by simp
    moreover have "(r + 2 ^ 63) mod 2 ^ 52 = r mod (2 ^ 52 :: nat)"
      using mod_mult_self1 [of r "2 ^ 11" "2 ^ 52"] by (simp only: power_add [symmetric]) simp
    ultimately show ?thesis using f64_abs_bits(1) [OF True] lt
      by (simp add: f64_negative_def f64_exponent_def f64_fraction_def r)
  qed (simp add: f64_abs_def)
  then show "\<not> f64_negative (f64_abs x)" "f64_exponent (f64_abs x) = f64_exponent x" "f64_fraction (f64_abs x) = f64_fraction x"
    by blast+
qed

lemma json_value_signed:
  assumes "is_digit c" shows "json_value hook depth ((if neg then [45] else []) @ c # cs) = scan_number ((if neg then [45] else []) @ c # cs)"
  using assms json_value_number by (cases neg) (auto simp del: json_value.simps)

lemma es6_body_digit: "plain_digits ds \<Longrightarrow> \<exists>c cs. es6_body ds n = c # cs \<and> is_digit c"
  by (cases ds) (auto simp: es6_body_def Let_def plain_digits_def is_digit_def take_Cons')

lemma reads_number:
  assumes "is_digit c" "\<And>r. follows r \<Longrightarrow> scan_number ((if neg then [45] else []) @ (c # cs) @ r) = Inr (v, r)"
  shows "reads hook depth v ((if neg then [45] else []) @ c # cs)"
proof -
  have "json_value hook depth (((if neg then [45] else []) @ c # cs) @ r) = Inr (v, r)" if "follows r" for r
    using assms(2) [OF that] json_value_signed [OF assms(1), of hook depth neg "cs @ r"] by simp
  moreover have "hd ((if neg then [45] else []) @ c # cs) \<in> {45, c}" by simp
  ultimately show ?thesis using assms(1) by (auto simp: reads_def is_json_space_def is_digit_def)
qed

lemma f64_sides:
  assumes "\<not> f64_isnan x" "\<not> f64_isinf x" "\<not> f64_zero x"
  shows "f64_isfinite x" "f64_isfinite (f64_abs x)" "f64_units (f64_abs x) \<noteq> 0"
  using assms f64_abs_parts [of x]
  by (auto simp: f64_isnan_def f64_isinf_def f64_zero_def f64_isfinite_def f64_units_def)

lemma jcs_number_reads:
  assumes "jcs_number x = Inr s"
  shows "reads hook depth (jcs_norm_float x) s"
proof (cases "f64_zero x")
  case True
  then have "\<not> f64_isnan x" "\<not> f64_isinf x" by (auto simp: f64_zero_def f64_isnan_def f64_isinf_def f64_isfinite_def)
  with assms True have "s = str_int 0" by (simp add: jcs_number_def str_int_def str_nat.simps)
  with True show ?thesis using reads_int [of 0] by (simp add: jcs_norm_float_def str_nat.simps INT_MAX_STR_DIGITS_def)
next
  case False
  let ?neg = "f64_negative x"
  obtain ds n where dn: "jcs_digits (f64_abs x) = (ds, n)" by (cases "jcs_digits (f64_abs x)")
  from assms False have fin: "\<not> f64_isnan x" "\<not> f64_isinf x" and s: "s = (if ?neg then [45] else []) @ es6_body ds n"
    by (auto simp: jcs_number_def dn split: if_splits)
  note sides = f64_sides [OF fin False]
  have ds: "plain_digits ds" and val: "f64_of_decimal False (nat_of_digits ds) (n - int (length ds)) = f64_abs x"
    using jcs_digits_read [OF sides(2) f64_abs_parts(1) sides(3) dn] by auto
  have signed: "f64_of_decimal ?neg (nat_of_digits ds) (n - int (length ds)) = x"
  proof (cases ?neg)
    case True
    then show ?thesis using val f64_abs_bits(2) [OF True] by (simp add: f64_of_decimal_neg)
  next
    case neg: False
    then show ?thesis using val by (simp add: f64_abs_def)
  qed
  obtain c cs where c: "es6_body ds n = c # cs" "is_digit c" using es6_body_digit [OF ds] by blast
  have "scan_number ((if ?neg then [45] else []) @ (c # cs) @ r) = Inr (jcs_norm_float x, r)" if "follows r" for r
    using es6_reads [OF ds that, of ?neg n] False unfolding c(1) [symmetric] signed
    by (simp add: jcs_norm_float_def dn Let_def)
  from reads_number [OF c(2) this] show ?thesis unfolding s c(1) .
qed

lemma jcs_int_text: "jcs_int n = Inr t \<Longrightarrow> t = str_int n"
  by (auto simp: jcs_int_def Let_def rbind_eq_Inr split: if_splits sum.splits)

lemma jcs_int_digits:
  assumes "jcs_int n = Inr t" shows "length (str_nat (nat \<bar>n\<bar>)) \<le> INT_MAX_STR_DIGITS"
proof (cases "- MAX_SAFE_INT \<le> n \<and> n \<le> MAX_SAFE_INT")
  case True
  then show ?thesis by (intro int64_digits) (auto simp: MAX_SAFE_INT_def)
next
  case False
  then obtain x where "f64_of_int n = Inr x" using assms by (auto simp: jcs_int_def Let_def split: sum.splits)
  then have b: "bit_length (nat \<bar>n\<bar>) \<le> 1024" by (auto simp: f64_of_int_def Let_def split: if_splits)
  have "nat \<bar>n\<bar> < 2 ^ 1024"
  proof (cases "nat \<bar>n\<bar> = 0")
    case nz: False
    have "(2 :: nat) ^ bit_length (nat \<bar>n\<bar>) \<le> 2 ^ 1024" using b by (intro power_increasing) simp_all
    with bit_length_bounds [OF nz] show ?thesis by (meson less_le_trans)
  qed (simp only: zero_less_power pos2)
  also have "(2 :: nat) ^ 1024 \<le> 10 ^ Suc 308" by simp
  finally have "length (str_nat (nat \<bar>n\<bar>)) \<le> Suc 308" by (rule str_nat_length)
  then show ?thesis by (simp add: INT_MAX_STR_DIGITS_def)
qed

section \<open>Values read back\<close>

lemma jcs_escape_spells: "spells c (jcs_escape c)"
  unfolding jcs_escape_def
  using spells_escape [of 98 8] spells_escape [of 116 9] spells_escape [of 110 10] spells_escape [of 102 12]
    spells_escape [of 114 13] spells_escape [of 34 34] spells_escape [of 92 92] spells_u [of c] spells_plain [of c]
  by (auto simp: json_escape_def is_high_def)

lemma jcs_string_scan: "scan_string (concat (map jcs_escape t) @ 34 # r) = Inr (t, r)"
  by (rule scan_spelled) (simp add: list_all_iff jcs_escape_spells)

lemma jcs_string_reads: "reads hook depth (VStr t) (jcs_string t)"
  unfolding jcs_string_def by (rule reads_str) (simp add: list_all_iff jcs_escape_spells)

text \<open>The value canonical text stands for: keys in canonical order, integral floats as integers.\<close>

fun jcs_norm :: "pyval \<Rightarrow> pyval" where
  "jcs_norm (VFloat x) = jcs_norm_float x"
| "jcs_norm (VList vs) = VList (map jcs_norm vs)"
| "jcs_norm (VDict kvs) =
     VDict (case sorted_pairs (map (\<lambda>kv. (fst kv, jcs_norm (snd kv))) kvs) of
              Inl _ \<Rightarrow> [] | Inr ps \<Rightarrow> map (\<lambda>(k, v). (VStr k, v)) ps)"
| "jcs_norm v = v"

lemma mapR_str_key: "mapR str_key d = Inr kvs \<longleftrightarrow> d = map (\<lambda>(k, v). (VStr k, v)) kvs"
proof (induction d arbitrary: kvs)
  case (Cons kv d)
  have "str_key kv = Inr p \<longleftrightarrow> kv = (VStr (fst p), snd p)" for p
    by (cases kv; cases p) (auto simp: str_key_def split: pyval.splits)
  with Cons show ?case by (cases kvs) (auto simp: rbind_eq_Inr split_beta)
qed auto

lemma keyed_Inr: "keyed kv = Inr x \<longleftrightarrow> utf16_be_encode (fst kv) = Inr (fst x) \<and> snd x = kv"
  by (cases x) (auto simp: keyed_def rbind_eq_Inr)

lemma insort_key_map: "insort_key f (h x) (map h xs) = map h (insort_key (\<lambda>y. f (h y)) x xs)"
  by (induction xs) auto

lemma sort_key_map: "sort_key f (map h xs) = map h (sort_key (\<lambda>y. f (h y)) xs)"
  by (induction xs) (simp_all add: insort_key_map)

lemma sorted_pairs_Inr:
  "sorted_pairs d = Inr ps \<longleftrightarrow>
     (\<exists>kvs ks. d = map (\<lambda>(k, v). (VStr k, v)) kvs \<and> list_all2 (\<lambda>kv x. utf16_be_encode (fst kv) = Inr (fst x) \<and> snd x = kv) kvs ks \<and>
        ps = map snd (sort_key fst ks))"
  unfolding sorted_pairs_def rbind_eq_Inr mapR_str_key unfolding mapR_eq_Inr keyed_Inr by auto

lemma sorted_pairs_map:
  assumes "sorted_pairs d = Inr ps"
  shows "sorted_pairs (map (\<lambda>kv. (fst kv, f (snd kv))) d) = Inr (map (\<lambda>(k, v). (k, f v)) ps)"
proof -
  let ?g = "\<lambda>(k, v). (k, f v)" and ?h = "\<lambda>(b, k, v). (b, k, f v)"
  from assms obtain kvs ks where k: "d = map (\<lambda>(k, v). (VStr k, v)) kvs"
    "list_all2 (\<lambda>kv x. utf16_be_encode (fst kv) = Inr (fst x) \<and> snd x = kv) kvs ks" "ps = map snd (sort_key fst ks)"
    unfolding sorted_pairs_Inr by blast
  have "map (\<lambda>kv. (fst kv, f (snd kv))) d = map (\<lambda>(k, v). (VStr k, v)) (map ?g kvs)"
    unfolding k(1) by (simp add: split_beta)
  moreover have "list_all2 (\<lambda>kv x. utf16_be_encode (fst kv) = Inr (fst x) \<and> snd x = kv) (map ?g kvs) (map ?h ks)"
    unfolding list.rel_map by (rule list_all2_mono [OF k(2)]) auto
  moreover have "map ?g ps = map snd (sort_key fst (map ?h ks))"
    unfolding k(3) sort_key_map by (simp add: split_beta)
  ultimately show ?thesis unfolding sorted_pairs_Inr by blast
qed

lemma sorted_pairs_keys:
  assumes "sorted_pairs d = Inr ps" shows "mset (map (\<lambda>(k, v). (VStr k, v)) ps) = mset d"
proof -
  from assms obtain kvs ks where k: "d = map (\<lambda>(k, v). (VStr k, v)) kvs"
    "list_all2 (\<lambda>kv x. utf16_be_encode (fst kv) = Inr (fst x) \<and> snd x = kv) kvs ks" "ps = map snd (sort_key fst ks)"
    unfolding sorted_pairs_Inr by blast
  from k(2) have kvs: "kvs = map snd ks" by (induction rule: list_all2_induct) auto
  show ?thesis unfolding k(1,3) kvs by (simp only: mset_map mset_sort)
qed

lemma jcs_norm_dict: "sorted_pairs d = Inr ps \<Longrightarrow> jcs_norm (VDict d) = VDict (map (\<lambda>(k, v). (VStr k, jcs_norm v)) ps)"
  by (simp add: sorted_pairs_map [of _ _ jcs_norm] split_beta)

lemma plain_dict_pairs: "distinct (map fst kvs) \<Longrightarrow> plain_dict kvs = Inr (VDict (map (\<lambda>(k, v). (VStr k, v)) kvs))"
  by (rule plain_hook.hook_distinct)

lemma jcs_members_read:
  assumes "sorted_pairs kvs = Inr ps" "distinct (map fst kvs)"
    and "list_all2 (\<lambda>(k, x) s. \<exists>t. s = jcs_string k @ [58] @ t \<and> reads plain_dict d (jcs_norm x) t) ps ss"
  shows "reads plain_dict (Suc d) (jcs_norm (VDict kvs)) (123 # join_with [44] ss @ [125])"
proof -
  have "mset (map fst kvs) = mset (map (\<lambda>p. VStr (fst p)) ps)"
    using arg_cong [OF sorted_pairs_keys [OF assms(1)], of "image_mset fst"] by (simp add: multiset.map_comp o_def split_beta)
  then have "distinct (map (\<lambda>p. VStr (fst p)) ps)" using assms(2) by (metis mset_eq_imp_distinct_iff)
  then have dist: "distinct (map fst ps)" by (auto simp: distinct_map inj_on_def)
  let ?n = "map (\<lambda>(k, x). (k, jcs_norm x)) ps"
  have hook: "plain_dict ?n = Inr (jcs_norm (VDict kvs))"
    using dist plain_dict_pairs [of ?n] by (simp add: jcs_norm_dict [OF assms(1)] split_beta o_def del: jcs_norm.simps)
  show ?thesis
  proof (cases "ss = []")
    case True
    then show ?thesis using hook assms(3) reads_empty_dict [of plain_dict] by (simp del: jcs_norm.simps)
  next
    case False
    have "list_all2 (\<lambda>(k, v) s. \<exists>body t. s = 34 # body @ 34 # [] @ 58 # [] @ t \<and> (\<forall>r. scan_string (body @ 34 # r) = Inr (k, r)) \<and>
        reads plain_dict d v t) ?n ss"
      unfolding list.rel_map
      by (rule list_all2_mono [OF assms(3)]) (force simp: jcs_string_def jcs_string_scan)
    from reads_dict [OF this False _ _ _ _ _ _ hook, of "[]" "[]" "[]" "[]"] show ?thesis by (simp del: jcs_norm.simps)
  qed
qed

lemma jcs_int_reads: "jcs_int n = Inr t \<Longrightarrow> reads hook depth (VInt n) t"
  using reads_int [OF jcs_int_digits] jcs_int_text by metis

lemma literals_read:
  "reads hook depth VNone (ustr ''null'')" "reads hook depth (VBool True) (ustr ''true'')" "reads hook depth (VBool False) (ustr ''false'')"
  unfolding literals by (simp_all add: reads_def is_json_space_def literals startswith_Cons)

lemma jcs_write_reads:
  "distinct_deep v \<Longrightarrow> jcs_write d v = Inr s \<Longrightarrow> reads plain_dict d (jcs_norm v) s"
proof (induction d arbitrary: v s)
  case (Suc d)
  note IH = Suc.IH and w = Suc.prems
  show ?case
  proof (cases v)
    case (VBool b)
    then show ?thesis using w(2) literals_read by (cases b) auto
  next
    case (VList vs)
    then obtain ss where ss: "list_all2 (\<lambda>x s. jcs_write d x = Inr s) vs ss" "s = 91 # join_with [44] ss @ [93]"
      using w(2) by (auto simp: rbind_eq_Inr mapR_eq_Inr)
    have "list_all2 (reads plain_dict d) (map jcs_norm vs) ss"
      unfolding list.rel_map
    proof (rule list.rel_mono_strong [OF ss(1)])
      fix x y assume "x \<in> set vs" "jcs_write d x = Inr y"
      with w(1) VList show "reads plain_dict d (jcs_norm x) y" by (auto simp: list_all_iff intro: IH)
    qed
    with reads_list [OF this, of "[]" "[]" "[]" "[]"] reads_empty [of plain_dict d] VList ss(2) show ?thesis
      by (cases "ss = []") auto
  next
    case (VDict kvs)
    from w(2) obtain ps ss where ps: "sorted_pairs kvs = Inr ps" and s: "s = 123 # join_with [44] ss @ [125]"
      and ss: "list_all2 (\<lambda>p s. \<exists>t. jcs_write d (snd p) = Inr t \<and> jcs_string (fst p) @ 58 # t = s) ps ss"
      by (auto simp: VDict rbind_eq_Inr mapR_eq_Inr split_beta)
    have dist: "distinct (map fst kvs)" and deep: "\<forall>kv \<in> set kvs. distinct_deep (snd kv)"
      using w(1) VDict by (auto simp: list_all_iff)
    have "set (map (\<lambda>(k, v). (VStr k, v)) ps) = set kvs" using sorted_pairs_keys [OF ps] by (metis set_mset_mset)
    then have deep': "distinct_deep (snd p)" if "p \<in> set ps" for p using deep that by (force simp: split_beta)
    have "list_all2 (\<lambda>(k, x) s. \<exists>t. s = jcs_string k @ [58] @ t \<and> reads plain_dict d (jcs_norm x) t) ps ss"
      by (rule list.rel_mono_strong [OF ss]) (use deep' IH in fastforce)
    from jcs_members_read [OF ps dist this] show ?thesis unfolding VDict s .
  qed (use w jcs_string_reads jcs_number_reads jcs_int_reads literals_read in auto)
qed simp

section \<open>Bytes\<close>

lemma utf8_step_sp_step: "utf8_step bs = Some (c, r) \<Longrightarrow> utf8_step_sp bs = Some (c, r)"
  by (cases bs rule: utf8_step_sp.cases) (auto simp: Let_def word_less_nat_alt word_le_nat_alt split: if_splits list.splits)

lemma utf8_decode_sp_encode: "utf8_encode s = Inr b \<Longrightarrow> utf8_decode_sp b = Inr s"
proof (induction s arbitrary: b)
  case Nil
  then show ?case by (simp add: utf8_encode_def utf8_decode_sp.simps)
next
  case (Cons c s)
  then obtain x y where xy: "utf8_cp c = Inr x" "utf8_encode s = Inr y" "b = x @ y"
    by (auto simp: utf8_encode_def rbind_eq_Inr)
  with Cons.IH utf8_step_sp_step [OF utf8_step_cp [OF xy(1)]] utf8_cp_nonempty [OF xy(1)] show ?case
    by (subst utf8_decode_sp.simps) simp
qed

text \<open>Text that starts with an ASCII character and has no NUL is taken for UTF-8.\<close>

lemma json_decode_utf8:
  assumes "utf8_encode (c # s) = Inr b" "c < 0x80" "0 \<notin> set (c # s)"
  shows "json_decode_bytes b = Inr (c # s)"
proof -
  from assms(1,2) obtain y where y: "b = of_nat c # y" "utf8_encode s = Inr y"
    by (auto simp: utf8_encode_def rbind_eq_Inr utf8_cp_def)
  have nz: "b ! i \<noteq> 0" if "i < length b" for i
    using utf8_no_nul [OF assms(1,3)] that nth_mem by metis
  have c: "unat (of_nat c :: byte) < 0x80" using assms(2) by (simp add: unat_byte_of_nat)
  have "\<not> startswith b (x # z)" if "x \<in> {0x00, 0xFF, 0xFE, 0xEF}" for x z
    using that c nz [of 0] y(1) by (auto simp: startswith_Cons)
  moreover have "b ! 0 \<noteq> 0" using nz [of 0] y(1) by simp
  moreover have "2 \<le> length b \<Longrightarrow> b ! 1 \<noteq> 0" using nz [of 1] by simp
  ultimately have "detect_encoding b = Utf8" by (simp add: detect_encoding_def)
  then show ?thesis using utf8_decode_sp_encode [OF assms(1)] by (simp add: json_decode_bytes_def)
qed

text \<open>Canonical text has no control characters.\<close>

abbreviation printable :: "ustr \<Rightarrow> bool" where
  "printable s \<equiv> list_all (\<lambda>c. 0x20 \<le> c) s"

lemma digits_printable: "list_all is_digit ds \<Longrightarrow> printable ds"
  by (auto simp: list_all_iff is_digit_def)

lemma jcs_string_printable: "printable (jcs_string s)"
proof -
  have "printable (hex_04x c)" if "c < 0x20" for c
    by (simp add: hex_04x_def hex_digit_def)
  then have "printable (jcs_escape c)" for c by (auto simp: jcs_escape_def)
  then show ?thesis by (simp add: jcs_string_def list_all_iff)
qed

lemma jcs_number_printable: "jcs_number x = Inr s \<Longrightarrow> printable s"
proof -
  assume w: "jcs_number x = Inr s"
  show ?thesis
  proof (cases "f64_zero x")
    case True
    with w show ?thesis by (auto simp: jcs_number_def split: if_splits)
  next
    case False
    obtain ds n where dn: "jcs_digits (f64_abs x) = (ds, n)" by (cases "jcs_digits (f64_abs x)")
    from w False have fin: "\<not> f64_isnan x" "\<not> f64_isinf x" and s: "s = (if f64_negative x then [45] else []) @ es6_body ds n"
      by (auto simp: jcs_number_def dn split: if_splits)
    have "printable ds"
      using jcs_digits_read(1) [OF f64_sides(2) [OF fin False] f64_abs_parts(1) f64_sides(3) [OF fin False] dn]
      by (simp add: plain_digits_def digits_printable)
    then show ?thesis unfolding s es6_body_def Let_def using digits_printable [OF str_nat_is_digit]
      by (auto simp: list_all_iff dest: in_set_takeD in_set_dropD)
  qed
qed

lemma str_int_printable: "printable (str_int n)"
  using digits_printable [OF str_nat_is_digit] by (simp add: str_int_def)

lemma join_printable: "list_all printable ss \<Longrightarrow> printable (join_with [44] ss)"
  using join_with_all [of "\<lambda>c. 0x20 \<le> c" "[44]" ss] by (simp add: list_all_iff)

lemma jcs_write_printable: "jcs_write d v = Inr s \<Longrightarrow> printable s"
proof (induction d arbitrary: v s)
  case (Suc d)
  show ?case
  proof (cases v)
    case (VBool b)
    then show ?thesis using Suc.prems by (cases b) (auto simp: ustr_def)
  next
    case (VInt n)
    then show ?thesis using Suc.prems jcs_int_text str_int_printable by auto
  next
    case (VList vs)
    then obtain ss where ss: "list_all2 (\<lambda>x s. jcs_write d x = Inr s) vs ss" "s = 91 # join_with [44] ss @ [93]"
      using Suc.prems by (auto simp: rbind_eq_Inr mapR_eq_Inr)
    from ss(1) have "list_all printable ss" by (induction rule: list_all2_induct) (auto intro: Suc.IH)
    then show ?thesis using ss(2) join_printable by simp
  next
    case (VDict kvs)
    then obtain ps ss where s: "s = 123 # join_with [44] ss @ [125]"
      and ss: "list_all2 (\<lambda>p s. \<exists>t. jcs_write d (snd p) = Inr t \<and> jcs_string (fst p) @ 58 # t = s) ps ss"
      using Suc.prems by (auto simp: rbind_eq_Inr mapR_eq_Inr split_beta)
    from ss have "list_all printable ss"
      by (induction rule: list_all2_induct) (auto simp: jcs_string_printable Suc.IH)
    then show ?thesis using s join_printable by simp
  qed (use Suc.prems jcs_string_printable jcs_number_printable in \<open>auto simp: ustr_def\<close>)
qed simp

lemma reads_ascii: "reads hook depth v (c # s) \<Longrightarrow> c < 0x80"
proof (rule ccontr)
  assume r: "reads hook depth v (c # s)" and c: "\<not> c < 0x80"
  from r have "follows [] \<longrightarrow> json_value hook depth ((c # s) @ []) = Inr (v, [])" unfolding reads_def by blast
  then have "json_value hook depth (c # s) = Inr (v, [])" by (simp add: follows_def del: json_value.simps)
  moreover have "json_value hook depth (c # s) = scan_number (c # s)"
    using c unfolding json_value.simps literals startswith_Cons by auto
  moreover have "scan_number (c # s) = Inl JSONDecodeError"
    using c by (auto simp: scan_number_def Let_def is_digit_def split: prod.splits)
  ultimately show False by simp
qed

lemma jcs_loads:
  assumes "distinct_deep v" "jcs_canonicalize depth v = Inr b"
  shows "json_loads_bytes plain_dict depth b = Inr (jcs_norm v)"
proof -
  from assms(2) obtain s where s: "jcs_write depth v = Inr s" "utf8_encode s = Inr b"
    by (auto simp: jcs_canonicalize_def rbind_eq_Inr)
  have r: "reads plain_dict depth (jcs_norm v) s" using jcs_write_reads [OF assms(1) s(1)] .
  then obtain c t where c: "s = c # t" by (cases s) (auto simp: reads_def)
  have "c < 0x80" using reads_ascii r c by blast
  moreover have "0 \<notin> set (c # t)" using jcs_write_printable [OF s(1)] by (auto simp: c list_all_iff)
  ultimately have "json_decode_bytes b = Inr s" using json_decode_utf8 s(2) unfolding c by blast
  then show ?thesis using reads_loads [OF r, of "[]"] \<open>c < 0x80\<close> by (simp add: json_loads_bytes_def c)
qed


definition example_input :: pyval where
  "example_input = VDict [(VStr (ustr ''b''), VInt 1), (VStr (ustr ''a''), VList [VBool True, VStr [10]])]"

definition example_canonical :: bytes where
  "example_canonical =
     [123, 34, 97, 34, 58, 91, 116, 114, 117, 101, 44, 34, 92, 110, 34, 93, 44, 34, 98, 34, 58, 49, 125]"

lemma example_sorted:
  "sorted_pairs [(VStr (ustr ''b''), v), (VStr (ustr ''a''), w)] = Inr [(ustr ''a'', w), (ustr ''b'', v)]"
  "sorted_pairs [(VStr (ustr ''a''), w), (VStr (ustr ''b''), v)] = Inr [(ustr ''a'', w), (ustr ''b'', v)]"
  by (simp_all add: sorted_pairs_def str_key_def keyed_def utf16_be_encode_def utf16_cp_def utf16_unit_def ustr_def
      list_less_def list_le_def lexordp_def word_less_nat_alt)

definition example_reordered :: pyval where
  "example_reordered = VDict [(VStr (ustr ''a''), VList [VBool True, VStr [10]]), (VStr (ustr ''b''), VInt 1)]"

lemma example_canonicalized:
  "distinct_deep example_input" "jcs_canonicalize 3 example_input = Inr example_canonical"
  "distinct_deep example_reordered" "jcs_canonicalize 3 example_reordered = Inr example_canonical"
proof -
  have i: "jcs_int 1 = Inr [49]" by (simp add: jcs_int_def MAX_SAFE_INT_def str_int_def str_nat.simps)
  show "distinct_deep example_input" "distinct_deep example_reordered"
    by (simp_all add: example_input_def example_reordered_def ustr_def)
  show "jcs_canonicalize 3 example_input = Inr example_canonical" "jcs_canonicalize 3 example_reordered = Inr example_canonical"
    unfolding example_input_def example_reordered_def jcs_canonicalize_def
    by (simp_all add: numeral_3_eq_3 example_sorted i jcs_string_def jcs_escape_def)
      (simp_all add: ustr_def jcs_escape_def utf8_encode_ascii example_canonical_def)
qed

lemma example_norm: "jcs_norm example_input = example_reordered" "jcs_norm example_reordered = example_reordered"
  by (simp_all add: example_input_def example_reordered_def example_sorted)


text \<open>C11: Two tool inputs with the same digest are the same JSON value, or their canonical bytes are an
  explicit SHA-256 collision.\<close>

theorem tool_input_digest_binds:
  assumes "distinct_deep v" "jcs_canonicalize depth v = Inr b" and "distinct_deep w" "jcs_canonicalize depth w = Inr c"
    and "tool_input_digest b = tool_input_digest c"
  shows "jcs_norm v = jcs_norm w \<or> b \<noteq> c \<and> sha256 b = sha256 c"
proof (cases "b = c")
  case True
  with jcs_loads [OF assms(1,2)] jcs_loads [OF assms(3,4)] show ?thesis by simp
next
  case False
  moreover have "sha256 b = sha256 c" using assms(5) hexc.inj by (auto simp: tool_input_digest_def)
  ultimately show ?thesis by simp
qed

theorem tool_input_digest_binds_witness:
  "jcs_norm example_input = jcs_norm example_reordered \<or>
   example_canonical \<noteq> example_canonical \<and> sha256 example_canonical = sha256 example_canonical"
  using tool_input_digest_binds [of example_input 3 example_canonical example_reordered example_canonical] example_canonicalized
  by blast

section \<open>The order of keys is immaterial\<close>

lemma utf16_unit_eq: "u < 0x10000 \<Longrightarrow> v < 0x10000 \<Longrightarrow> utf16_unit u = utf16_unit v \<longleftrightarrow> u = v"
proof -
  assume "u < 0x10000" "v < 0x10000"
  then have b: "u div 256 < 256" "v div 256 < 256" "u mod 256 < 256" "v mod 256 < 256" by auto
  have eq: "(of_nat m :: byte) = of_nat n \<longleftrightarrow> m = n" if "m < 256" "n < 256" for m n
    using that by (metis unat_byte_of_nat)
  show ?thesis unfolding utf16_unit_def using eq [OF b(1,2)] eq [OF b(3,4)]
    by (metis list.inject div_mult_mod_eq)
qed

lemma utf16_cp_form:
  assumes "utf16_cp c = Inr x"
  obtains (bmp) "c < 0x10000" "\<not> (0xD800 \<le> c \<and> c \<le> 0xDFFF)" "x = utf16_unit c"
    | (pair) h l where "h < 0x400" "l < 0x400" "c = 0x10000 + (h * 1024 + l)"
      "x = utf16_unit (0xD800 + h) @ utf16_unit (0xDC00 + l)"
proof (cases "c < 0x10000")
  case True
  with assms bmp show ?thesis by (auto simp: utf16_cp_def split: if_splits)
next
  case False
  let ?m = "c - 0x10000"
  from assms False have c: "c < 0x110000" "x = utf16_unit (0xD800 + ?m div 1024) @ utf16_unit (0xDC00 + ?m mod 1024)"
    by (auto simp: utf16_cp_def split: if_splits)
  show ?thesis
  proof (rule pair [of "?m div 1024" "?m mod 1024"])
    show "?m div 1024 < 0x400" using c(1) False by (simp add: div_less_iff_less_mult)
    show "c = 0x10000 + (?m div 1024 * 1024 + ?m mod 1024)" using False by simp
  qed (use c(2) in simp_all)
qed

lemma utf16_unit_append:
  assumes "utf16_unit u @ p = utf16_unit v @ q" "u < 0x10000" "v < 0x10000" shows "u = v \<and> p = q"
proof -
  have "length (utf16_unit u) = length (utf16_unit v)" by (simp add: utf16_unit_def)
  with assms show ?thesis using utf16_unit_eq by (simp add: append_eq_append_conv)
qed

lemma utf16_cp_prefix:
  assumes "utf16_cp c = Inr x" "utf16_cp d = Inr y" "x @ r = y @ s"
  shows "c = d \<and> r = s"
proof (rule utf16_cp_form [OF assms(1)]; rule utf16_cp_form [OF assms(2)])
  assume *: "c < 0x10000" "x = utf16_unit c" "d < 0x10000" "y = utf16_unit d"
  show ?thesis using utf16_unit_append [OF assms(3) [unfolded *(2,4)] *(1,3)] .
next
  fix h l assume *: "c < 0x10000" "\<not> (0xD800 \<le> c \<and> c \<le> 0xDFFF)" "x = utf16_unit c" "h < 0x400"
    "y = utf16_unit (0xD800 + h) @ utf16_unit (0xDC00 + l)"
  have "c = 0xD800 + h" using utf16_unit_append [OF assms(3) [unfolded *(3,5) append_assoc] *(1)] *(4) by simp
  with *(2,4) show ?thesis by simp
next
  fix h l assume *: "d < 0x10000" "\<not> (0xD800 \<le> d \<and> d \<le> 0xDFFF)" "y = utf16_unit d" "h < 0x400"
    "x = utf16_unit (0xD800 + h) @ utf16_unit (0xDC00 + l)"
  have "0xD800 + h = d" using utf16_unit_append [OF assms(3) [unfolded *(3,5) append_assoc] _ *(1)] *(4) by simp
  with *(2,4) show ?thesis by simp
next
  fix h l h' l' assume *: "h < 0x400" "l < 0x400" "c = 0x10000 + (h * 1024 + l)"
    "x = utf16_unit (0xD800 + h) @ utf16_unit (0xDC00 + l)"
    "h' < 0x400" "l' < 0x400" "d = 0x10000 + (h' * 1024 + l')"
    "y = utf16_unit (0xD800 + h') @ utf16_unit (0xDC00 + l')"
  have 1: "0xD800 + h = 0xD800 + h' \<and> utf16_unit (0xDC00 + l) @ r = utf16_unit (0xDC00 + l') @ s"
    by (rule utf16_unit_append [OF assms(3) [unfolded *(4,8) append_assoc]]) (use *(1,5) in simp_all)
  then have 2: "0xDC00 + l = 0xDC00 + l' \<and> r = s"
    by (intro utf16_unit_append) (use *(2,6) in simp_all)
  with 1 show ?thesis unfolding *(3,7) by simp
qed

lemma utf16_cp_nonempty: "utf16_cp c = Inr x \<Longrightarrow> x \<noteq> []"
  by (erule utf16_cp_form) (simp_all add: utf16_unit_def)

lemma utf16_encode_Cons:
  assumes "utf16_be_encode (c # s) = Inr b"
  obtains x y where "utf16_cp c = Inr x" "utf16_be_encode s = Inr y" "b = x @ y"
  using assms that by (auto simp: utf16_be_encode_def rbind_eq_Inr)

lemma utf16_encode_inj: "utf16_be_encode s = Inr b \<Longrightarrow> utf16_be_encode t = Inr b \<Longrightarrow> s = t"
proof (induction s arbitrary: b t)
  case Nil
  then have b: "b = []" by (simp add: utf16_be_encode_def)
  show ?case
  proof (cases t)
    case (Cons d u)
    then show ?thesis using Nil.prems(2) utf16_cp_nonempty b by (auto elim: utf16_encode_Cons)
  qed simp
next
  case (Cons c s)
  from Cons.prems(1) obtain x y where x: "utf16_cp c = Inr x" "utf16_be_encode s = Inr y" "b = x @ y"
    by (rule utf16_encode_Cons)
  show ?case
  proof (cases t)
    case Nil
    then show ?thesis using Cons.prems(2) x(3) utf16_cp_nonempty [OF x(1)] by (simp add: utf16_be_encode_def)
  next
    case t: (Cons d u)
    from Cons.prems(2) [unfolded t] obtain z w where z: "utf16_cp d = Inr z" "utf16_be_encode u = Inr w" "b = z @ w"
      by (rule utf16_encode_Cons)
    have "c = d \<and> y = w" using utf16_cp_prefix [OF x(1) z(1), of y w] x(3) z(3) by simp
    with Cons.IH [OF x(2)] z(2) t show ?thesis by simp
  qed
qed

text \<open>A map whose failures all raise the same: permuting the list permutes the results.\<close>

lemma mapR_permuted:
  assumes "\<And>x e. f x = Inl e \<Longrightarrow> e = e0" "mset xs = mset ys"
  shows "mapR f xs = Inl e \<Longrightarrow> mapR f ys = Inl e"
    and "mapR f xs = Inr zs \<Longrightarrow> \<exists>ws. mapR f ys = Inr ws \<and> mset ws = mset zs"
proof -
  have const: "mapR f xs = (if \<exists>x \<in> set xs. \<exists>e. f x = Inl e then Inl e0 else Inr (map (\<lambda>x. projr (f x)) xs))" for xs
  proof (induction xs)
    case (Cons x xs)
    then show ?case using assms(1) by (cases "f x") (auto simp: res_simps)
  qed simp
  have "set xs = set ys" using assms(2) by (metis set_mset_mset)
  moreover have "mset (map (\<lambda>x. projr (f x)) xs) = mset (map (\<lambda>x. projr (f x)) ys)" using assms(2) by simp
  ultimately show "mapR f xs = Inl e \<Longrightarrow> mapR f ys = Inl e"
    "mapR f xs = Inr zs \<Longrightarrow> \<exists>ws. mapR f ys = Inr ws \<and> mset ws = mset zs"
    using const [of xs] const [of ys] by (auto split: if_splits)
qed

lemma sort_key_unique:
  assumes "mset xs = mset ys" "distinct (map f xs)"
  shows "sort_key f xs = sort_key f ys"
proof (rule map_inj_on)
  have "mset (map f xs) = mset (map f ys)" using assms(1) by (metis mset_map)
  then have "sort (map f xs) = sort (map f ys)" by (simp add: properties_for_sort)
  moreover have "map f (sort_key f zs) = sort (map f zs)" for zs by (simp add: sort_key_map)
  ultimately show "map f (sort_key f xs) = map f (sort_key f ys)" by simp
  show "inj_on f (set (sort_key f xs) \<union> set (sort_key f ys))"
    using assms by (metis distinct_map set_sort Un_absorb set_mset_mset)
qed

lemma keyed_error: "keyed kv = Inl e \<Longrightarrow> e = UnicodeEncodeError"
proof -
  have "utf16_be_encode s = Inl e \<Longrightarrow> e = UnicodeEncodeError" for s
    by (induction s) (auto simp: utf16_be_encode_def utf16_cp_def res_simps split: if_splits)
  then show "keyed kv = Inl e \<Longrightarrow> e = UnicodeEncodeError" by (auto simp: keyed_def rbind_eq_Inl)
qed

lemma str_key_error: "str_key kv = Inl e \<Longrightarrow> e = TypeError"
  by (auto simp: str_key_def split: pyval.splits)

lemma keyed_distinct:
  assumes "mapR keyed kvs = Inr ks" "distinct (map fst kvs)" shows "distinct (map fst ks)"
proof -
  have "list_all2 (\<lambda>k b. utf16_be_encode k = Inr b) (map fst kvs) (map fst ks)"
    using assms(1) unfolding mapR_eq_Inr list.rel_map by (rule list_all2_mono) (simp add: keyed_Inr)
  with assms(2) show ?thesis
    using utf16_encode_inj by (auto simp: list_all2_conv_all_nth distinct_conv_nth) metis
qed

lemma str_key_permuted:
  assumes "mset xs = mset ys"
  shows "mapR str_key xs = Inl e \<Longrightarrow> mapR str_key ys = Inl e"
    and "mapR str_key xs = Inr zs \<Longrightarrow> \<exists>ws. mapR str_key ys = Inr ws \<and> mset ws = mset zs"
  using mapR_permuted [of str_key TypeError, OF _ assms] str_key_error by blast+

lemma keyed_permuted:
  assumes "mset xs = mset ys"
  shows "mapR keyed xs = Inl e \<Longrightarrow> mapR keyed ys = Inl e"
    and "mapR keyed xs = Inr zs \<Longrightarrow> \<exists>ws. mapR keyed ys = Inr ws \<and> mset ws = mset zs"
  using mapR_permuted [of keyed UnicodeEncodeError, OF _ assms] keyed_error by blast+

lemma sorted_pairs_mset:
  assumes "mset d = mset e" "distinct (map fst d)"
  shows "sorted_pairs d = sorted_pairs e"
proof (cases "mapR str_key d")
  case (Inl x)
  with str_key_permuted(1) [OF assms(1)] show ?thesis by (simp add: sorted_pairs_def)
next
  case (Inr kvs)
  with str_key_permuted(2) [OF assms(1)] obtain kvs' where e: "mapR str_key e = Inr kvs'" "mset kvs' = mset kvs"
    by blast
  have dist: "distinct (map fst kvs)"
    using assms(2) Inr unfolding mapR_str_key by (auto simp: distinct_map inj_on_def split_beta)
  show ?thesis
  proof (cases "mapR keyed kvs")
    case Inl: (Inl x)
    with keyed_permuted(1) [OF e(2) [symmetric]] show ?thesis by (simp add: sorted_pairs_def Inr e(1))
  next
    case ks: (Inr ks)
    with keyed_permuted(2) [OF e(2) [symmetric]] obtain ks' where k: "mapR keyed kvs' = Inr ks'" "mset ks' = mset ks"
      by blast
    have "sort_key fst ks = sort_key fst ks'" by (rule sort_key_unique [OF k(2) [symmetric] keyed_distinct [OF ks dist]])
    then show ?thesis by (simp add: sorted_pairs_def Inr e(1) ks k(1))
  qed
qed

text \<open>The order in which a dict was built does not show: any two orders of the same items give the
  same canonical bytes, or the same refusal.\<close>

theorem jcs_key_order_immaterial:
  assumes "mset d = mset e" and "distinct (map fst d)"
  shows "jcs_canonicalize depth (VDict d) = jcs_canonicalize depth (VDict e)"
  using sorted_pairs_mset [OF assms] by (cases depth) (simp_all add: jcs_canonicalize_def)

theorem jcs_key_order_immaterial_witness:
  "jcs_canonicalize 2 (VDict [(VStr (ustr ''a''), VNone), (VStr (ustr ''b''), VNone)]) =
   jcs_canonicalize 2 (VDict [(VStr (ustr ''b''), VNone), (VStr (ustr ''a''), VNone)])"
  by (rule jcs_key_order_immaterial) (simp_all add: ustr_def)

end
