(* ===== verification/Wire.thy ===== *)
theory Wire
  imports Tenant Json_Print
begin

text \<open>
  What the clients exchange with a server. The generated message classes are not part of the sources:
  a message is its name and the fields the SDK sets on it, read back with the defaults of proto3. The
  server and the clocks are one parameter, a \<open>runtime\<close>, whose calls may raise anything and may
  change its state. A client operation is an action: it threads the state of the client, the world
  and the log of the calls made so far, and it returns or raises. The lemmas give the algebra of
  actions and of the log.
\<close>

section \<open>Messages\<close>

datatype pb_value =
    PStr ustr
  | PBytes bytes
  | PInt int
  | PBool bool
  | PDouble f64
  | PStrs "ustr list"
  | PMap "(ustr \<times> ustr) list"
  | PDoubles "(ustr \<times> f64) list"
  | PMsg pb_message
  | PMsgs "pb_message list"
and pb_message = Pb string "(string \<times> pb_value) list"

fun pb_lookup :: "pb_message \<Rightarrow> string \<Rightarrow> pb_value option" where
  "pb_lookup (Pb name fs) f = map_of fs f"

fun pb_set :: "pb_message \<Rightarrow> string \<Rightarrow> pb_value \<Rightarrow> pb_message" where
  "pb_set (Pb name fs) f v = Pb name (AList.update f v fs)"

text \<open>An optional argument sets its field only when it is given.\<close>

definition pb_set_opt :: "pb_message \<Rightarrow> string \<Rightarrow> pb_value option \<Rightarrow> pb_message" where
  "pb_set_opt m f v = (case v of None \<Rightarrow> m | Some x \<Rightarrow> pb_set m f x)"

definition has_field :: "pb_message \<Rightarrow> string \<Rightarrow> bool" where
  "has_field m f = (pb_lookup m f \<noteq> None)"

definition get_str :: "pb_message \<Rightarrow> string \<Rightarrow> ustr" where
  "get_str m f = (case pb_lookup m f of Some (PStr s) \<Rightarrow> s | _ \<Rightarrow> [])"

definition get_bytes :: "pb_message \<Rightarrow> string \<Rightarrow> bytes" where
  "get_bytes m f = (case pb_lookup m f of Some (PBytes b) \<Rightarrow> b | _ \<Rightarrow> [])"

definition get_int :: "pb_message \<Rightarrow> string \<Rightarrow> int" where
  "get_int m f = (case pb_lookup m f of Some (PInt n) \<Rightarrow> n | _ \<Rightarrow> 0)"

definition get_bool :: "pb_message \<Rightarrow> string \<Rightarrow> bool" where
  "get_bool m f = (case pb_lookup m f of Some (PBool b) \<Rightarrow> b | _ \<Rightarrow> False)"

definition get_double :: "pb_message \<Rightarrow> string \<Rightarrow> f64" where
  "get_double m f = (case pb_lookup m f of Some (PDouble x) \<Rightarrow> x | _ \<Rightarrow> 0)"

definition get_strs :: "pb_message \<Rightarrow> string \<Rightarrow> ustr list" where
  "get_strs m f = (case pb_lookup m f of Some (PStrs xs) \<Rightarrow> xs | _ \<Rightarrow> [])"

definition get_msg :: "pb_message \<Rightarrow> string \<Rightarrow> pb_message" where
  "get_msg m f = (case pb_lookup m f of Some (PMsg x) \<Rightarrow> x | _ \<Rightarrow> Pb [] [])"

definition get_msgs :: "pb_message \<Rightarrow> string \<Rightarrow> pb_message list" where
  "get_msgs m f = (case pb_lookup m f of Some (PMsgs xs) \<Rightarrow> xs | _ \<Rightarrow> [])"

section \<open>The runtime and the log\<close>

text \<open>\<open>rt_call\<close> is a call on a stub: the full name of the method, the request, the metadata and the
  timeout. \<open>rt_serialize\<close> is \<open>SerializeToString\<close>; \<open>rt_ed\<close> the signature package; \<open>rt_depth\<close> the
  nesting the interpreter allows.\<close>

record 'w runtime =
  rt_now_ms :: "'w \<Rightarrow> int \<times> 'w"
  rt_now_s :: "'w \<Rightarrow> int \<times> 'w"
  rt_call :: "string \<Rightarrow> pb_message \<Rightarrow> metadata option \<Rightarrow> f64 \<Rightarrow> 'w \<Rightarrow> (call_exn + pb_message) \<times> 'w"
  rt_serialize :: "pb_message \<Rightarrow> bytes res"
  rt_ed :: ed25519
  rt_depth :: nat

record wire_call =
  w_rpc :: string
  w_request :: pb_message
  w_metadata :: "metadata option"
  w_timeout :: f64

text \<open>The state an action threads: the part \<open>'c\<close> that belongs to the client, the world, and the log.\<close>

record ('c, 'w) io =
  io_client :: 'c
  io_world :: 'w
  io_log :: "wire_call list"

type_synonym ('c, 'w, 'a) action = "('c, 'w) io \<Rightarrow> 'a sres \<times> ('c, 'w) io"

definition ret :: "'a \<Rightarrow> ('c, 'w, 'a) action" where
  "ret x s = (Inr x, s)"

definition raise :: "sdk_exn \<Rightarrow> ('c, 'w, 'a) action" where
  "raise e s = (Inl e, s)"

definition lift :: "'a sres \<Rightarrow> ('c, 'w, 'a) action" where
  "lift r s = (r, s)"

text \<open>A computation that raises one of the language's exceptions.\<close>

definition lift_py :: "'a res \<Rightarrow> ('c, 'w, 'a) action" where
  "lift_py r = lift (case r of Inl e \<Rightarrow> Inl (Builtin e) | Inr x \<Rightarrow> Inr x)"

definition andthen :: "('c, 'w, 'a) action \<Rightarrow> ('a \<Rightarrow> ('c, 'w, 'b) action) \<Rightarrow> ('c, 'w, 'b) action" where
  "andthen m f s = (case m s of (Inl e, s') \<Rightarrow> (Inl e, s') | (Inr x, s') \<Rightarrow> f x s')"

text \<open>\<open>try\<close> with a handler; a handler that does not apply re-raises.\<close>

definition handle :: "('c, 'w, 'a) action \<Rightarrow> (sdk_exn \<Rightarrow> ('c, 'w, 'a) action) \<Rightarrow> ('c, 'w, 'a) action" where
  "handle m h s = (case m s of (Inl e, s') \<Rightarrow> h e s' | r \<Rightarrow> r)"

definition stub :: "'w runtime \<Rightarrow> string \<Rightarrow> pb_message \<Rightarrow> metadata option \<Rightarrow> f64 \<Rightarrow> ('c, 'w, pb_message) action" where
  "stub rt rpc req md timeout s =
     (let (r, w) = rt_call rt rpc req md timeout (io_world s)
      in (mapped_call r,
          s\<lparr>io_world := w,
            io_log := io_log s @ [\<lparr>w_rpc = rpc, w_request = req, w_metadata = md, w_timeout = timeout\<rparr>]\<rparr>))"

definition now_ms :: "'w runtime \<Rightarrow> ('c, 'w, int) action" where
  "now_ms rt s = (let (t, w) = rt_now_ms rt (io_world s) in (Inr t, s\<lparr>io_world := w\<rparr>))"

definition now_s :: "'w runtime \<Rightarrow> ('c, 'w, int) action" where
  "now_s rt s = (let (t, w) = rt_now_s rt (io_world s) in (Inr t, s\<lparr>io_world := w\<rparr>))"

definition get_client :: "('c, 'w, 'c) action" where
  "get_client s = (Inr (io_client s), s)"

definition set_client :: "'c \<Rightarrow> ('c, 'w, unit) action" where
  "set_client c s = (Inr (), s\<lparr>io_client := c\<rparr>)"

section \<open>The calls an action makes\<close>

text \<open>\<open>calls m s\<close> is what running \<open>m\<close> appends to the log.\<close>

definition calls :: "('c, 'w, 'a) action \<Rightarrow> ('c, 'w) io \<Rightarrow> wire_call list" where
  "calls m s = drop (length (io_log s)) (io_log (snd (m s)))"

definition appends :: "('c, 'w, 'a) action \<Rightarrow> bool" where
  "appends m \<longleftrightarrow> (\<forall>s. io_log (snd (m s)) = io_log s @ calls m s)"

named_theorems appends_rules
named_theorems action_defs

lemmas [action_defs] = ret_def raise_def lift_def lift_py_def andthen_def handle_def get_client_def set_client_def

lemma appendsI: "(\<And>s. \<exists>cs. io_log (snd (m s)) = io_log s @ cs) \<Longrightarrow> appends m"
  unfolding appends_def calls_def by (metis append_eq_conv_conj)

lemma appendsE: "appends m \<Longrightarrow> (\<And>cs. io_log (snd (m s)) = io_log s @ cs \<Longrightarrow> calls m s = cs \<Longrightarrow> P) \<Longrightarrow> P"
  by (auto simp: appends_def)

lemma callsI: "io_log (snd (m s)) = io_log s @ cs \<Longrightarrow> calls m s = cs"
  by (simp add: calls_def)

lemma appends_ret [appends_rules]: "appends (ret x)" "appends (raise e)" "appends (lift r)" "appends (lift_py q)"
  "appends get_client" "appends (set_client c)"
  by (auto intro!: appendsI simp: action_defs)

lemma appends_now [appends_rules]: "appends (now_ms rt)" "appends (now_s rt)"
  by (auto intro!: appendsI simp: now_ms_def now_s_def split: prod.splits)

lemma appends_stub [appends_rules]: "appends (stub rt rpc req md timeout)"
  by (auto intro!: appendsI simp: stub_def Let_def split: prod.splits)

lemma appends_andthen [appends_rules]:
  assumes "appends m" "\<And>x. appends (f x)" shows "appends (andthen m f)"
proof (rule appendsI)
  fix s
  obtain r s' where m: "m s = (r, s')" by (cases "m s")
  have "io_log s' = io_log s @ calls m s" using assms(1) m unfolding appends_def by (metis snd_conv)
  moreover have "\<exists>cs. io_log (snd (f x s')) = io_log s' @ cs" for x using assms(2) unfolding appends_def by blast
  ultimately show "\<exists>cs. io_log (snd (andthen m f s)) = io_log s @ cs"
    by (cases r) (auto simp: andthen_def m)
qed

lemma appends_handle [appends_rules]:
  assumes "appends m" "\<And>e. appends (h e)" shows "appends (handle m h)"
proof (rule appendsI)
  fix s
  obtain r s' where m: "m s = (r, s')" by (cases "m s")
  have "io_log s' = io_log s @ calls m s" using assms(1) m unfolding appends_def by (metis snd_conv)
  moreover have "\<exists>cs. io_log (snd (h e s')) = io_log s' @ cs" for e using assms(2) unfolding appends_def by blast
  ultimately show "\<exists>cs. io_log (snd (handle m h s)) = io_log s @ cs"
    by (cases r) (auto simp: handle_def m)
qed

lemma calls_simps:
  "calls (ret x) s = []" "calls (raise e) s = []" "calls (lift r) s = []" "calls (lift_py q) s = []"
  "calls get_client s = []" "calls (set_client c) s = []" "calls (now_ms rt) s = []" "calls (now_s rt) s = []"
  "calls (stub rt rpc req md timeout) s = [\<lparr>w_rpc = rpc, w_request = req, w_metadata = md, w_timeout = timeout\<rparr>]"
  by (simp_all add: calls_def action_defs now_ms_def now_s_def stub_def Let_def split: prod.splits)

lemma calls_andthen:
  assumes "appends m" "\<And>x. appends (f x)"
  shows "calls (andthen m f) s = calls m s @ (case fst (m s) of Inl _ \<Rightarrow> [] | Inr x \<Rightarrow> calls (f x) (snd (m s)))"
proof -
  obtain r s' where m: "m s = (r, s')" by (cases "m s")
  have log: "io_log s' = io_log s @ calls m s" using assms(1) m unfolding appends_def by (metis snd_conv)
  have "io_log (snd (f x s')) = io_log s' @ calls (f x) s'" for x using assms(2) unfolding appends_def by blast
  with log have "io_log (snd (andthen m f s)) = io_log s @ calls m s @ (case r of Inl _ \<Rightarrow> [] | Inr x \<Rightarrow> calls (f x) s')"
    by (cases r) (simp_all add: andthen_def m)
  then show ?thesis unfolding m fst_conv snd_conv by (rule callsI)
qed

lemma calls_handle:
  assumes "appends m" "\<And>e. appends (h e)"
  shows "calls (handle m h) s = calls m s @ (case fst (m s) of Inl e \<Rightarrow> calls (h e) (snd (m s)) | Inr _ \<Rightarrow> [])"
proof -
  obtain r s' where m: "m s = (r, s')" by (cases "m s")
  have log: "io_log s' = io_log s @ calls m s" using assms(1) m unfolding appends_def by (metis snd_conv)
  have "io_log (snd (h e s')) = io_log s' @ calls (h e) s'" for e using assms(2) unfolding appends_def by blast
  with log have "io_log (snd (handle m h s)) = io_log s @ calls m s @ (case r of Inl e \<Rightarrow> calls (h e) s' | Inr _ \<Rightarrow> [])"
    by (cases r) (simp_all add: handle_def m)
  then show ?thesis unfolding m fst_conv snd_conv by (rule callsI)
qed

end
