(* ===== verification/Authorize.thy ===== *)
theory Authorize
  imports Wire Jcs Decoders Ids
begin

text \<open>
  The transport-agnostic core of the advisory verb (\<open>_authorize.py\<close>): decoding a verdict, the
  admission-ticket cache, resolving a tool input to canonical bytes, assembling and signing a request,
  and the metadata of a per-request credential. The lemmas show that a response is allowed only on
  an explicit ALLOW, that the cache hands out exactly the last admission while at least a fifth of
  its lifetime remains, and that a request's signature verifies against its own wire fields.
\<close>

section \<open>Verdicts\<close>

datatype authorize_verdict = ALLOW | DENY | TRANSFORM | ESCALATE

record authorize_consts =
  pb_ALLOW :: int
  pb_DENY :: int
  pb_TRANSFORM :: int
  pb_ESCALATE :: int

definition authorize_names :: "authorize_consts \<Rightarrow> authorize_verdict enum_table" where
  "authorize_names k =
     [(pb_ALLOW k, ALLOW), (pb_DENY k, DENY), (pb_TRANSFORM k, TRANSFORM), (pb_ESCALATE k, ESCALATE)]"

record authorize_result =
  ar_verdict :: authorize_verdict
  ar_reason :: ustr
  ar_transformed_input :: "bytes option"
  ar_authorize_id :: ustr
  ar_policy_version :: ustr

definition allowed :: "authorize_result \<Rightarrow> bool" where
  "allowed r = (ar_verdict r = ALLOW)"

definition result_of :: "authorize_consts \<Rightarrow> pb_message \<Rightarrow> authorize_result sres" where
  "result_of k resp =
     (case dict_lookup (authorize_names k) (get_int resp ''verdict'') of
        None \<Rightarrow> Inl (UnknownVerdictError (get_int resp ''verdict'') (get_str resp ''authorize_id''))
      | Some name \<Rightarrow>
          (if name = TRANSFORM \<and> get_bytes resp ''transformed_input'' = [] then
             Inl (ProtocolViolationError (get_str resp ''authorize_id''))
           else
             Inr \<lparr>ar_verdict = name, ar_reason = get_str resp ''reason'',
                  ar_transformed_input =
                    (if name = TRANSFORM then Some (get_bytes resp ''transformed_input'') else None),
                  ar_authorize_id = get_str resp ''authorize_id'',
                  ar_policy_version = get_str resp ''policy_version''\<rparr>))"

section \<open>The ticket cache\<close>

record ticket_cache =
  tc_ticket :: "bytes option"
  tc_refresh_at_ms :: int

definition new_cache :: ticket_cache where
  "new_cache = \<lparr>tc_ticket = None, tc_refresh_at_ms = 0\<rparr>"

definition cache_get :: "ticket_cache \<Rightarrow> int \<Rightarrow> bytes option" where
  "cache_get c now = (if tc_ticket c \<noteq> None \<and> now < tc_refresh_at_ms c then tc_ticket c else None)"

definition cache_invalidate :: "ticket_cache \<Rightarrow> ticket_cache" where
  "cache_invalidate c = c\<lparr>tc_ticket := None, tc_refresh_at_ms := 0\<rparr>"

definition cache_store :: "ticket_cache \<Rightarrow> bytes \<Rightarrow> int \<Rightarrow> int \<Rightarrow> ticket_cache" where
  "cache_store c ticket expires_at_ms now =
     (let ttl_ms = expires_at_ms - now
      in if ttl_ms \<le> 0 \<or> ticket = [] then cache_invalidate c
         else c\<lparr>tc_ticket := Some ticket, tc_refresh_at_ms := now + (ttl_ms * 8) div 10\<rparr>)"

section \<open>Canonical input\<close>

text \<open>Every \<open>Exception\<close>, the recursion error included, becomes a canonicalization error.\<close>

definition canonicalize_tool_input :: "nat \<Rightarrow> pyval \<Rightarrow> bytes sres" where
  "canonicalize_tool_input depth tool_input =
     (case jcs_canonicalize depth (if tool_input \<noteq> VNone then tool_input else VDict []) of
        Inl _ \<Rightarrow> Inl CanonicalizationError
      | Inr b \<Rightarrow> Inr b)"

definition resolve_canonical :: "nat \<Rightarrow> pyval \<Rightarrow> pyval \<Rightarrow> bytes sres" where
  "resolve_canonical depth tool_input canonical =
     (if canonical = VNone then canonicalize_tool_input depth tool_input
      else if tool_input \<noteq> VNone then Inl CanonicalizationError
      else case canonical of
             VBytes b \<Rightarrow> (if b = [] then Inl CanonicalizationError else Inr b)
           | _ \<Rightarrow> Inl CanonicalizationError)"

section \<open>Requests\<close>

record authorize_args =
  aa_tool_name :: ustr
  aa_tool_input :: pyval
  aa_canonical :: pyval
  aa_digest_only :: bool
  aa_features :: "(ustr \<times> ustr) list option"
  aa_session_id :: ustr
  aa_subject :: ustr
  aa_subjects :: "ustr list"
  aa_agent_id :: ustr
  aa_client_request_id :: ustr

definition py_sres :: "'a res \<Rightarrow> 'a sres" where
  "py_sres r = (case r of Inl e \<Rightarrow> Inl (Builtin e) | Inr x \<Rightarrow> Inr x)"

definition signed_fields :: "bytes \<Rightarrow> ustr \<Rightarrow> authorize_args \<Rightarrow> v3_fields" where
  "signed_fields ticket digest a =
     \<lparr>f_ticket = ticket, f_tool_input_digest = digest, f_tool_name = aa_tool_name a,
      f_agent_id = aa_agent_id a, f_subject = aa_subject a, f_subjects = aa_subjects a,
      f_client_request_id = aa_client_request_id a, f_session_id = aa_session_id a,
      f_features = aa_features a\<rparr>"

text \<open>\<open>if features\<close>: neither \<open>None\<close> nor an empty dict.\<close>

definition features_field :: "(ustr \<times> ustr) list option \<Rightarrow> pb_value option" where
  "features_field fs = (case fs of None \<Rightarrow> None | Some kvs \<Rightarrow> if kvs = [] then None else Some (PMap kvs))"

definition request_message :: "bytes \<Rightarrow> ustr \<Rightarrow> bytes \<Rightarrow> authorize_args \<Rightarrow> pb_message" where
  "request_message ticket digest sig a =
     Pb ''AuthorizeRequest''
       [(''ticket'', PBytes ticket), (''tool_name'', PStr (aa_tool_name a)),
        (''tool_input_digest'', PStr digest), (''call_sig'', PBytes sig),
        (''session_id'', PStr (aa_session_id a)), (''subject'', PStr (aa_subject a)),
        (''subjects'', PStrs (aa_subjects a)), (''agent_id'', PStr (aa_agent_id a)),
        (''client_request_id'', PStr (aa_client_request_id a))]"

definition build_authorize_request :: "ed25519 \<Rightarrow> nat \<Rightarrow> bytes \<Rightarrow> bytes \<Rightarrow> authorize_args \<Rightarrow> pb_message sres" where
  "build_authorize_request ed depth ticket agent_seed a =
     rbind (resolve_canonical depth (aa_tool_input a) (aa_canonical a)) (\<lambda>canonical.
     let digest = tool_input_digest canonical in
     rbind (py_sres (call_sig_v3 ed agent_seed (signed_fields ticket digest a))) (\<lambda>sig.
     let req = request_message ticket digest sig a
     in Inr (pb_set_opt (if aa_digest_only a then req else pb_set req ''tool_input'' (PBytes canonical))
               ''features'' (features_field (aa_features a)))))"

text \<open>The body is the serialized request message, or absent.\<close>

definition credential_metadata ::
    "'w runtime \<Rightarrow> bytes \<Rightarrow> bytes \<Rightarrow> string \<Rightarrow> ustr \<Rightarrow> pb_message option \<Rightarrow> metadata sres" where
  "credential_metadata rt agent_seed ticket rpc_full_name resource_id body =
     rbind (py_sres (case body of
              None \<Rightarrow> Inr []
            | Some m \<Rightarrow> rbind (rt_serialize rt m) (\<lambda>b. Inr (tool_input_digest b)))) (\<lambda>body_digest.
     rbind (py_sres (request_sig (rt_ed rt) agent_seed ticket (ustr rpc_full_name) resource_id body_digest)) (\<lambda>sig.
     Inr [(ustr ''x-seam-ticket-bin'', MBytes ticket), (ustr ''x-seam-call-sig-bin'', MBytes sig)]))"

section \<open>The cache answers from the last admission\<close>

text \<open>What a cache of admissions promises: it hands out the ticket stored last, unless it was dropped
  since, while the ticket is not empty and at least a fifth of its lifetime is left.\<close>

record admission =
  ad_ticket :: bytes
  ad_expires :: int
  ad_at :: int

definition usable :: "admission \<Rightarrow> int \<Rightarrow> bool" where
  "usable a now \<longleftrightarrow> ad_ticket a \<noteq> [] \<and> ad_at a < ad_expires a \<and> 10 * (now - ad_at a + 1) \<le> 8 * (ad_expires a - ad_at a)"

datatype cache_op = Store bytes int int | Invalidate

fun last_admission :: "cache_op list \<Rightarrow> admission option" where
  "last_admission [] = None"
| "last_admission (Store t e n # _) = Some \<lparr>ad_ticket = t, ad_expires = e, ad_at = n\<rparr>"
| "last_admission (Invalidate # _) = None"

locale admission_cache =
  fixes empty :: 'c and store :: "'c \<Rightarrow> bytes \<Rightarrow> int \<Rightarrow> int \<Rightarrow> 'c" and invalidate :: "'c \<Rightarrow> 'c"
    and lookup :: "'c \<Rightarrow> int \<Rightarrow> bytes option"
  assumes lookup_empty: "lookup empty now = None"
    and lookup_invalidate: "lookup (invalidate c) now = None"
    and lookup_store: "lookup (store c t e n) now =
      (if usable \<lparr>ad_ticket = t, ad_expires = e, ad_at = n\<rparr> now then Some t else None)"
begin

text \<open>The history of operations, latest first.\<close>

fun run :: "cache_op list \<Rightarrow> 'c" where
  "run [] = empty"
| "run (Store t e n # ops) = store (run ops) t e n"
| "run (Invalidate # ops) = invalidate (run ops)"

lemma lookup_run:
  "lookup (run ops) now =
     (case last_admission ops of None \<Rightarrow> None | Some a \<Rightarrow> if usable a now then Some (ad_ticket a) else None)"
  by (cases ops rule: last_admission.cases) (simp_all add: lookup_empty lookup_invalidate lookup_store)

end

lemma cache_get_store:
  "cache_get (cache_store c t e n) now =
     (if usable \<lparr>ad_ticket = t, ad_expires = e, ad_at = n\<rparr> now then Some t else None)"
proof -
  have le: "k \<le> d div 10 \<longleftrightarrow> 10 * k \<le> d" for k d :: int by auto
  have "now < n + (e - n) * 8 div 10 \<longleftrightarrow> now - n + 1 \<le> (e - n) * 8 div 10" by linarith
  also have "\<dots> \<longleftrightarrow> 10 * (now - n + 1) \<le> 8 * (e - n)" unfolding le by (simp only: mult.commute)
  finally have eq: "now < n + (e - n) * 8 div 10 \<longleftrightarrow> 10 * (now - n + 1) \<le> 8 * (e - n)" .
  show ?thesis
  proof (cases "e - n \<le> 0 \<or> t = []")
    case True
    then show ?thesis by (auto simp: cache_get_def cache_store_def cache_invalidate_def usable_def Let_def)
  next
    case False
    then have g: "cache_get (cache_store c t e n) now = (if now < n + (e - n) * 8 div 10 then Some t else None)"
      by (simp add: cache_get_def cache_store_def Let_def)
    show ?thesis unfolding g eq usable_def using False by simp
  qed
qed

interpretation tickets: admission_cache new_cache cache_store cache_invalidate cache_get
proof unfold_locales
  show "cache_get new_cache now = None" for now by (simp add: cache_get_def new_cache_def)
  show "cache_get (cache_invalidate c) now = None" for c now by (simp add: cache_get_def cache_invalidate_def)
qed (rule cache_get_store)

primrec apply_op :: "cache_op \<Rightarrow> ticket_cache \<Rightarrow> ticket_cache" where
  "apply_op (Store t e n) c = cache_store c t e n"
| "apply_op Invalidate c = cache_invalidate c"

lemma tickets_run: "foldr apply_op ops new_cache = tickets.run ops"
proof (induction ops)
  case (Cons op ops)
  then show ?case by (cases op) simp_all
qed simp

text \<open>C10: Whatever stores and invalidations a ticket cache has seen, it answers as the specification does:
  with the ticket of the latest operation if that stored one that was live and not empty and no more
  than four fifths of its lifetime have passed, and with nothing otherwise.\<close>

theorem ticket_cache_refines:
  "cache_get (foldr apply_op ops new_cache) now =
     (case last_admission ops of
        None \<Rightarrow> None
      | Some a \<Rightarrow>
          if ad_ticket a \<noteq> [] \<and> ad_at a < ad_expires a \<and> 10 * (now - ad_at a + 1) \<le> 8 * (ad_expires a - ad_at a)
          then Some (ad_ticket a) else None)"
  unfolding tickets_run tickets.lookup_run usable_def by (rule refl)

section \<open>A request verifies against its own fields\<close>

text \<open>What a verifier reads off the wire.\<close>

definition wire_fields :: "pb_message \<Rightarrow> v3_fields" where
  "wire_fields req =
     \<lparr>f_ticket = get_bytes req ''ticket'', f_tool_input_digest = get_str req ''tool_input_digest'',
      f_tool_name = get_str req ''tool_name'', f_agent_id = get_str req ''agent_id'', f_subject = get_str req ''subject'',
      f_subjects = get_strs req ''subjects'', f_client_request_id = get_str req ''client_request_id'',
      f_session_id = get_str req ''session_id'',
      f_features = (case pb_lookup req ''features'' of Some (PMap kvs) \<Rightarrow> Some kvs | _ \<Rightarrow> None)\<rparr>"

lemma py_sres_Inr: "py_sres r = Inr x \<longleftrightarrow> r = Inr x"
  by (auto simp: py_sres_def split: sum.splits)

lemma build_authorize_fields:
  assumes "build_authorize_request ed depth ticket seed a = Inr req"
  obtains canonical sig where
    "resolve_canonical depth (aa_tool_input a) (aa_canonical a) = Inr canonical"
    "call_sig_v3 ed seed (signed_fields ticket (tool_input_digest canonical) a) = Inr sig"
    "get_bytes req ''call_sig'' = sig" "get_str req ''tool_input_digest'' = tool_input_digest canonical"
    "has_field req ''tool_input'' \<longleftrightarrow> \<not> aa_digest_only a" "\<not> aa_digest_only a \<longrightarrow> get_bytes req ''tool_input'' = canonical"
    "wire_fields req = (signed_fields ticket (tool_input_digest canonical) a)
       \<lparr>f_features := (if aa_features a = Some [] then None else aa_features a)\<rparr>"
proof -
  from assms obtain canonical sig where c: "resolve_canonical depth (aa_tool_input a) (aa_canonical a) = Inr canonical"
    and g: "call_sig_v3 ed seed (signed_fields ticket (tool_input_digest canonical) a) = Inr sig"
    and req: "req = pb_set_opt
        (if aa_digest_only a then request_message ticket (tool_input_digest canonical) sig a
         else pb_set (request_message ticket (tool_input_digest canonical) sig a) ''tool_input'' (PBytes canonical))
        ''features'' (features_field (aa_features a))"
    by (auto simp: build_authorize_request_def rbind_eq_Inr py_sres_Inr Let_def)
  have feats: "features_field (aa_features a) = None \<longleftrightarrow> aa_features a = None \<or> aa_features a = Some []"
    by (auto simp: features_field_def split: option.splits)
  show ?thesis
  proof (rule that [OF c g])
    show "wire_fields req = (signed_fields ticket (tool_input_digest canonical) a)
        \<lparr>f_features := (if aa_features a = Some [] then None else aa_features a)\<rparr>"
      by (cases "aa_digest_only a"; cases "aa_features a"; cases "aa_features a = Some []")
        (simp_all add: req request_message_def features_field_def pb_set_opt_def wire_fields_def signed_fields_def
          get_bytes_def get_str_def get_strs_def)
  qed (cases "aa_digest_only a"; cases "features_field (aa_features a)";
      simp add: req request_message_def pb_set_opt_def get_bytes_def get_str_def has_field_def)+
qed

lemma call_sig_v3_payload_features:
  "call_sig_v3_payload (f\<lparr>f_features := (if f_features f = Some [] then None else f_features f)\<rparr>) = call_sig_v3_payload f"
proof -
  have "features_of (f\<lparr>f_features := (if f_features f = Some [] then None else f_features f)\<rparr>) = features_of f"
    by (simp add: features_of_def)
  then show ?thesis unfolding call_sig_v3_payload_def by simp
qed

text \<open>C20: A request assembled for the advisory verb verifies: the signature it carries is valid, under the
  key of the seed, for the payload a verifier computes from the request's own fields; and the digest
  it carries is that of the input it carries, which is left out exactly when asked.\<close>

theorem authorize_request_verifies:
  assumes "ed25519_correct ed" and "build_authorize_request ed depth ticket seed a = Inr req"
  shows "\<exists>sk pk payload. from_private_bytes ed seed = Inr sk \<and> from_public_bytes ed (public_bytes_raw ed sk) = Inr pk \<and>
    call_sig_v3_payload (wire_fields req) = Inr payload \<and> ed_verify ed pk (get_bytes req ''call_sig'') payload = Inr () \<and>
    (has_field req ''tool_input'' \<longleftrightarrow> \<not> aa_digest_only a) \<and>
    (has_field req ''tool_input'' \<longrightarrow> get_str req ''tool_input_digest'' = tool_input_digest (get_bytes req ''tool_input''))"
proof -
  from assms(2) obtain canonical sig where
    sig: "call_sig_v3 ed seed (signed_fields ticket (tool_input_digest canonical) a) = Inr sig"
    and req: "get_bytes req ''call_sig'' = sig" "get_str req ''tool_input_digest'' = tool_input_digest canonical"
      "has_field req ''tool_input'' \<longleftrightarrow> \<not> aa_digest_only a" "\<not> aa_digest_only a \<longrightarrow> get_bytes req ''tool_input'' = canonical"
    and wire: "wire_fields req = (signed_fields ticket (tool_input_digest canonical) a)
       \<lparr>f_features := (if aa_features a = Some [] then None else aa_features a)\<rparr>"
    by (rule build_authorize_fields)
  let ?f = "signed_fields ticket (tool_input_digest canonical) a"
  from sig obtain sk payload where sk: "from_private_bytes ed seed = Inr sk" "call_sig_v3_payload ?f = Inr payload"
    "sig = ed_sign ed sk payload" by (auto simp: call_sig_v3_def rbind_eq_Inr)
  have "f_features ?f = aa_features a" by (simp add: signed_fields_def)
  then have "call_sig_v3_payload (wire_fields req) = Inr payload"
    unfolding wire using call_sig_v3_payload_features [of ?f] sk(2) by (simp only:)
  with assms(1) sk req show ?thesis by (fastforce simp: ed25519_correct_def)
qed

definition example_args :: authorize_args where
  "example_args =
     \<lparr>aa_tool_name = ustr ''t'', aa_tool_input = VNone, aa_canonical = VBytes [123, 125], aa_digest_only = False,
      aa_features = None, aa_session_id = [], aa_subject = [], aa_subjects = [], aa_agent_id = [], aa_client_request_id = []\<rparr>"

lemma digest_frames: "\<exists>z. frame_text (tool_input_digest c) = Inr z"
proof -
  have "\<forall>x \<in> set (hex b). x < 0x80" for b
    using hex_lower [of b] by (auto simp: list_all_iff lower_hex_char_def)
  then have "\<forall>x \<in> set (tool_input_digest c). x < 0x80" by (auto simp: tool_input_digest_def ustr_def)
  then have "utf8_encode (tool_input_digest c) = Inr (map of_nat (tool_input_digest c))" by (rule utf8_encode_ascii)
  moreover have "length (tool_input_digest c) = 71" by (simp add: tool_input_digest_def ustr_def)
  ultimately show ?thesis by (simp add: frame_text_def rd_enc_def frame_def pack_u32_def)
qed

lemma example_request: "\<exists>req. build_authorize_request example_ed 1 [1] (replicate 32 7) example_args = Inr req"
proof -
  let ?f = "signed_fields [1] (tool_input_digest [123, 125]) example_args"
  obtain z where z: "frame_text (tool_input_digest [123, 125]) = Inr z" using digest_frames by blast
  have t: "frame_text [] = Inr (le_bytes 4 0)" "frame_text (ustr ''t'') = Inr (le_bytes 4 1 @ [116])"
    by (simp_all add: frame_text_def rd_enc_def utf8_encode_def utf8_cp_def frame_def pack_u32_def ustr_def)
  have "\<exists>p. call_sig_v3_payload ?f = Inr p"
    by (simp add: call_sig_v3_payload_def signed_fields_def example_args_def features_of_def z t frame_def
        pack_u32_def frame_u32_def CALL_SIG_V3_CONTEXT_def bstr_def)
  then obtain sig where "call_sig_v3 example_ed (replicate 32 7) ?f = Inr sig"
    by (auto simp: call_sig_v3_def example_ed_def)
  moreover have "resolve_canonical 1 (aa_tool_input example_args) (aa_canonical example_args) = Inr [123, 125]"
    by (simp add: resolve_canonical_def example_args_def)
  ultimately show ?thesis by (simp add: build_authorize_request_def py_sres_def Let_def)
qed

theorem authorize_request_verifies_witness:
  "\<exists>req pk payload. build_authorize_request example_ed 1 [1] (replicate 32 7) example_args = Inr req \<and>
     call_sig_v3_payload (wire_fields req) = Inr payload \<and> ed_verify example_ed pk (get_bytes req ''call_sig'') payload = Inr ()"
  using example_request authorize_request_verifies [OF example_ed_correct] by blast

end
