(* ===== verification/Client.thy ===== *)
theory Client
  imports Authorize Outcome Tct
begin

text \<open>
  The synchronous client (\<open>client.py\<close>): agents, the admission-ticket lifecycle with its per-agent
  caches, the credentialed calls that refresh a rejected ticket once and resend once, and every verb
  of the data plane down to the request it sends. A per-agent lock is held across each of
  \<open>admit\<close>, \<open>_ticket_for\<close>, \<open>_refresh_ticket\<close> and \<open>_invalidate_ticket\<close>, so each of them is one action.
\<close>

section \<open>Agents and small values\<close>

record agent =
  ag_seed :: bytes

definition new_agent :: "bytes \<Rightarrow> agent res" where
  "new_agent seed = (if length seed \<noteq> 32 then Inl ValueError else Inr \<lparr>ag_seed = seed\<rparr>)"

definition agent_aid :: "ed25519 \<Rightarrow> agent \<Rightarrow> ustr res" where
  "agent_aid ed a =
     rbind (from_private_bytes ed (ag_seed a)) (\<lambda>sk. Inr (aid_from_pubkey (public_bytes_raw ed sk)))"

text \<open>\<open>Agent.enrolment_proof\<close>: the clock and the random bytes are arguments, used when the caller
  leaves \<open>issued_at_ms\<close> or \<open>nonce\<close> out.\<close>

definition enrolment_proof ::
    "ed25519 \<Rightarrow> int \<Rightarrow> bytes \<Rightarrow> agent \<Rightarrow> ustr \<Rightarrow> ustr \<Rightarrow> pyval \<Rightarrow> pyval \<Rightarrow> enroll_proof res" where
  "enrolment_proof ed clock random16 a tenant namespace issued_at_ms n =
     enroll_pop ed (ag_seed a) tenant namespace
       (if issued_at_ms = VNone then VInt clock else issued_at_ms)
       (if n = VNone then VStr (new_enroll_pop_nonce random16) else n)"

record budget_limits =
  bl_messages :: "int option"
  bl_tokens :: "int option"
  bl_cost_micros :: "int option"
  bl_wall_ms :: "int option"
  bl_soft_pct :: "int option"

definition limits_to_pb :: "budget_limits \<Rightarrow> pb_message" where
  "limits_to_pb b =
     Pb ''BudgetLimits''
       (concat (map (\<lambda>(k, v). case v of None \<Rightarrow> [] | Some n \<Rightarrow> [(k, PInt n)])
          [(''messages'', bl_messages b), (''tokens'', bl_tokens b), (''cost_micros'', bl_cost_micros b),
           (''wall_ms'', bl_wall_ms b), (''soft_pct'', bl_soft_pct b)]))"

record step_usage =
  su_tokens :: int
  su_cost_micros :: int

definition usage_to_pb :: "step_usage \<Rightarrow> pb_message" where
  "usage_to_pb u = Pb ''StepUsage'' [(''tokens'', PInt (su_tokens u)), (''cost_micros'', PInt (su_cost_micros u))]"

definition u32 :: "pyval \<Rightarrow> int res" where
  "u32 v =
     (case v of
        VInt n \<Rightarrow> (if 0 \<le> n \<and> n \<le> 0xFFFFFFFF then Inr n else Inl ValueError)
      | _ \<Rightarrow> Inl TypeError)"

text \<open>A ballot entry: a sequence of two or three texts; anything else raises \<open>TypeError\<close>, here or in the
  message class.\<close>

definition vote_message :: "pyval \<Rightarrow> pb_message res" where
  "vote_message vote =
     (case vote of
        VList [VStr a, VStr v] \<Rightarrow> Inr (Pb ''Vote'' [(''agent'', PStr a), (''value'', PStr v), (''reason'', PStr [])])
      | VList [VStr a, VStr v, VStr r] \<Rightarrow>
          Inr (Pb ''Vote'' [(''agent'', PStr a), (''value'', PStr v), (''reason'', PStr r)])
      | _ \<Rightarrow> Inl TypeError)"

definition vote_messages :: "pyval list \<Rightarrow> pb_message list res" where
  "vote_messages votes = mapR vote_message votes"

section \<open>Ticket lifecycle\<close>

record client =
  cl_agent :: "agent option"
  cl_tickets :: "ustr \<rightharpoonup> ticket_cache"

definition new_client :: "agent option \<Rightarrow> client" where
  "new_client a = \<lparr>cl_agent = a, cl_tickets = Map.empty\<rparr>"

type_synonym ('w, 'a) client_action = "(client, 'w, 'a) action"

text \<open>\<open>_cache_and_lock\<close>: the cache of an AID, created on first use.\<close>

definition cache_and_lock :: "ustr \<Rightarrow> ('w, ticket_cache) client_action" where
  "cache_and_lock aid =
     andthen get_client (\<lambda>c.
       case cl_tickets c aid of
         Some cache \<Rightarrow> ret cache
       | None \<Rightarrow> andthen (set_client (c\<lparr>cl_tickets := (cl_tickets c)(aid \<mapsto> new_cache)\<rparr>)) (\<lambda>_. ret new_cache))"

text \<open>A method of the cache object of an AID that changes it.\<close>

definition update_cache :: "ustr \<Rightarrow> (ticket_cache \<Rightarrow> ticket_cache) \<Rightarrow> ('w, unit) client_action" where
  "update_cache aid f =
     andthen get_client (\<lambda>c.
       set_client (c\<lparr>cl_tickets := (cl_tickets c)(aid \<mapsto> f (case cl_tickets c aid of Some k \<Rightarrow> k | None \<Rightarrow> new_cache))\<rparr>))"

definition presentation_doc :: "presentation \<Rightarrow> jdoc" where
  "presentation_doc p =
     JObj [(ustr ''sender_aid'', JStr (p_sender_aid p)),
           (ustr ''descriptor'',
              JObj [(ustr ''type'', JStr (d_type (p_descriptor p))), (ustr ''subject'', JStr (d_subject (p_descriptor p))),
                    (ustr ''proof'', JStr (d_proof (p_descriptor p))), (ustr ''public_key'', JStr (d_public_key (p_descriptor p)))]),
           (ustr ''message_id'', JStr (p_message_id p)),
           (ustr ''timestamp'', JInt (p_timestamp p)),
           (ustr ''pop_nonce'', JStr (p_pop_nonce p))]"

definition agent_presentation :: "'w runtime \<Rightarrow> agent \<Rightarrow> f64 \<Rightarrow> ('w, pb_message) client_action" where
  "agent_presentation rt a timeout =
     andthen (stub rt ''SeamAdmission/IssueChallenge'' (Pb ''IssueChallengeRequest'' []) None timeout) (\<lambda>ch.
     andthen (now_ms rt) (\<lambda>now.
     andthen (lift_py (build_presentation (rt_ed rt) (ag_seed a) (get_str ch ''receiver_aid'') (get_str ch ''nonce'') now)) (\<lambda>body.
     ret (Pb ''PinnedPresentation'' [(''presentation_json'', PBytes (dumps_bytes Spaced (presentation_doc body)))]))))"

definition admit_locked :: "'w runtime \<Rightarrow> agent \<Rightarrow> ustr \<Rightarrow> f64 \<Rightarrow> ('w, bytes) client_action" where
  "admit_locked rt a aid timeout =
     andthen (agent_presentation rt a timeout) (\<lambda>p.
     andthen (stub rt ''SeamAdmission/Admit'' p None timeout) (\<lambda>t.
     andthen (now_ms rt) (\<lambda>now.
     andthen (update_cache aid (\<lambda>c. cache_store c (get_bytes t ''ticket'') (get_int t ''expires_at_ms'') now)) (\<lambda>_.
     ret (get_bytes t ''ticket'')))))"

definition admit :: "'w runtime \<Rightarrow> agent \<Rightarrow> f64 \<Rightarrow> ('w, bytes) client_action" where
  "admit rt a timeout =
     andthen (lift_py (agent_aid (rt_ed rt) a)) (\<lambda>aid.
     andthen (cache_and_lock aid) (\<lambda>_. admit_locked rt a aid timeout))"

definition ticket_for :: "'w runtime \<Rightarrow> agent \<Rightarrow> f64 \<Rightarrow> ('w, bytes) client_action" where
  "ticket_for rt a timeout =
     andthen (lift_py (agent_aid (rt_ed rt) a)) (\<lambda>aid.
     andthen (cache_and_lock aid) (\<lambda>cache.
     andthen (now_ms rt) (\<lambda>now.
     case cache_get cache now of
       Some ticket \<Rightarrow> ret ticket
     | None \<Rightarrow> admit_locked rt a aid timeout)))"

definition refresh_ticket :: "'w runtime \<Rightarrow> agent \<Rightarrow> bytes \<Rightarrow> f64 \<Rightarrow> ('w, bytes) client_action" where
  "refresh_ticket rt a failed timeout =
     andthen (lift_py (agent_aid (rt_ed rt) a)) (\<lambda>aid.
     andthen (cache_and_lock aid) (\<lambda>cache.
     andthen (now_ms rt) (\<lambda>now.
     let current = cache_get cache now in
     if current \<noteq> None \<and> current \<noteq> Some failed then ret (the current)
     else andthen (update_cache aid cache_invalidate) (\<lambda>_. admit_locked rt a aid timeout))))"

definition invalidate_ticket :: "'w runtime \<Rightarrow> agent \<Rightarrow> bytes \<Rightarrow> ('w, unit) client_action" where
  "invalidate_ticket rt a failed =
     andthen (lift_py (agent_aid (rt_ed rt) a)) (\<lambda>aid.
     andthen (cache_and_lock aid) (\<lambda>cache.
     andthen (now_ms rt) (\<lambda>now.
     if cache_get cache now = Some failed then update_cache aid cache_invalidate else ret ())))"

section \<open>Credentialed calls\<close>

definition REPLAY_GUARDED :: "string list" where
  "REPLAY_GUARDED =
     map ((@) ''/seam.api.v1.SeamCoordination/'')
       [''OpenSession'', ''SubmitProposal'', ''SubmitEvaluation'', ''SubmitObjection'', ''SubmitVote'', ''SubmitCommit'',
        ''SubmitApprovalRequest'', ''SubmitBallot'', ''CancelSession'', ''ExpireSession'']
     @ [''/seam.api.v1.SeamContext/RegisterContext'']"

definition has_class :: "rpc_class list \<Rightarrow> sdk_exn \<Rightarrow> bool" where
  "has_class cs e = (case e of RpcErr r \<Rightarrow> e_class r \<in> set cs | _ \<Rightarrow> False)"

definition signer :: "client \<Rightarrow> agent option \<Rightarrow> agent option" where
  "signer c credential = (if credential \<noteq> None then credential else cl_agent c)"

definition forget_burned_ticket :: "'w runtime \<Rightarrow> agent \<Rightarrow> bytes \<Rightarrow> string \<Rightarrow> sdk_exn \<Rightarrow> ('w, unit) client_action" where
  "forget_burned_ticket rt a ticket rpc_full_name exc =
     (if rpc_full_name \<in> set REPLAY_GUARDED \<and> (is_session_unavailable exc \<or> is_tenant_moving exc)
      then invalidate_ticket rt a ticket
      else ret ())"

text \<open>\<open>except (UnavailableError, FailedPreconditionError)\<close> around one signed send.\<close>

definition burned :: "'w runtime \<Rightarrow> agent \<Rightarrow> bytes \<Rightarrow> string \<Rightarrow> sdk_exn \<Rightarrow> ('w, 'a) client_action" where
  "burned rt a ticket rpc_full_name e =
     andthen (forget_burned_ticket rt a ticket rpc_full_name e) (\<lambda>_. raise e)"

definition signed_send ::
    "'w runtime \<Rightarrow> agent \<Rightarrow> bytes \<Rightarrow> string \<Rightarrow> ustr \<Rightarrow> pb_message option \<Rightarrow>
     (metadata option \<Rightarrow> ('w, 'a) client_action) \<Rightarrow> ('w, 'a) client_action" where
  "signed_send rt a ticket rpc_full_name resource_id body send =
     andthen (lift (credential_metadata rt (ag_seed a) ticket rpc_full_name resource_id body)) (\<lambda>md. send (Some md))"

text \<open>A signed send whose \<open>UNAVAILABLE\<close> and \<open>FAILED_PRECONDITION\<close> failures may drop the ticket; what
  another failure leads to is \<open>h\<close>.\<close>

definition guarded_send ::
    "'w runtime \<Rightarrow> agent \<Rightarrow> bytes \<Rightarrow> string \<Rightarrow> ustr \<Rightarrow> pb_message option \<Rightarrow> (metadata option \<Rightarrow> ('w, 'a) client_action) \<Rightarrow>
     (sdk_exn \<Rightarrow> ('w, 'a) client_action) \<Rightarrow> ('w, 'a) client_action" where
  "guarded_send rt a ticket full rid body send h =
     handle (signed_send rt a ticket full rid body send) (\<lambda>e.
       if has_class [UnavailableError, FailedPreconditionError] e then burned rt a ticket full e else h e)"

definition signed_once ::
    "'w runtime \<Rightarrow> agent option \<Rightarrow> string \<Rightarrow> ustr \<Rightarrow> pb_message option \<Rightarrow>
     (metadata option \<Rightarrow> ('w, 'a) client_action) \<Rightarrow> f64 \<Rightarrow> ('w, 'a) client_action" where
  "signed_once rt credential rpc_full_name resource_id body send timeout =
     andthen get_client (\<lambda>c.
       case signer c credential of
         None \<Rightarrow> send None
       | Some a \<Rightarrow>
           andthen (ticket_for rt a timeout) (\<lambda>ticket.
           guarded_send rt a ticket rpc_full_name resource_id body send raise))"

definition credentialed_call ::
    "'w runtime \<Rightarrow> agent option \<Rightarrow> string \<Rightarrow> ustr \<Rightarrow> pb_message option \<Rightarrow>
     (metadata option \<Rightarrow> ('w, 'a) client_action) \<Rightarrow> f64 \<Rightarrow> bool \<Rightarrow> ('w, 'a) client_action" where
  "credentialed_call rt credential rpc_full_name resource_id body send timeout retry =
     andthen get_client (\<lambda>c.
       case signer c credential of
         None \<Rightarrow> send None
       | Some a \<Rightarrow>
           andthen (ticket_for rt a timeout) (\<lambda>ticket.
           guarded_send rt a ticket rpc_full_name resource_id body send (\<lambda>e.
             if has_class [UnauthenticatedError] e then
               (if \<not> retry then andthen (invalidate_ticket rt a ticket) (\<lambda>_. raise e)
                else
                  andthen (refresh_ticket rt a ticket timeout) (\<lambda>ticket'.
                  guarded_send rt a ticket' rpc_full_name resource_id body send raise))
             else raise e)))"

section \<open>The advisory verb\<close>

text \<open>The input is canonicalized once, before the ticket; the request is rebuilt from those bytes.\<close>

definition authorize :: "'w runtime \<Rightarrow> authorize_consts \<Rightarrow> agent \<Rightarrow> authorize_args \<Rightarrow> f64 \<Rightarrow> ('w, authorize_result) client_action" where
  "authorize rt k a args timeout =
     andthen (lift (resolve_canonical (rt_depth rt) (aa_tool_input args) (aa_canonical args))) (\<lambda>canonical.
     let args' = args\<lparr>aa_tool_input := VNone, aa_canonical := VBytes canonical\<rparr>;
         attempt = (\<lambda>t. andthen (lift (build_authorize_request (rt_ed rt) (rt_depth rt) t (ag_seed a) args')) (\<lambda>req.
                      stub rt ''SeamAuthorization/Authorize'' req None timeout))
     in andthen (ticket_for rt a timeout) (\<lambda>ticket.
        andthen (handle (attempt ticket) (\<lambda>e.
                   if has_class [UnauthenticatedError] e then
                     andthen (refresh_ticket rt a ticket timeout) attempt
                   else raise e)) (\<lambda>resp.
        lift (result_of k resp))))"

section \<open>The calls of the ticket lifecycle\<close>

definition admission_call :: "wire_call \<Rightarrow> bool" where
  "admission_call c \<longleftrightarrow> w_rpc c = ''SeamAdmission/IssueChallenge'' \<or> w_rpc c = ''SeamAdmission/Admit''"

text \<open>At most one challenge and one \<open>Admit\<close>, in this order and nothing else.\<close>

definition handshake :: "wire_call list \<Rightarrow> bool" where
  "handshake cs \<longleftrightarrow> map w_rpc cs \<in> {[], [''SeamAdmission/IssueChallenge''], [''SeamAdmission/IssueChallenge'', ''SeamAdmission/Admit'']}"

lemma appends_cache [appends_rules]: "appends (cache_and_lock aid)" "appends (update_cache aid f)"
  by (auto simp: cache_and_lock_def update_cache_def intro!: appends_rules split: option.split)

lemma appends_presentation [appends_rules]: "appends (agent_presentation rt a timeout)"
  by (auto simp: agent_presentation_def intro!: appends_rules)

lemma appends_admit_locked [appends_rules]: "appends (admit_locked rt a aid timeout)"
  by (auto simp: admit_locked_def intro!: appends_rules)

lemma appends_tickets [appends_rules]:
  "appends (admit rt a timeout)" "appends (ticket_for rt a timeout)" "appends (refresh_ticket rt a failed timeout)"
  "appends (invalidate_ticket rt a failed)"
  by (auto simp: admit_def ticket_for_def refresh_ticket_def invalidate_ticket_def Let_def intro!: appends_rules split: option.split)

lemmas calls_rules = calls_simps calls_andthen calls_handle appends_rules

lemma calls_cache [simp]: "calls (cache_and_lock aid) s = []" "calls (update_cache aid f) s = []"
  by (simp_all add: cache_and_lock_def update_cache_def calls_def action_defs split: option.split)

lemma calls_presentation: "map w_rpc (calls (agent_presentation rt a timeout) s) = [''SeamAdmission/IssueChallenge'']"
  unfolding agent_presentation_def by (simp add: calls_rules split: sum.split)

lemma calls_admit_locked: "handshake (calls (admit_locked rt a aid timeout) s)"
proof -
  have "map w_rpc (calls (admit_locked rt a aid timeout) s) =
      [''SeamAdmission/IssueChallenge''] @ (case fst (agent_presentation rt a timeout s) of Inl _ \<Rightarrow> [] | Inr _ \<Rightarrow> [''SeamAdmission/Admit''])"
    unfolding admit_locked_def by (simp add: calls_rules calls_presentation split: sum.split)
  then show ?thesis by (simp add: handshake_def split: sum.splits)
qed

lemma handshake_Nil [simp]: "handshake []"
  by (simp add: handshake_def)

lemma calls_ticket_for: "handshake (calls (ticket_for rt a timeout) s)"
  unfolding ticket_for_def
  by (simp add: calls_rules calls_admit_locked appends_tickets split: sum.split option.split)

lemma calls_refresh_ticket: "handshake (calls (refresh_ticket rt a failed timeout) s)"
  unfolding refresh_ticket_def Let_def
  by (simp add: calls_rules calls_admit_locked appends_tickets split: sum.split option.split)

lemma calls_invalidate_ticket: "calls (invalidate_ticket rt a failed) s = []"
  unfolding invalidate_ticket_def
  by (simp add: calls_rules split: sum.split option.split)

text \<open>Running an action, with what it appends to the log.\<close>

lemma run_log:
  assumes "m s = (r, s')" "appends m" shows "io_log s' = io_log s @ calls m s"
  using assms unfolding appends_def by (metis snd_conv)

lemma invalidate_returns:
  assumes "agent_aid (rt_ed rt) a = Inr aid" "invalidate_ticket rt a failed s = (r, s')"
  shows "r = Inr ()"
  using assms
  by (auto simp: invalidate_ticket_def action_defs now_ms_def cache_and_lock_def update_cache_def split: option.splits prod.splits if_splits)

lemma burned_raises:
  assumes "agent_aid (rt_ed rt) a = Inr aid" "burned rt a ticket rpc e s = (r, s')"
  shows "r = Inl e \<and> io_log s' = io_log s"
proof (cases "rpc \<in> set REPLAY_GUARDED \<and> (is_session_unavailable e \<or> is_tenant_moving e)")
  case True
  obtain q u where i: "invalidate_ticket rt a ticket s = (q, u)" by (cases "invalidate_ticket rt a ticket s")
  have "io_log u = io_log s" using run_log [OF i appends_tickets(4)] by (simp add: calls_invalidate_ticket)
  with assms invalidate_returns [OF assms(1) i] True i show ?thesis
    by (simp add: burned_def forget_burned_ticket_def andthen_def raise_def)
next
  case False
  then show ?thesis using assms(2) by (auto simp: burned_def forget_burned_ticket_def andthen_def raise_def ret_def)
qed

lemma ticket_for_aid: "ticket_for rt a timeout s = (Inr t, s') \<Longrightarrow> \<exists>aid. agent_aid (rt_ed rt) a = Inr aid"
  by (cases "agent_aid (rt_ed rt) a") (auto simp: ticket_for_def action_defs)

text \<open>One signed send of a request: refused before the wire, or one call whose outcome is the result.\<close>

abbreviation sent :: "string \<Rightarrow> pb_message \<Rightarrow> f64 \<Rightarrow> metadata option \<Rightarrow> wire_call" where
  "sent rpc req timeout md \<equiv> \<lparr>w_rpc = rpc, w_request = req, w_metadata = md, w_timeout = timeout\<rparr>"

definition answered :: "'w runtime \<Rightarrow> string \<Rightarrow> pb_message \<Rightarrow> f64 \<Rightarrow> metadata option \<Rightarrow> pb_message sres \<Rightarrow> bool" where
  "answered rt rpc req timeout md r \<longleftrightarrow> (\<exists>w. r = mapped_call (fst (rt_call rt rpc req md timeout w)))"

lemma stub_run:
  "stub rt rpc req md timeout s = (r, s') \<Longrightarrow> answered rt rpc req timeout md r \<and> io_log s' = io_log s @ [sent rpc req timeout md]"
  by (auto simp: stub_def answered_def Let_def split: prod.splits) (metis fst_conv)

lemma signed_send_run:
  assumes "signed_send rt a ticket full rid body (\<lambda>md. stub rt rpc req md timeout) s = (r, s')"
  obtains (refused) e where "credential_metadata rt (ag_seed a) ticket full rid body = Inl e" "r = Inl e" "s' = s"
    | (called) md where "credential_metadata rt (ag_seed a) ticket full rid body = Inr md"
        "answered rt rpc req timeout (Some md) r" "io_log s' = io_log s @ [sent rpc req timeout (Some md)]"
  using assms stub_run [of rt rpc req _ timeout s]
  by (cases "credential_metadata rt (ag_seed a) ticket full rid body") (auto simp: signed_send_def action_defs)

lemma metadata_error: "credential_metadata rt seed ticket full rid body = Inl e \<Longrightarrow> \<not> has_class cs e"
  by (auto simp: credential_metadata_def rbind_eq_Inl rbind_eq_Inr py_sres_def has_class_def split: sum.splits)

lemma guarded_send_run:
  assumes "guarded_send rt a ticket full rid body (\<lambda>md. stub rt rpc req md timeout) h s = (r, s')" "agent_aid (rt_ed rt) a = Inr aid"
  obtains (ended) mds where "length mds \<le> 1" "io_log s' = io_log s @ map (sent rpc req timeout) mds"
      "\<forall>md \<in> set mds. answered rt rpc req timeout md r"
    | (handled) mds e u where "length mds \<le> 1" "io_log u = io_log s @ map (sent rpc req timeout) mds" "h e u = (r, s')"
      "\<forall>md \<in> set mds. answered rt rpc req timeout md (Inl e)"
      "has_class [UnauthenticatedError] e \<longrightarrow> mds \<noteq> []" "\<not> has_class [UnavailableError, FailedPreconditionError] e"
proof -
  obtain q u where q: "signed_send rt a ticket full rid body (\<lambda>md. stub rt rpc req md timeout) s = (q, u)"
    by (cases "signed_send rt a ticket full rid body (\<lambda>md. stub rt rpc req md timeout) s")
  have "\<exists>mds. length mds \<le> 1 \<and> io_log u = io_log s @ map (sent rpc req timeout) mds \<and>
      (\<forall>md \<in> set mds. answered rt rpc req timeout md q) \<and> (\<forall>e. q = Inl e \<and> has_class [UnauthenticatedError] e \<longrightarrow> mds \<noteq> [])"
  proof (rule signed_send_run [OF q])
    fix e assume "credential_metadata rt (ag_seed a) ticket full rid body = Inl e" "q = Inl e" "u = s"
    then show ?thesis using metadata_error by (intro exI [of _ "[]"]) fastforce
  next
    fix md assume "answered rt rpc req timeout (Some md) q" "io_log u = io_log s @ [sent rpc req timeout (Some md)]"
    then show ?thesis by (intro exI [of _ "[Some md]"]) simp
  qed
  then obtain mds where mds: "length mds \<le> 1" "io_log u = io_log s @ map (sent rpc req timeout) mds"
    "\<forall>md \<in> set mds. answered rt rpc req timeout md q" "\<And>e. q = Inl e \<Longrightarrow> has_class [UnauthenticatedError] e \<Longrightarrow> mds \<noteq> []"
    by blast
  show ?thesis
  proof (cases q)
    case (Inr x)
    with assms(1) q mds ended show ?thesis by (auto simp: guarded_send_def handle_def)
  next
    case (Inl e)
    show ?thesis
    proof (cases "has_class [UnavailableError, FailedPreconditionError] e")
      case True
      then have "burned rt a ticket full e u = (r, s')" using assms(1) q Inl by (simp add: guarded_send_def handle_def)
      from burned_raises [OF assms(2) this] mds Inl ended show ?thesis by auto
    next
      case False
      then have "h e u = (r, s')" using assms(1) q Inl by (simp add: guarded_send_def handle_def)
      with mds Inl False handled show ?thesis by blast
    qed
  qed
qed

lemma invalidate_then_raise:
  assumes "agent_aid (rt_ed rt) a = Inr aid" "andthen (invalidate_ticket rt a ticket) (\<lambda>_. raise e) s = (r, s')"
  shows "r = Inl e \<and> io_log s' = io_log s"
proof -
  obtain q u where i: "invalidate_ticket rt a ticket s = (q, u)" by (cases "invalidate_ticket rt a ticket s")
  have "io_log u = io_log s" using run_log [OF i appends_tickets(4)] by (simp add: calls_invalidate_ticket)
  with assms(2) invalidate_returns [OF assms(1) i] i show ?thesis by (simp add: andthen_def raise_def)
qed

text \<open>What follows a rejected ticket: at most one handshake, then at most one more send.\<close>

lemma retry_run:
  assumes "andthen (refresh_ticket rt a ticket timeout) (\<lambda>t.
      guarded_send rt a t full rid body (\<lambda>md. stub rt rpc req md timeout) raise) s = (r, s')"
    and "agent_aid (rt_ed rt) a = Inr aid"
  shows "\<exists>hs mds. handshake hs \<and> length mds \<le> 1 \<and> io_log s' = io_log s @ hs @ map (sent rpc req timeout) mds \<and>
    (\<forall>md \<in> set mds. answered rt rpc req timeout md r)"
proof -
  obtain q u where q: "refresh_ticket rt a ticket timeout s = (q, u)" by (cases "refresh_ticket rt a ticket timeout s")
  note log = run_log [OF q appends_tickets(3)] and hs = calls_refresh_ticket [of rt a ticket timeout s]
  show ?thesis
  proof (cases q)
    case (Inl e)
    then show ?thesis using assms(1) q log hs by (intro exI [of _ "calls (refresh_ticket rt a ticket timeout) s"] exI [of _ "[]"]) (simp add: andthen_def)
  next
    case (Inr t)
    then have g: "guarded_send rt a t full rid body (\<lambda>md. stub rt rpc req md timeout) raise u = (r, s')"
      using assms(1) q by (simp add: andthen_def)
    have "\<exists>mds. length mds \<le> 1 \<and> io_log s' = io_log u @ map (sent rpc req timeout) mds \<and> (\<forall>md \<in> set mds. answered rt rpc req timeout md r)"
      by (rule guarded_send_run [OF g assms(2)]) (auto simp: raise_def)
    then show ?thesis using log hs by auto
  qed
qed

definition trace_of ::
    "'w runtime \<Rightarrow> string \<Rightarrow> pb_message \<Rightarrow> f64 \<Rightarrow> bool \<Rightarrow> wire_call list \<Rightarrow> pb_message sres \<Rightarrow> bool" where
  "trace_of rt rpc req timeout retry cs r \<longleftrightarrow>
     (\<exists>h1 mds1 h2 mds2. cs = h1 @ map (sent rpc req timeout) mds1 @ h2 @ map (sent rpc req timeout) mds2 \<and>
        handshake h1 \<and> handshake h2 \<and> length mds1 \<le> 1 \<and> length mds2 \<le> 1 \<and>
        (h2 = [] \<and> mds2 = [] \<and> (\<forall>md \<in> set mds1. answered rt rpc req timeout md r) \<or>
         retry \<and> (\<forall>md \<in> set mds2. answered rt rpc req timeout md r) \<and>
           (\<exists>md e. mds1 = [md] \<and> answered rt rpc req timeout md (Inl e) \<and> has_class [UnauthenticatedError] e)))"

lemma trace_once:
  assumes "handshake h" "length mds \<le> 1" "\<forall>md \<in> set mds. answered rt rpc req timeout md r"
  shows "trace_of rt rpc req timeout retry (h @ map (sent rpc req timeout) mds) r"
  unfolding trace_of_def using assms by (intro exI [of _ h] exI [of _ mds] exI [of _ "[]"]) simp

lemma trace_twice:
  assumes "handshake h" "handshake h'" "length mds \<le> 1" "\<forall>md \<in> set mds. answered rt rpc req timeout md r"
    and "answered rt rpc req timeout md (Inl e)" "has_class [UnauthenticatedError] e"
  shows "trace_of rt rpc req timeout True (h @ sent rpc req timeout md # h' @ map (sent rpc req timeout) mds) r"
  unfolding trace_of_def using assms by (intro exI [of _ h] exI [of _ "[md]"] exI [of _ h'] exI [of _ mds]) auto

lemma credentialed_call_trace:
  assumes "credentialed_call rt credential full rid body (\<lambda>md. stub rt rpc req md timeout) timeout retry s = (r, s')"
  shows "\<exists>cs. io_log s' = io_log s @ cs \<and> trace_of rt rpc req timeout retry cs r"
proof (cases "signer (io_client s) credential")
  case None
  then have "stub rt rpc req None timeout s = (r, s')" using assms by (simp add: credentialed_call_def action_defs)
  from stub_run [OF this] show ?thesis
    using trace_once [of "[]" "[None]" rt rpc req timeout r retry] by auto
next
  case (Some a)
  obtain q u where q: "ticket_for rt a timeout s = (q, u)" by (cases "ticket_for rt a timeout s")
  note log = run_log [OF q appends_tickets(2)] and hs = calls_ticket_for [of rt a timeout s]
  let ?h = "calls (ticket_for rt a timeout) s"
  show ?thesis
  proof (cases q)
    case (Inl e)
    then have "s' = u" using assms Some q by (simp add: credentialed_call_def action_defs)
    with log hs show ?thesis using trace_once [of ?h "[]" rt rpc req timeout r retry] by auto
  next
    case (Inr t)
    obtain aid where aid: "agent_aid (rt_ed rt) a = Inr aid" using ticket_for_aid q Inr by blast
    from assms Some q Inr have g: "guarded_send rt a t full rid body (\<lambda>md. stub rt rpc req md timeout) (\<lambda>e.
        if has_class [UnauthenticatedError] e then
          (if \<not> retry then andthen (invalidate_ticket rt a t) (\<lambda>_. raise e)
           else andthen (refresh_ticket rt a t timeout) (\<lambda>t'. guarded_send rt a t' full rid body (\<lambda>md. stub rt rpc req md timeout) raise))
        else raise e) u = (r, s')"
      by (simp add: credentialed_call_def action_defs)
    from g aid show ?thesis
    proof (cases rule: guarded_send_run)
      case (ended mds)
      then show ?thesis using log trace_once [OF hs, of mds rt rpc req timeout r retry] by auto
    next
      case (handled mds e v)
      then have plain: ?thesis if "r = Inl e" "io_log s' = io_log v"
        using log trace_once [OF hs, of mds rt rpc req timeout r retry] that by auto
      consider "\<not> has_class [UnauthenticatedError] e" | "has_class [UnauthenticatedError] e" "\<not> retry"
        | (again) "has_class [UnauthenticatedError] e" retry by blast
      then show ?thesis
      proof cases
        case 1
        then show ?thesis using handled(3) by (intro plain) (auto simp: raise_def)
      next
        case 2
        then have "andthen (invalidate_ticket rt a t) (\<lambda>_. raise e) v = (r, s')" using handled(3) by simp
        from invalidate_then_raise [OF aid this] show ?thesis by (intro plain) auto
      next
        case again
        then obtain hs' mds' where m: "handshake hs'" "length mds' \<le> 1" "io_log s' = io_log v @ hs' @ map (sent rpc req timeout) mds'"
          "\<forall>md \<in> set mds'. answered rt rpc req timeout md r"
          using retry_run [OF _ aid, of t timeout full rid body rpc req v r s'] handled(3) by auto
        obtain md where md: "mds = [md]" using handled(1,5) again by (cases mds) auto
        from handled(4) md have "answered rt rpc req timeout md (Inl e)" by simp
        from trace_twice [OF hs m(1,2,4) this again(1)] log handled(2) m(3) md again(2) show ?thesis by auto
      qed
    qed
  qed
qed

lemma handshake_length: "handshake h \<Longrightarrow> length h \<le> 2"
  by (auto simp: handshake_def dest: arg_cong [of _ _ length])

text \<open>C8: A credentialed call makes at most six calls: perhaps a handshake, the request, and, only when the
  server refused the request as unauthenticated and the verb may retry, perhaps a handshake and the
  same request again. No other call is made, the request is never sent a third time, and when the
  server's answer to the request is the last it gave, it is the outcome.\<close>

theorem credentialed_call_bounded:
  assumes "credentialed_call rt credential full rid body (\<lambda>md. stub rt rpc req md timeout) timeout retry s = (r, s')"
  shows "\<exists>h1 mds1 h2 mds2.
    io_log s' = io_log s @ h1 @ map (sent rpc req timeout) mds1 @ h2 @ map (sent rpc req timeout) mds2 \<and>
    handshake h1 \<and> handshake h2 \<and> length mds1 \<le> 1 \<and> length mds2 \<le> 1 \<and> length (io_log s') \<le> length (io_log s) + 6 \<and>
    (h2 = [] \<and> mds2 = [] \<and> (\<forall>md \<in> set mds1. answered rt rpc req timeout md r) \<or>
     retry \<and> (\<forall>md \<in> set mds2. answered rt rpc req timeout md r) \<and>
       (\<exists>md e. mds1 = [md] \<and> answered rt rpc req timeout md (Inl e) \<and> has_class [UnauthenticatedError] e))"
proof -
  from credentialed_call_trace [OF assms] obtain h1 mds1 h2 mds2 where
    t: "io_log s' = io_log s @ h1 @ map (sent rpc req timeout) mds1 @ h2 @ map (sent rpc req timeout) mds2"
      "handshake h1" "handshake h2" "length mds1 \<le> 1" "length mds2 \<le> 1"
    and u: "h2 = [] \<and> mds2 = [] \<and> (\<forall>md \<in> set mds1. answered rt rpc req timeout md r) \<or>
     retry \<and> (\<forall>md \<in> set mds2. answered rt rpc req timeout md r) \<and>
       (\<exists>md e. mds1 = [md] \<and> answered rt rpc req timeout md (Inl e) \<and> has_class [UnauthenticatedError] e)"
    unfolding trace_of_def by blast
  have "length (io_log s') \<le> length (io_log s) + 6"
    using handshake_length [OF t(2)] handshake_length [OF t(3)] t(1,4,5) by simp
  with t u show ?thesis by blast
qed

text \<open>A server that rejects every ticket and issues no challenge.\<close>

definition rejection :: call_exn where
  "rejection = GrpcRaised (Untyped \<lparr>raw_code = Returns (Some UNAUTHENTICATED), raw_details = NoAccessor, raw_trailing = NoAccessor\<rparr>)"

definition refusing :: "unit runtime" where
  "refusing =
     \<lparr>rt_now_ms = (\<lambda>w. (0, w)), rt_now_s = (\<lambda>w. (0, w)), rt_call = (\<lambda>rpc req md timeout w. (Inl rejection, w)),
      rt_serialize = (\<lambda>m. Inr []), rt_ed = example_ed, rt_depth = 9\<rparr>"

definition example_agent :: agent where
  "example_agent = \<lparr>ag_seed = replicate 32 7\<rparr>"

definition example_state :: "(client, unit) io" where
  "example_state =
     \<lparr>io_client = \<lparr>cl_agent = Some example_agent,
                    cl_tickets = [aid_from_pubkey (replicate 32 7) \<mapsto> \<lparr>tc_ticket = Some [1], tc_refresh_at_ms = 10\<rparr>]\<rparr>,
      io_world = (), io_log = []\<rparr>"

lemma rejection_class: "\<exists>e. mapped_call (Inl rejection :: call_exn + pb_message) = Inl (RpcErr e) \<and> e_class e = UnauthenticatedError"
  by (simp add: rejection_def mapped_call_def map_rpc_error_def by_code_def seam_rpc_error_def)

lemma example_refused:
  "map w_rpc (io_log (snd (credentialed_call refusing None ''/r'' [] None (\<lambda>md. stub refusing ''r'' (Pb ''R'' []) md 0) 0 True example_state)))
     = [''r'', ''SeamAdmission/IssueChallenge'']"
proof -
  obtain e where e: "mapped_call (Inl rejection :: call_exn + pb_message) = Inl (RpcErr e)" "e_class e = UnauthenticatedError" using rejection_class by blast
  have aid: "agent_aid (rt_ed refusing) example_agent = Inr (aid_from_pubkey (replicate 32 7))"
    by (simp add: agent_aid_def refusing_def example_ed_def example_agent_def)
  have "\<exists>md. credential_metadata refusing (ag_seed example_agent) [1] ''/r'' [] None = Inr md"
    by (simp add: credential_metadata_def py_sres_def request_sig_def refusing_def example_ed_def example_agent_def
        request_sig_payload_def utf8_encode_def utf8_cp_def ustr_def frame_def pack_u32_def REQUEST_SIG_CONTEXT_def bstr_def)
  then obtain md where md: "credential_metadata refusing (ag_seed example_agent) [1] ''/r'' [] None = Inr md" ..
  have rt: "rt_now_ms refusing w = (0, w)" "rt_call refusing rpc req md t w = (Inl rejection, w)" for w rpc req md t
    by (simp_all add: refusing_def)
  show ?thesis
    unfolding credentialed_call_def guarded_send_def signed_send_def ticket_for_def refresh_ticket_def aid
    by (simp add: action_defs md e aid signer_def example_state_def cache_and_lock_def update_cache_def now_ms_def cache_get_def
        stub_def has_class_def admit_locked_def agent_presentation_def rt)
qed

theorem credentialed_call_bounded_witness:
  "\<exists>r s' h1 mds1 h2 mds2.
     credentialed_call refusing None ''/r'' [] None (\<lambda>md. stub refusing ''r'' (Pb ''R'' []) md 0) 0 True example_state = (r, s') \<and>
     map w_rpc (io_log s') = [''r'', ''SeamAdmission/IssueChallenge''] \<and>
     io_log s' = [] @ h1 @ map (sent ''r'' (Pb ''R'' []) 0) mds1 @ h2 @ map (sent ''r'' (Pb ''R'' []) 0) mds2 \<and>
     handshake h1 \<and> handshake h2 \<and> length mds1 \<le> 1 \<and> length mds2 \<le> 1"
proof -
  let ?m = "credentialed_call refusing None ''/r'' [] None (\<lambda>md. stub refusing ''r'' (Pb ''R'' []) md 0) 0 True"
  obtain r s' where run: "?m example_state = (r, s')" by (cases "?m example_state")
  have "io_log example_state = []" by (simp add: example_state_def)
  with credentialed_call_bounded [OF run] example_refused run show ?thesis by auto
qed

end
