(* ===== verification/Verbs.thy ===== *)
theory Verbs
  imports Client
begin

text \<open>
  The verbs of the data plane (\<open>client.py\<close>): each builds its request and sends it, credentialed with a
  refresh, credentialed once, or plain. A stub method is named by its service and method; the path
  that is signed is that name under \<open>/seam.api.v1.\<close>.
\<close>

section \<open>The three ways to send\<close>

definition path :: "string \<Rightarrow> string" where
  "path rpc = ''/seam.api.v1.'' @ rpc"

text \<open>A bodied verb signs the request message; a read signs the id of what it reads.\<close>

definition send_step :: "'w runtime \<Rightarrow> agent option \<Rightarrow> string \<Rightarrow> pb_message \<Rightarrow> f64 \<Rightarrow> ('w, pb_message) client_action" where
  "send_step rt credential rpc req timeout =
     credentialed_call rt credential (path rpc) [] (Some req) (\<lambda>md. stub rt rpc req md timeout) timeout True"

definition send_read :: "'w runtime \<Rightarrow> agent option \<Rightarrow> string \<Rightarrow> ustr \<Rightarrow> pb_message \<Rightarrow> f64 \<Rightarrow> ('w, pb_message) client_action" where
  "send_read rt credential rpc resource_id req timeout =
     credentialed_call rt credential (path rpc) resource_id None (\<lambda>md. stub rt rpc req md timeout) timeout True"

definition send_once :: "'w runtime \<Rightarrow> agent option \<Rightarrow> string \<Rightarrow> pb_message \<Rightarrow> f64 \<Rightarrow> ('w, pb_message) client_action" where
  "send_once rt credential rpc req timeout =
     signed_once rt credential (path rpc) [] (Some req) (\<lambda>md. stub rt rpc req md timeout) timeout"

definition usage_field :: "step_usage option \<Rightarrow> pb_value option" where
  "usage_field usage = map_option (\<lambda>u. PMsg (usage_to_pb u)) usage"

section \<open>Decisions and sessions\<close>

definition run_decision ::
    "'w runtime \<Rightarrow> agent \<Rightarrow> ustr \<Rightarrow> ustr list \<Rightarrow> pyval list \<Rightarrow> (ustr \<times> ustr) list option \<Rightarrow> ustr list \<Rightarrow> f64 \<Rightarrow>
     ('w, pb_message) client_action" where
  "run_decision rt a session_id participants votes features on_behalf_of timeout =
     andthen (lift_py (vote_messages votes)) (\<lambda>vs.
     andthen (agent_presentation rt a timeout) (\<lambda>p.
     stub rt ''SeamCoordination/RunDecision''
       (pb_set_opt
          (Pb ''RunDecisionRequest''
             [(''session_id'', PStr session_id), (''participants'', PStrs participants), (''votes'', PMsgs vs),
              (''presentation'', PMsg p), (''on_behalf_of'', PStrs on_behalf_of)])
          ''features'' (features_field features))
       None timeout))"

definition open_session ::
    "'w runtime \<Rightarrow> agent \<Rightarrow> ustr \<Rightarrow> ustr list \<Rightarrow> int \<Rightarrow> budget_limits option \<Rightarrow> ustr \<Rightarrow> ustr list \<Rightarrow> agent option \<Rightarrow> f64 \<Rightarrow>
     ('w, pb_message) client_action" where
  "open_session rt a session_id participants budget limits mode on_behalf_of credential timeout =
     andthen (agent_presentation rt a timeout) (\<lambda>p.
     send_once rt credential ''SeamCoordination/OpenSession''
       (pb_set_opt
          (Pb ''OpenSessionRequest''
             [(''session_id'', PStr session_id), (''participants'', PStrs participants), (''budget'', PInt budget),
              (''mode'', PStr mode), (''presentation'', PMsg p), (''on_behalf_of'', PStrs on_behalf_of)])
          ''limits'' (map_option (\<lambda>l. PMsg (limits_to_pb l)) limits))
       timeout)"

definition submit_proposal ::
    "'w runtime \<Rightarrow> ustr \<Rightarrow> ustr \<Rightarrow> ustr \<Rightarrow> ustr \<Rightarrow> step_usage option \<Rightarrow> agent option \<Rightarrow> f64 \<Rightarrow> ('w, pb_message) client_action" where
  "submit_proposal rt session_id proposer proposal_id opt usage credential timeout =
     send_step rt credential ''SeamCoordination/SubmitProposal''
       (pb_set_opt
          (Pb ''ProposalRequest''
             [(''session_id'', PStr session_id), (''proposer'', PStr proposer), (''proposal_id'', PStr proposal_id),
              (''option'', PStr opt)])
          ''usage'' (usage_field usage))
       timeout"

definition submit_vote ::
    "'w runtime \<Rightarrow> ustr \<Rightarrow> ustr \<Rightarrow> ustr \<Rightarrow> ustr \<Rightarrow> ustr \<Rightarrow> step_usage option \<Rightarrow> agent option \<Rightarrow> f64 \<Rightarrow> ('w, pb_message) client_action" where
  "submit_vote rt session_id voter proposal_id val reason usage credential timeout =
     send_step rt credential ''SeamCoordination/SubmitVote''
       (pb_set_opt
          (Pb ''VoteRequest''
             [(''session_id'', PStr session_id), (''voter'', PStr voter), (''proposal_id'', PStr proposal_id),
              (''value'', PStr val), (''reason'', PStr reason)])
          ''usage'' (usage_field usage))
       timeout"

definition submit_evaluation ::
    "'w runtime \<Rightarrow> ustr \<Rightarrow> ustr \<Rightarrow> ustr \<Rightarrow> ustr \<Rightarrow> f64 option \<Rightarrow> ustr \<Rightarrow> ustr option \<Rightarrow> step_usage option \<Rightarrow> agent option \<Rightarrow> f64 \<Rightarrow>
     ('w, pb_message) client_action" where
  "submit_evaluation rt session_id evaluator proposal_id recommendation confidence reason rationale_ref usage credential timeout =
     send_step rt credential ''SeamCoordination/SubmitEvaluation''
       (pb_set_opt (pb_set_opt (pb_set_opt
          (Pb ''EvaluationRequest''
             [(''session_id'', PStr session_id), (''evaluator'', PStr evaluator), (''proposal_id'', PStr proposal_id),
              (''recommendation'', PStr recommendation), (''reason'', PStr reason)])
          ''confidence'' (map_option PDouble confidence))
          ''rationale_ref'' (map_option PStr rationale_ref))
          ''usage'' (usage_field usage))
       timeout"

definition submit_objection ::
    "'w runtime \<Rightarrow> ustr \<Rightarrow> ustr \<Rightarrow> ustr \<Rightarrow> ustr \<Rightarrow> ustr \<Rightarrow> step_usage option \<Rightarrow> agent option \<Rightarrow> f64 \<Rightarrow> ('w, pb_message) client_action" where
  "submit_objection rt session_id objector proposal_id reason severity usage credential timeout =
     send_step rt credential ''SeamCoordination/SubmitObjection''
       (pb_set_opt
          (Pb ''ObjectionRequest''
             [(''session_id'', PStr session_id), (''objector'', PStr objector), (''proposal_id'', PStr proposal_id),
              (''reason'', PStr reason), (''severity'', PStr severity)])
          ''usage'' (usage_field usage))
       timeout"

definition submit_commit ::
    "'w runtime \<Rightarrow> ustr \<Rightarrow> ustr \<Rightarrow> ustr \<Rightarrow> ustr option \<Rightarrow> step_usage option \<Rightarrow> agent option \<Rightarrow> f64 \<Rightarrow> ('w, pb_message) client_action" where
  "submit_commit rt session_id commitment_id act supersedes usage credential timeout =
     send_step rt credential ''SeamCoordination/SubmitCommit''
       (pb_set_opt (pb_set_opt
          (Pb ''CommitRequest''
             [(''session_id'', PStr session_id), (''commitment_id'', PStr commitment_id), (''action'', PStr act)])
          ''supersedes'' (map_option PStr supersedes))
          ''usage'' (usage_field usage))
       timeout"

definition submit_approval_request ::
    "'w runtime \<Rightarrow> ustr \<Rightarrow> ustr \<Rightarrow> ustr \<Rightarrow> ustr \<Rightarrow> pyval \<Rightarrow> step_usage option \<Rightarrow> agent option \<Rightarrow> f64 \<Rightarrow> ('w, pb_message) client_action" where
  "submit_approval_request rt session_id requester request_id act required_approvals usage credential timeout =
     andthen (lift_py (u32 required_approvals)) (\<lambda>n.
     send_step rt credential ''SeamCoordination/SubmitApprovalRequest''
       (pb_set_opt
          (Pb ''ApprovalRequestRequest''
             [(''session_id'', PStr session_id), (''requester'', PStr requester), (''request_id'', PStr request_id),
              (''action'', PStr act), (''required_approvals'', PInt n)])
          ''usage'' (usage_field usage))
       timeout)"

definition submit_ballot ::
    "'w runtime \<Rightarrow> ustr \<Rightarrow> ustr \<Rightarrow> ustr \<Rightarrow> int \<Rightarrow> ustr \<Rightarrow> step_usage option \<Rightarrow> agent option \<Rightarrow> f64 \<Rightarrow> ('w, pb_message) client_action" where
  "submit_ballot rt session_id voter request_id choice reason usage credential timeout =
     send_step rt credential ''SeamCoordination/SubmitBallot''
       (pb_set_opt
          (Pb ''BallotRequest''
             [(''session_id'', PStr session_id), (''voter'', PStr voter), (''request_id'', PStr request_id),
              (''choice'', PInt choice), (''reason'', PStr reason)])
          ''usage'' (usage_field usage))
       timeout"

text \<open>The deprecation warning of \<open>resume_session\<close> has no effect on the call.\<close>

definition resume_session :: "'w runtime \<Rightarrow> ustr \<Rightarrow> int \<Rightarrow> budget_limits option \<Rightarrow> f64 \<Rightarrow> ('w, pb_message) client_action" where
  "resume_session rt session_id budget raise_limits timeout =
     stub rt ''SeamCoordination/ResumeSession''
       (pb_set_opt (Pb ''ResumeRequest'' [(''session_id'', PStr session_id), (''budget'', PInt budget)])
          ''raise'' (map_option (\<lambda>l. PMsg (limits_to_pb l)) raise_limits))
       None timeout"

definition session_ref :: "ustr \<Rightarrow> pb_message" where
  "session_ref session_id = Pb ''SessionRef'' [(''session_id'', PStr session_id)]"

definition cancel_session :: "'w runtime \<Rightarrow> ustr \<Rightarrow> agent option \<Rightarrow> f64 \<Rightarrow> ('w, pb_message) client_action" where
  "cancel_session rt session_id credential timeout =
     send_once rt credential ''SeamCoordination/CancelSession'' (session_ref session_id) timeout"

definition expire_session :: "'w runtime \<Rightarrow> ustr \<Rightarrow> agent option \<Rightarrow> f64 \<Rightarrow> ('w, pb_message) client_action" where
  "expire_session rt session_id credential timeout =
     send_once rt credential ''SeamCoordination/ExpireSession'' (session_ref session_id) timeout"

section \<open>Reads\<close>

definition session_status :: "'w runtime \<Rightarrow> ustr \<Rightarrow> agent option \<Rightarrow> f64 \<Rightarrow> ('w, pb_message) client_action" where
  "session_status rt session_id credential timeout =
     send_read rt credential ''SeamCoordination/SessionStatus'' session_id (session_ref session_id) timeout"

definition decision_ref :: "ustr \<Rightarrow> pb_message" where
  "decision_ref d = Pb ''DecisionRef'' [(''decision_id'', PStr d)]"

definition get_decision :: "'w runtime \<Rightarrow> ustr \<Rightarrow> agent option \<Rightarrow> f64 \<Rightarrow> ('w, pb_message) client_action" where
  "get_decision rt d credential timeout =
     send_read rt credential ''SeamCoordination/GetDecision'' d (decision_ref d) timeout"

definition replay_decision :: "'w runtime \<Rightarrow> ustr \<Rightarrow> agent option \<Rightarrow> f64 \<Rightarrow> ('w, pb_message) client_action" where
  "replay_decision rt d credential timeout =
     send_read rt credential ''SeamCoordination/ReplayDecision'' d (decision_ref d) timeout"

definition get_commitment_proof :: "'w runtime \<Rightarrow> ustr \<Rightarrow> agent option \<Rightarrow> f64 \<Rightarrow> ('w, pb_message) client_action" where
  "get_commitment_proof rt d credential timeout =
     send_read rt credential ''SeamCoordination/GetCommitmentProof'' d (decision_ref d) timeout"

definition get_escalation :: "'w runtime \<Rightarrow> ustr \<Rightarrow> agent option \<Rightarrow> f64 \<Rightarrow> ('w, pb_message) client_action" where
  "get_escalation rt authorize_id credential timeout =
     send_read rt credential ''SeamAuthorization/GetEscalation'' authorize_id
       (Pb ''EscalationRef'' [(''authorize_id'', PStr authorize_id)]) timeout"

definition who_am_i :: "'w runtime \<Rightarrow> agent option \<Rightarrow> f64 \<Rightarrow> ('w, pb_message) client_action" where
  "who_am_i rt credential timeout = send_read rt credential ''SeamTrust/WhoAmI'' [] (Pb ''Empty'' []) timeout"

section \<open>Outcomes\<close>

definition check_idempotency_key :: "pyval \<Rightarrow> ustr res" where
  "check_idempotency_key key =
     (case key of
        VStr s \<Rightarrow>
          (if \<not> (1 \<le> length s \<and> length s \<le> 128) \<or> \<not> list_all (\<lambda>c. 32 \<le> c \<and> c \<le> 126) s then Inl ValueError
           else Inr s)
      | _ \<Rightarrow> Inl TypeError)"

definition set_outcome_fields :: "pb_message \<Rightarrow> f64 option \<times> (ustr \<times> f64) list \<times> nat option \<Rightarrow> pb_message" where
  "set_outcome_fields req = (\<lambda>(r, m, t).
     pb_set_opt (pb_set_opt (pb_set_opt req
       ''reward'' (map_option PDouble r))
       ''metrics'' (if m = [] then None else Some (PDoubles m)))
       ''observed_at_millis'' (map_option (\<lambda>n. PInt (int n)) t))"

definition report_outcome ::
    "'w runtime \<Rightarrow> ustr \<Rightarrow> bool \<Rightarrow> ustr option \<Rightarrow> pyval \<Rightarrow> pyval \<Rightarrow> pyval \<Rightarrow> observed_at option \<Rightarrow> agent option \<Rightarrow> f64 \<Rightarrow>
     ('w, bool) client_action" where
  "report_outcome rt d correct verified_by idempotency_key reward metrics observed credential timeout =
     andthen (lift_py (check_idempotency_key idempotency_key)) (\<lambda>key.
     andthen (lift_py (check_outcome_fields reward metrics observed)) (\<lambda>fs.
     let req = pb_set_opt
                 (set_outcome_fields
                    (Pb ''ReportOutcomeRequest''
                       [(''decision_id'', PStr d), (''correct'', PBool correct), (''idempotency_key'', PStr key)]) fs)
                 ''verified_by'' (map_option PStr verified_by)
     in andthen (send_step rt credential ''SeamCoordination/ReportOutcome'' req timeout) (\<lambda>resp.
        ret (get_bool resp ''recorded''))))"

section \<open>Context and trust\<close>

definition register_context ::
    "'w runtime \<Rightarrow> bytes \<Rightarrow> ustr \<Rightarrow> ustr list option \<Rightarrow> agent option \<Rightarrow> f64 \<Rightarrow> ('w, ustr) client_action" where
  "register_context rt content fidelity derived_from credential timeout =
     andthen (send_step rt credential ''SeamContext/RegisterContext''
                (Pb ''RegisterContextRequest''
                   [(''content'', PBytes content), (''fidelity'', PStr fidelity),
                    (''derived_from'', PStrs (case derived_from of None \<Rightarrow> [] | Some xs \<Rightarrow> xs))])
                timeout) (\<lambda>resp.
     ret (get_str resp ''content_ref''))"

definition resolve_context :: "'w runtime \<Rightarrow> ustr list \<Rightarrow> agent option \<Rightarrow> f64 \<Rightarrow> ('w, pb_message list) client_action" where
  "resolve_context rt refs credential timeout =
     andthen (send_step rt credential ''SeamContext/ResolveContext'' (Pb ''ResolveContextRequest'' [(''refs'', PStrs refs)]) timeout)
       (\<lambda>resp. ret (get_msgs resp ''bindings''))"

definition issuer_aid :: "'w runtime \<Rightarrow> f64 \<Rightarrow> ('w, ustr) client_action" where
  "issuer_aid rt timeout =
     andthen (stub rt ''SeamTrust/IssuerAid'' (Pb ''Empty'' []) None timeout) (\<lambda>r. ret (get_str r ''issuer_aid''))"

definition server_info :: "'w runtime \<Rightarrow> f64 \<Rightarrow> ('w, ustr) client_action" where
  "server_info rt timeout =
     andthen (stub rt ''SeamTrust/ServerInfo'' (Pb ''Empty'' []) None timeout) (\<lambda>r. ret (get_str r ''runtime_version''))"

definition server_wire_features :: "'w runtime \<Rightarrow> f64 \<Rightarrow> ('w, ustr list) client_action" where
  "server_wire_features rt timeout =
     andthen (stub rt ''SeamTrust/ServerInfo'' (Pb ''Empty'' []) None timeout) (\<lambda>r. ret (get_strs r ''wire_features''))"

definition verify_commitment :: "'w runtime \<Rightarrow> pb_message \<Rightarrow> bytes \<Rightarrow> f64 \<Rightarrow> ('w, bool) client_action" where
  "verify_commitment rt commitment signed_artifact timeout =
     andthen (stub rt ''SeamTrust/VerifyCommitment''
                (Pb ''VerifyCommitmentRequest'' [(''commitment'', PMsg commitment), (''signed_artifact'', PBytes signed_artifact)])
                None timeout) (\<lambda>r. ret (get_bool r ''valid''))"

definition verify_party_anchor :: "'w runtime \<Rightarrow> ustr \<Rightarrow> pb_message \<Rightarrow> ustr \<Rightarrow> f64 \<Rightarrow> ('w, bool) client_action" where
  "verify_party_anchor rt party_id anchor tenant timeout =
     andthen (stub rt ''SeamTrust/VerifyPartyAnchor''
                (Pb ''VerifyAnchorRequest'' [(''party_id'', PStr party_id), (''anchor'', PMsg anchor), (''tenant'', PStr tenant)])
                None timeout) (\<lambda>r. ret (get_bool r ''valid''))"

definition verify_party_attestation :: "'w runtime \<Rightarrow> ustr \<Rightarrow> pb_message \<Rightarrow> f64 \<Rightarrow> ('w, bool) client_action" where
  "verify_party_attestation rt party_id attestation timeout =
     andthen (stub rt ''SeamTrust/VerifyPartyAttestation''
                (Pb ''VerifyAttestationRequest'' [(''party_id'', PStr party_id), (''attestation'', PMsg attestation)])
                None timeout) (\<lambda>r. ret (get_bool r ''valid''))"

section \<open>Verifying a decision\<close>

record explanation_consts =
  pb_VOTE :: int
  pb_EVALUATION :: int
  pb_OBJECTION :: int
  pb_BALLOT :: int

definition kind_words :: "explanation_consts \<Rightarrow> ustr enum_table" where
  "kind_words k =
     [(pb_VOTE k, ustr ''vote''), (pb_EVALUATION k, ustr ''evaluation''), (pb_OBJECTION k, ustr ''objection''),
      (pb_BALLOT k, ustr ''ballot'')]"

definition kind_word :: "explanation_consts \<Rightarrow> int \<Rightarrow> ustr" where
  "kind_word k n =
     (case dict_lookup (kind_words k) n of
        Some w \<Rightarrow> w
      | None \<Rightarrow> ustr ''<unknown kind '' @ str_int n @ ustr ''>'')"

definition opt_str :: "pb_message \<Rightarrow> string \<Rightarrow> pyval" where
  "opt_str m f = (if has_field m f then VStr (get_str m f) else VNone)"

definition entry_view :: "explanation_consts \<Rightarrow> pb_message \<Rightarrow> pyval" where
  "entry_view k e =
     VDict [(VStr (ustr ''kind''), VStr (kind_word k (get_int e ''kind''))),
            (VStr (ustr ''participant''), VStr (get_str e ''participant'')),
            (VStr (ustr ''proposal_id''), VStr (get_str e ''proposal_id'')),
            (VStr (ustr ''value''), VStr (get_str e ''value'')),
            (VStr (ustr ''reason''), VStr (get_str e ''reason'')),
            (VStr (ustr ''confidence''), if has_field e ''confidence'' then VFloat (get_double e ''confidence'') else VNone),
            (VStr (ustr ''rationale_ref''), opt_str e ''rationale_ref'')]"

definition commitment_view :: "explanation_consts \<Rightarrow> pb_message \<Rightarrow> pyval" where
  "commitment_view k c =
     VDict [(VStr (ustr ''id''), VStr (get_str c ''id'')),
            (VStr (ustr ''action''), VStr (get_str c ''action'')),
            (VStr (ustr ''authority''), VStr (get_str c ''authority'')),
            (VStr (ustr ''auth_method''), VStr (get_str c ''auth_method'')),
            (VStr (ustr ''trust_basis''), VStr (get_str c ''trust_basis'')),
            (VStr (ustr ''supersedes''), opt_str c ''supersedes''),
            (VStr (ustr ''committer''), VStr (get_str c ''committer'')),
            (VStr (ustr ''explanation_digest''),
               if get_bytes c ''explanation_digest'' = [] then VNone else VBytes (get_bytes c ''explanation_digest'')),
            (VStr (ustr ''explanation''), VList (map (entry_view k) (get_msgs c ''explanation'')))]"

definition verify_decision ::
    "'w runtime \<Rightarrow> explanation_consts \<Rightarrow> ustr \<Rightarrow> ustr \<Rightarrow> agent option \<Rightarrow> f64 \<Rightarrow> ('w, bool) client_action" where
  "verify_decision rt k d expected_issuer credential timeout =
     andthen (get_commitment_proof rt d credential timeout) (\<lambda>proof.
     if get_str proof ''issuer_aid'' \<noteq> expected_issuer then
       raise (IssuerMismatchError (get_str proof ''issuer_aid'') expected_issuer)
     else
       let c = get_msg proof ''commitment'' in
       andthen (lift_py (utf8_decode (get_bytes c ''signed_artifact''))) (\<lambda>artifact.
       andthen (now_s rt) (\<lambda>clock.
       ret (verify_tct (rt_ed rt) (rt_depth rt) clock expected_issuer artifact (commitment_view k c) None))))"

end
