(* ===== verification/Tickets.thy ===== *)
theory Tickets
  imports Client
begin

text \<open>
  Invariants of the ticket lifecycle of \<open>client.py\<close>. The operations that act as an agent are a step
  relation on the state of the client; the caches of its reachable states are well formed and a step
  of one agent leaves the caches of the others alone. Concurrent callers of one agent interleave at
  the granularity of the per-agent lock: between them a rejected ticket costs one re-admission.
\<close>

section \<open>What an action keeps\<close>

definition keeps :: "(client \<Rightarrow> client \<Rightarrow> bool) \<Rightarrow> ('w, 'a) client_action \<Rightarrow> bool" where
  "keeps R m \<longleftrightarrow> (\<forall>s. R (io_client s) (io_client (snd (m s))))"

lemma andthen_lift_py: "andthen (lift_py (Inr x)) f = f x"
  by (rule ext) (simp add: action_defs)

locale client_relation =
  fixes R :: "client \<Rightarrow> client \<Rightarrow> bool"
  assumes R_refl: "R c c" and R_trans: "R c d \<Longrightarrow> R d e \<Longrightarrow> R c e"
begin

lemma keeps_quiet:
  "keeps R (ret x)" "keeps R (raise e)" "keeps R (lift r)" "keeps R (lift_py q)" "keeps R get_client"
  "keeps R (now_ms rt)" "keeps R (stub rt rpc req md timeout)"
  by (auto simp: keeps_def action_defs now_ms_def stub_def Let_def R_refl split: prod.splits)

lemma keeps_andthen: "keeps R m \<Longrightarrow> (\<And>x. keeps R (f x)) \<Longrightarrow> keeps R (andthen m f)"
  unfolding keeps_def andthen_def by (auto split: prod.splits sum.splits) (metis R_trans snd_conv)+

lemma keeps_handle: "keeps R m \<Longrightarrow> (\<And>e. keeps R (h e)) \<Longrightarrow> keeps R (handle m h)"
  unfolding keeps_def handle_def by (auto split: prod.splits sum.splits) (metis R_trans snd_conv)+

lemmas keeps_rules = keeps_quiet keeps_andthen keeps_handle

end

section \<open>One agent at a time\<close>

definition cache_ok :: "ticket_cache \<Rightarrow> bool" where
  "cache_ok c \<longleftrightarrow> (case tc_ticket c of None \<Rightarrow> tc_refresh_at_ms c = 0 | Some t \<Rightarrow> t \<noteq> [])"

definition caches_ok :: "client \<Rightarrow> bool" where
  "caches_ok c \<longleftrightarrow> (\<forall>aid k. cl_tickets c aid = Some k \<longrightarrow> cache_ok k)"

definition acts_for :: "ustr \<Rightarrow> client \<Rightarrow> client \<Rightarrow> bool" where
  "acts_for aid c d \<longleftrightarrow>
     cl_agent d = cl_agent c \<and> (\<forall>x. x \<noteq> aid \<longrightarrow> cl_tickets d x = cl_tickets c x) \<and> (caches_ok c \<longrightarrow> caches_ok d)"

interpretation act: client_relation "acts_for aid" for aid
  by unfold_locales (auto simp: acts_for_def)

lemma cache_ok_ops: "cache_ok new_cache" "cache_ok (cache_invalidate c)" "cache_ok (cache_store c t e n)"
  by (simp_all add: cache_ok_def new_cache_def cache_invalidate_def cache_store_def Let_def)

lemma acts_update: "(\<And>k. cache_ok (f k)) \<Longrightarrow> keeps (acts_for aid) (update_cache aid f)"
  by (auto simp: keeps_def update_cache_def action_defs acts_for_def caches_ok_def)

lemma acts_cache: "keeps (acts_for aid) (cache_and_lock aid)"
  by (auto simp: keeps_def cache_and_lock_def action_defs acts_for_def caches_ok_def cache_ok_ops split: option.split)

lemma acts_admit_locked: "keeps (acts_for aid) (admit_locked rt a aid timeout)"
  unfolding admit_locked_def agent_presentation_def by (intro act.keeps_rules acts_update cache_ok_ops)

lemma acts_tickets:
  assumes "agent_aid (rt_ed rt) a = Inr aid"
  shows "keeps (acts_for aid) (admit rt a timeout)" "keeps (acts_for aid) (ticket_for rt a timeout)"
    "keeps (acts_for aid) (refresh_ticket rt a failed timeout)" "keeps (acts_for aid) (invalidate_ticket rt a failed)"
  unfolding admit_def ticket_for_def refresh_ticket_def invalidate_ticket_def Let_def assms andthen_lift_py
  by (auto split: option.split intro!: act.keeps_rules acts_cache acts_admit_locked acts_update cache_ok_ops)

lemma acts_guarded_send:
  assumes "agent_aid (rt_ed rt) a = Inr aid" "\<And>md. keeps (acts_for aid) (send md)" "\<And>e. keeps (acts_for aid) (h e)"
  shows "keeps (acts_for aid) (guarded_send rt a ticket full rid body send h)"
  unfolding guarded_send_def signed_send_def burned_def forget_burned_ticket_def
  using assms by (auto intro!: act.keeps_rules acts_tickets)

text \<open>The operations that act as agent \<open>a\<close>; the verbs are the two credentialed calls on a stub.\<close>

inductive client_step :: "'w runtime \<Rightarrow> authorize_consts \<Rightarrow> agent \<Rightarrow> (client, 'w) io \<Rightarrow> (client, 'w) io \<Rightarrow> bool"
  for rt k a where
  admitted: "client_step rt k a s (snd (admit rt a timeout s))"
| authorized: "client_step rt k a s (snd (authorize rt k a args timeout s))"
| called: "signer (io_client s) credential = Some a \<Longrightarrow>
    client_step rt k a s (snd (credentialed_call rt credential full rid body (\<lambda>md. stub rt rpc req md timeout) timeout retry s))"
| called_once: "signer (io_client s) credential = Some a \<Longrightarrow>
    client_step rt k a s (snd (signed_once rt credential full rid body (\<lambda>md. stub rt rpc req md timeout) timeout s))"

inductive client_reachable :: "'w runtime \<Rightarrow> authorize_consts \<Rightarrow> agent option \<Rightarrow> (client, 'w) io \<Rightarrow> bool" for rt k bound where
  connected: "client_reachable rt k bound \<lparr>io_client = new_client bound, io_world = w, io_log = []\<rparr>"
| stepped: "client_reachable rt k bound s \<Longrightarrow> agent_aid (rt_ed rt) a = Inr aid \<Longrightarrow> client_step rt k a s s' \<Longrightarrow>
    client_reachable rt k bound s'"

lemma acts_authorize:
  assumes "agent_aid (rt_ed rt) a = Inr aid" shows "keeps (acts_for aid) (authorize rt k a args timeout)"
  unfolding authorize_def Let_def using assms by (auto intro!: act.keeps_rules acts_tickets)

lemma client_step_acts:
  assumes "client_step rt k a s s'" "agent_aid (rt_ed rt) a = Inr aid"
  shows "acts_for aid (io_client s) (io_client s')"
  using assms(1)
proof cases
  case (admitted timeout)
  then show ?thesis using acts_tickets(1) [OF assms(2)] by (auto simp: keeps_def)
next
  case (authorized args timeout)
  then show ?thesis using acts_authorize [OF assms(2)] by (auto simp: keeps_def)
next
  case (called credential full rid body rpc req timeout retry)
  have "keeps (acts_for aid) (andthen (ticket_for rt a timeout) (\<lambda>ticket.
      guarded_send rt a ticket full rid body (\<lambda>md. stub rt rpc req md timeout) (\<lambda>e.
        if has_class [UnauthenticatedError] e then
          (if \<not> retry then andthen (invalidate_ticket rt a ticket) (\<lambda>_. raise e)
           else andthen (refresh_ticket rt a ticket timeout) (\<lambda>t. guarded_send rt a t full rid body (\<lambda>md. stub rt rpc req md timeout) raise))
        else raise e)))"
    using assms(2) by (auto intro!: act.keeps_rules acts_tickets acts_guarded_send)
  with called show ?thesis by (auto simp: keeps_def credentialed_call_def andthen_def [of get_client] get_client_def)
next
  case (called_once credential full rid body rpc req timeout)
  have "keeps (acts_for aid) (andthen (ticket_for rt a timeout) (\<lambda>ticket.
      guarded_send rt a ticket full rid body (\<lambda>md. stub rt rpc req md timeout) raise))"
    using assms(2) by (auto intro!: act.keeps_rules acts_tickets acts_guarded_send)
  with called_once show ?thesis by (auto simp: keeps_def signed_once_def andthen_def [of get_client] get_client_def)
qed

lemma reachable_ok: "client_reachable rt k bound s \<Longrightarrow> cl_agent (io_client s) = bound \<and> caches_ok (io_client s)"
proof (induction rule: client_reachable.induct)
  case (connected w)
  then show ?case by (simp add: new_client_def caches_ok_def)
next
  case (stepped s a aid s')
  then show ?case using client_step_acts by (fastforce simp: acts_for_def)
qed

text \<open>C3: In every state a client can reach, whatever the server answers, it is still bound to the agent it
  was made for, no cache holds an empty ticket, and an empty cache has no refresh time; and a step that
  acts as one agent leaves the caches of all other agents as they were.\<close>

theorem ticket_caches_invariant:
  assumes "client_reachable rt k bound s" and "client_step rt k a s s'" and "agent_aid (rt_ed rt) a = Inr aid"
  shows "cl_agent (io_client s') = bound \<and>
    (\<forall>x c. cl_tickets (io_client s') x = Some c \<longrightarrow>
       (case tc_ticket c of None \<Rightarrow> tc_refresh_at_ms c = 0 | Some t \<Rightarrow> t \<noteq> [])) \<and>
    (\<forall>x. x \<noteq> aid \<longrightarrow> cl_tickets (io_client s') x = cl_tickets (io_client s) x)"
  using reachable_ok [OF stepped [OF assms(1,3,2)]] client_step_acts [OF assms(2,3)]
  by (simp add: caches_ok_def cache_ok_def acts_for_def)

theorem ticket_caches_invariant_witness:
  "\<exists>s s' :: (client, unit) io. client_reachable refusing \<lparr>pb_ALLOW = 1, pb_DENY = 2, pb_TRANSFORM = 3, pb_ESCALATE = 4\<rparr> None s \<and>
     s' = snd (admit refusing example_agent 0 s) \<and> cl_agent (io_client s') = None \<and>
     (\<forall>x. x \<noteq> aid_from_pubkey (replicate 32 7) \<longrightarrow> cl_tickets (io_client s') x = cl_tickets (io_client s) x)"
proof -
  let ?k = "\<lparr>pb_ALLOW = 1, pb_DENY = 2, pb_TRANSFORM = 3, pb_ESCALATE = 4\<rparr>"
  let ?s = "\<lparr>io_client = new_client None, io_world = (), io_log = []\<rparr>"
  have aid: "agent_aid (rt_ed refusing) example_agent = Inr (aid_from_pubkey (replicate 32 7))"
    by (simp add: agent_aid_def refusing_def example_ed_def example_agent_def)
  from ticket_caches_invariant [OF connected [of refusing ?k None "()"] admitted aid] connected [of refusing ?k None "()"]
  show ?thesis by blast
qed

end
