(* ===== verification/Coalescing.thy ===== *)
theory Coalescing
  imports Tickets
begin

text \<open>
  Concurrent callers of one agent in \<open>client.py\<close>. The regions under the per-agent lock are atomic:
  \<open>_ticket_for\<close>, \<open>_refresh_ticket\<close> and \<open>_invalidate_ticket\<close>; sends happen between them, in any order. A
  credentialed call is a path of these steps. However many callers there are, the admissions the
  server sees are bounded by the tickets it refused, not by the calls it refused.
\<close>

section \<open>Interleaved callers\<close>

datatype phase = Idle | Holding bytes | Refused bytes

text \<open>The errors after which a caller gives up its ticket: a rejection, or a refusal that spent the
  signature of a guarded write.\<close>

definition gives_up :: "string \<Rightarrow> sdk_exn \<Rightarrow> bool" where
  "gives_up full e \<longleftrightarrow> has_class [UnauthenticatedError] e \<or>
     has_class [UnavailableError, FailedPreconditionError] e \<and> full \<in> set REPLAY_GUARDED \<and>
     (is_session_unavailable e \<or> is_tenant_moving e)"

fun next_phase :: "bytes sres \<Rightarrow> phase" where
  "next_phase (Inr t) = Holding t"
| "next_phase (Inl e) = Idle"

type_synonym 'w callers = "(client, 'w) io \<times> (nat \<Rightarrow> phase) \<times> bytes set"

inductive call_step :: "'w runtime \<Rightarrow> agent \<Rightarrow> 'w callers \<Rightarrow> 'w callers \<Rightarrow> bool" for rt a where
  fetch: "ph i = Idle \<Longrightarrow> ticket_for rt a timeout s = (r, s') \<Longrightarrow>
    call_step rt a (s, ph, R) (s', ph(i := next_phase r), R)"
| abandon: "ph i \<noteq> Idle \<Longrightarrow> call_step rt a (s, ph, R) (s, ph(i := Idle), R)"
| send_ok: "ph i = Holding t \<Longrightarrow> rpc \<noteq> ''SeamAdmission/Admit'' \<Longrightarrow> stub rt rpc req md timeout s = (r, s') \<Longrightarrow>
    call_step rt a (s, ph, R) (s', ph(i := Idle), R)"
| send_refused: "ph i = Holding t \<Longrightarrow> rpc \<noteq> ''SeamAdmission/Admit'' \<Longrightarrow> stub rt rpc req md timeout s = (Inl e, s') \<Longrightarrow>
    gives_up full e \<Longrightarrow> call_step rt a (s, ph, R) (s', ph(i := Refused t), insert t R)"
| refresh: "ph i = Refused t \<Longrightarrow> refresh_ticket rt a t timeout s = (r, s') \<Longrightarrow>
    call_step rt a (s, ph, R) (s', ph(i := next_phase r), R)"
| drop: "ph i = Refused t \<Longrightarrow> invalidate_ticket rt a t s = (r, s') \<Longrightarrow>
    call_step rt a (s, ph, R) (s', ph(i := Idle), R)"

section \<open>A credentialed call is a path of steps\<close>

lemma step_path: "call_step rt a x y \<Longrightarrow> (call_step rt a)\<^sup>*\<^sup>* y z \<Longrightarrow> (call_step rt a)\<^sup>*\<^sup>* x z"
  by (rule converse_rtranclp_into_rtranclp)

lemma guarded_send_path:
  assumes "guarded_send rt a t full rid body (\<lambda>md. stub rt rpc req md timeout) h s = (r, s')" "rpc \<noteq> ''SeamAdmission/Admit''"
    and rejected: "\<And>e u R. has_class [UnauthenticatedError] e \<Longrightarrow> h e u = (r, s') \<Longrightarrow>
      \<exists>R'. (call_step rt a)\<^sup>*\<^sup>* (u, ph(i := Refused t), R) (s', ph(i := Idle), R')"
    and other: "\<And>e u. \<not> has_class [UnauthenticatedError] e \<Longrightarrow> h e u = (r, s') \<Longrightarrow> u = s'"
  shows "\<exists>R'. (call_step rt a)\<^sup>*\<^sup>* (s, ph(i := Holding t), R) (s', ph(i := Idle), R')"
proof (cases "credential_metadata rt (ag_seed a) t full rid body")
  case (Inl e)
  have "\<not> has_class [UnavailableError, FailedPreconditionError] e" "\<not> has_class [UnauthenticatedError] e"
    using metadata_error [OF Inl] by auto
  then have "s = s'" using other assms(1) Inl by (simp add: guarded_send_def signed_send_def action_defs)
  then show ?thesis using abandon [of "ph(i := Holding t)" i rt a s R] by auto
next
  case (Inr md)
  obtain q u where q: "stub rt rpc req (Some md) timeout s = (q, u)" by (cases "stub rt rpc req (Some md) timeout s")
  note ok = send_ok [of "ph(i := Holding t)" i t rpc rt req "Some md" timeout s q u a R]
  note refused = send_refused [of "ph(i := Holding t)" i t rpc rt req "Some md" timeout s _ u _ a R]
  show ?thesis
  proof (cases q)
    case (Inr x)
    then show ?thesis using ok q assms(1,2) \<open>credential_metadata _ _ _ _ _ _ = _\<close>
      by (auto simp: guarded_send_def signed_send_def action_defs)
  next
    case e: (Inl e)
    then have run: "(if has_class [UnavailableError, FailedPreconditionError] e then burned rt a t full e else h e) u = (r, s')"
      using assms(1) q Inr by (simp add: guarded_send_def signed_send_def action_defs)
    consider (rej) "has_class [UnauthenticatedError] e" | (burn) "\<not> has_class [UnauthenticatedError] e" "gives_up full e"
      | (oth) "\<not> has_class [UnauthenticatedError] e" "\<not> gives_up full e" by blast
    then show ?thesis
    proof cases
      case rej
      then have "\<not> has_class [UnavailableError, FailedPreconditionError] e" by (auto simp: has_class_def split: sdk_exn.splits)
      then obtain R' where "(call_step rt a)\<^sup>*\<^sup>* (u, ph(i := Refused t), insert t R) (s', ph(i := Idle), R')"
        using rejected [OF rej] run by force
      then show ?thesis using step_path [OF refused [of e full]] rej assms(2) q e by (auto simp: gives_up_def)
    next
      case burn
      then obtain x where "invalidate_ticket rt a t u = (x, s')"
        using run by (auto simp: gives_up_def burned_def forget_burned_ticket_def andthen_def raise_def split: prod.splits sum.splits)
      then have "(call_step rt a)\<^sup>*\<^sup>* (u, ph(i := Refused t), insert t R) (s', ph(i := Idle), insert t R)"
        using drop [of "ph(i := Refused t)" i t rt a u x s' "insert t R"] by auto
      then show ?thesis using step_path [OF refused [of e full]] burn assms(2) q e by auto
    next
      case oth
      then have "u = s'" using run other
        by (auto simp: gives_up_def burned_def forget_burned_ticket_def action_defs split: if_splits)
      then show ?thesis using ok assms(2) q by auto
    qed
  qed
qed

lemma retry_path:
  assumes "andthen (refresh_ticket rt a t timeout) (\<lambda>t'.
      guarded_send rt a t' full rid body (\<lambda>md. stub rt rpc req md timeout) raise) s = (r, s')" "rpc \<noteq> ''SeamAdmission/Admit''"
  shows "\<exists>R'. (call_step rt a)\<^sup>*\<^sup>* (s, ph(i := Refused t), R) (s', ph(i := Idle), R')"
proof -
  obtain q u where q: "refresh_ticket rt a t timeout s = (q, u)" by (cases "refresh_ticket rt a t timeout s")
  note step = refresh [of "ph(i := Refused t)" i t rt a timeout s q u R]
  show ?thesis
  proof (cases q)
    case (Inl e)
    then show ?thesis using step q assms(1) by (auto simp: andthen_def)
  next
    case (Inr t')
    then have "guarded_send rt a t' full rid body (\<lambda>md. stub rt rpc req md timeout) raise u = (r, s')"
      using assms(1) q by (simp add: andthen_def)
    from guarded_send_path [OF this assms(2), of ph i R] have "\<exists>R'. (call_step rt a)\<^sup>*\<^sup>* (u, ph(i := Holding t'), R) (s', ph(i := Idle), R')"
      using abandon [of "ph(i := Refused t')" i rt a] by (fastforce simp: raise_def)
    then show ?thesis using step_path [OF step] q Inr by auto
  qed
qed

lemma credentialed_call_path:
  assumes "credentialed_call rt credential full rid body (\<lambda>md. stub rt rpc req md timeout) timeout retry s = (r, s')"
    and "signer (io_client s) credential = Some a" and "rpc \<noteq> ''SeamAdmission/Admit''" and "ph i = Idle"
  shows "\<exists>R'. (call_step rt a)\<^sup>*\<^sup>* (s, ph, R) (s', ph, R')"
proof -
  obtain q u where q: "ticket_for rt a timeout s = (q, u)" by (cases "ticket_for rt a timeout s")
  note step = fetch [of ph i rt a timeout s q u R, OF assms(4) q]
  have id: "ph(i := Idle) = ph" using assms(4) by auto
  show ?thesis
  proof (cases q)
    case (Inl e)
    then show ?thesis using step id assms(1,2) q by (auto simp: credentialed_call_def action_defs)
  next
    case (Inr t)
    let ?h = "\<lambda>e. if has_class [UnauthenticatedError] e then
        (if \<not> retry then andthen (invalidate_ticket rt a t) (\<lambda>_. raise e)
         else andthen (refresh_ticket rt a t timeout) (\<lambda>t'. guarded_send rt a t' full rid body (\<lambda>md. stub rt rpc req md timeout) raise))
        else raise e"
    have run: "guarded_send rt a t full rid body (\<lambda>md. stub rt rpc req md timeout) ?h u = (r, s')"
      using assms(1,2) q Inr by (simp add: credentialed_call_def andthen_def get_client_def)
    have "\<exists>R'. (call_step rt a)\<^sup>*\<^sup>* (v, ph(i := Refused t), R) (s', ph(i := Idle), R')"
      if h: "has_class [UnauthenticatedError] e" "?h e v = (r, s')" for e v R
    proof (cases retry)
      case True
      then show ?thesis using h retry_path assms(3) by simp
    next
      case False
      then obtain x where "invalidate_ticket rt a t v = (x, s')"
        using h by (auto simp: action_defs split: prod.splits sum.splits)
      then show ?thesis using drop [of "ph(i := Refused t)" i t rt a v x s' R] by auto
    qed
    from guarded_send_path [OF run assms(3) this] have "\<exists>R'. (call_step rt a)\<^sup>*\<^sup>* (u, ph(i := Holding t), R) (s', ph(i := Idle), R')"
      by (auto simp: raise_def)
    then show ?thesis using step_path [OF step] Inr id by auto
  qed
qed

section \<open>Admissions are bounded by refused tickets\<close>

text \<open>What is relied on of the server: \<open>issued\<close> reads off the world the tickets minted so far; \<open>Admit\<close>
  mints a new one, nothing else does, and tickets outlive the time of the run.\<close>

definition honest_issuer :: "'w runtime \<Rightarrow> ('w \<Rightarrow> bytes set) \<Rightarrow> int \<Rightarrow> int \<Rightarrow> bool" where
  "honest_issuer rt issued start dur \<longleftrightarrow>
     (\<forall>w t w'. rt_now_ms rt w = (t, w') \<longrightarrow> start \<le> t \<and> t < start + dur \<and> issued w' = issued w) \<and>
     (\<forall>rpc req md timeout w e w'. rt_call rt rpc req md timeout w = (Inl e, w') \<longrightarrow> issued w' = issued w) \<and>
     (\<forall>rpc req md timeout w m w'. rt_call rt rpc req md timeout w = (Inr m, w') \<longrightarrow>
        (if rpc = ''SeamAdmission/Admit''
         then get_bytes m ''ticket'' \<noteq> [] \<and> get_bytes m ''ticket'' \<notin> issued w \<and>
              issued w' = insert (get_bytes m ''ticket'') (issued w) \<and> start + 2 * dur \<le> get_int m ''expires_at_ms''
         else issued w' = issued w))"

definition held :: "(client, 'w) io \<Rightarrow> ustr \<Rightarrow> ticket_cache" where
  "held s aid = (case cl_tickets (io_client s) aid of Some c \<Rightarrow> c | None \<Rightarrow> new_cache)"

lemma honest_now:
  "honest_issuer rt issued start dur \<Longrightarrow> now_ms rt s = (r, s') \<Longrightarrow>
   \<exists>t. r = Inr t \<and> start \<le> t \<and> t < start + dur \<and> issued (io_world s') = issued (io_world s) \<and> io_client s' = io_client s"
  unfolding honest_issuer_def now_ms_def Let_def by (cases "rt_now_ms rt (io_world s)") auto

lemma honest_raise: "honest_issuer rt issued start dur \<Longrightarrow> rt_call rt rpc req md timeout w = (Inl e, w') \<Longrightarrow> issued w' = issued w"
  unfolding honest_issuer_def by blast

lemma honest_reply:
  "honest_issuer rt issued start dur \<Longrightarrow> rt_call rt rpc req md timeout w = (Inr m, w') \<Longrightarrow>
   if rpc = ''SeamAdmission/Admit''
   then get_bytes m ''ticket'' \<noteq> [] \<and> get_bytes m ''ticket'' \<notin> issued w \<and>
        issued w' = insert (get_bytes m ''ticket'') (issued w) \<and> start + 2 * dur \<le> get_int m ''expires_at_ms''
   else issued w' = issued w"
  unfolding honest_issuer_def by blast

lemma stub_state:
  assumes "stub rt rpc req md timeout s = (r, s')" "rt_call rt rpc req md timeout (io_world s) = (x, w)"
  shows "r = mapped_call x" "io_world s' = w" "io_client s' = io_client s"
proof -
  have "(r, s') = (mapped_call x, s\<lparr>io_world := w,
      io_log := io_log s @ [\<lparr>w_rpc = rpc, w_request = req, w_metadata = md, w_timeout = timeout\<rparr>]\<rparr>)"
    using assms(1) unfolding stub_def Let_def assms(2) prod.case by (rule sym)
  then show "r = mapped_call x" "io_world s' = w" "io_client s' = io_client s" by simp_all
qed

lemma honest_stub:
  assumes "honest_issuer rt issued start dur" "stub rt rpc req md timeout s = (r, s')" "rpc \<noteq> ''SeamAdmission/Admit''"
  shows "issued (io_world s') = issued (io_world s) \<and> io_client s' = io_client s"
proof -
  obtain x w where x: "rt_call rt rpc req md timeout (io_world s) = (x, w)" by (cases "rt_call rt rpc req md timeout (io_world s)")
  have "issued w = issued (io_world s)"
  proof (cases x)
    case (Inl e)
    then show ?thesis using honest_raise [OF assms(1) x [unfolded Inl]] by simp
  next
    case (Inr m)
    then show ?thesis using honest_reply [OF assms(1) x [unfolded Inr]] assms(3) by simp
  qed
  then show ?thesis using stub_state [OF assms(2) x] by simp
qed

lemma mapped_raise: "\<exists>x. mapped_call (Inl e) = Inl x"
  by (simp add: mapped_call_def split: call_exn.split sum.split)

lemma honest_admit_stub:
  assumes "honest_issuer rt issued start dur" "stub rt ''SeamAdmission/Admit'' req md timeout s = (r, s')"
  shows "io_client s' = io_client s \<and> (case r of Inl e \<Rightarrow> issued (io_world s') = issued (io_world s)
    | Inr m \<Rightarrow> get_bytes m ''ticket'' \<noteq> [] \<and> get_bytes m ''ticket'' \<notin> issued (io_world s) \<and>
        issued (io_world s') = insert (get_bytes m ''ticket'') (issued (io_world s)) \<and> start + 2 * dur \<le> get_int m ''expires_at_ms'')"
proof -
  obtain x w where x: "rt_call rt ''SeamAdmission/Admit'' req md timeout (io_world s) = (x, w)"
    by (cases "rt_call rt ''SeamAdmission/Admit'' req md timeout (io_world s)")
  show ?thesis
  proof (cases x)
    case (Inl e)
    then have "issued w = issued (io_world s)" using honest_raise [OF assms(1) x [unfolded Inl]] by simp
    moreover have "r = mapped_call (Inl e)" "io_world s' = w" "io_client s' = io_client s"
      using stub_state [OF assms(2) x] Inl by simp_all
    ultimately show ?thesis using mapped_raise [of e, where ?'a = pb_message] by auto
  next
    case (Inr m)
    moreover have "get_bytes m ''ticket'' \<noteq> [] \<and> get_bytes m ''ticket'' \<notin> issued (io_world s) \<and>
        issued w = insert (get_bytes m ''ticket'') (issued (io_world s)) \<and> start + 2 * dur \<le> get_int m ''expires_at_ms''"
      using honest_reply [OF assms(1) x [unfolded Inr]] by simp
    moreover have "r = Inr m" "io_world s' = w" "io_client s' = io_client s"
      using stub_state [OF assms(2) x] Inr by (simp_all add: mapped_call_def)
    ultimately show ?thesis by simp
  qed
qed

lemma honest_presentation:
  assumes "honest_issuer rt issued start dur" "agent_presentation rt a timeout s = (r, s')"
  shows "issued (io_world s') = issued (io_world s) \<and> io_client s' = io_client s"
proof -
  obtain x u where x: "stub rt ''SeamAdmission/IssueChallenge'' (Pb ''IssueChallengeRequest'' []) None timeout s = (x, u)"
    by (cases "stub rt ''SeamAdmission/IssueChallenge'' (Pb ''IssueChallengeRequest'' []) None timeout s")
  obtain y v where y: "now_ms rt u = (y, v)" by (cases "now_ms rt u")
  have "s' = u \<or> s' = v" using assms(2) x y
    by (auto simp: agent_presentation_def action_defs split: sum.splits prod.splits)
  then show ?thesis using honest_stub [OF assms(1) x] honest_now [OF assms(1) y] by auto
qed

text \<open>A minted ticket is cached until after the run.\<close>

lemma store_outlives:
  assumes "t \<noteq> []" "start \<le> now" "now < start + dur" "start + 2 * dur \<le> expires"
  shows "tc_ticket (cache_store c t expires now) = Some t \<and> start + dur \<le> tc_refresh_at_ms (cache_store c t expires now)"
  using assms by (simp add: cache_store_def Let_def)

lemma honest_admit_locked:
  assumes h: "honest_issuer rt issued start dur" and run: "admit_locked rt a aid timeout s = (r, s')"
  shows "case r of Inl e \<Rightarrow> issued (io_world s') = issued (io_world s) \<and> io_client s' = io_client s
    | Inr t \<Rightarrow> issued (io_world s') = insert t (issued (io_world s)) \<and>
        tc_ticket (held s' aid) = Some t \<and> start + dur \<le> tc_refresh_at_ms (held s' aid)"
proof -
  obtain x u where x: "agent_presentation rt a timeout s = (x, u)" by (cases "agent_presentation rt a timeout s")
  note hp = honest_presentation [OF h x]
  show ?thesis
  proof (cases x)
    case (Inl e)
    then show ?thesis using run x hp by (auto simp: admit_locked_def andthen_def)
  next
    case p: (Inr p)
    obtain y v where y: "stub rt ''SeamAdmission/Admit'' p None timeout u = (y, v)" by (cases "stub rt ''SeamAdmission/Admit'' p None timeout u")
    note ha = honest_admit_stub [OF h y]
    show ?thesis
    proof (cases y)
      case (Inl e)
      then show ?thesis using run x hp p y ha by (auto simp: admit_locked_def andthen_def)
    next
      case m: (Inr m)
      obtain z w where z: "now_ms rt v = (z, w)" by (cases "now_ms rt v")
      from honest_now [OF h z] obtain now where now: "z = Inr now" "start \<le> now" "now < start + dur"
        "issued (io_world w) = issued (io_world v)" by blast
      have "r = Inr (get_bytes m ''ticket'')" "io_world s' = io_world w"
        "held s' aid = cache_store (held w aid) (get_bytes m ''ticket'') (get_int m ''expires_at_ms'') now"
        using run x p y m z now(1) by (auto simp: admit_locked_def action_defs update_cache_def held_def)
      then show ?thesis using ha hp now m store_outlives [of _ start now dur] by auto
    qed
  qed
qed

text \<open>The tickets minted during the run have been refused, but for the one in the cache.\<close>

definition coalesced :: "('w \<Rightarrow> bytes set) \<Rightarrow> bytes set \<Rightarrow> int \<Rightarrow> ustr \<Rightarrow> bytes set \<Rightarrow> (client, 'w) io \<Rightarrow> bool" where
  "coalesced issued old until aid R s \<longleftrightarrow> old \<subseteq> issued (io_world s) \<and>
     (\<forall>t \<in> issued (io_world s) - old. t \<in> R \<or> (tc_ticket (held s aid) = Some t \<and> until \<le> tc_refresh_at_ms (held s aid)))"

lemma coalesced_cong:
  "issued (io_world s') = issued (io_world s) \<Longrightarrow> held s' aid = held s aid \<Longrightarrow>
   coalesced issued old until aid R s' = coalesced issued old until aid R s"
  by (simp add: coalesced_def)

lemma coalesced_mono: "coalesced issued old until aid R s \<Longrightarrow> R \<subseteq> R' \<Longrightarrow> coalesced issued old until aid R' s"
  by (auto simp: coalesced_def)

lemma cache_and_lock_run: "\<exists>s'. cache_and_lock aid s = (Inr (held s aid), s') \<and> held s' aid = held s aid \<and> io_world s' = io_world s"
  by (auto simp: cache_and_lock_def action_defs held_def split: option.split)

text \<open>An admission that starts when every ticket minted so far has been refused.\<close>

lemma coalesced_admit:
  assumes "honest_issuer rt issued start dur" "admit_locked rt a aid timeout s = (r, s')"
    and "old \<subseteq> issued (io_world s)" "issued (io_world s) - old \<subseteq> R"
  shows "coalesced issued old (start + dur) aid R s'"
  using honest_admit_locked [OF assms(1,2)] assms(3,4) by (cases r) (auto simp: coalesced_def)

lemma cached_before:
  "coalesced issued old until aid R s \<Longrightarrow> cache_get (held s aid) now = None \<Longrightarrow> now < until \<Longrightarrow> issued (io_world s) - old \<subseteq> R"
  by (force simp: coalesced_def cache_get_def split: if_splits)

lemma cached_refused:
  "coalesced issued old until aid R s \<Longrightarrow> cache_get (held s aid) now = Some t \<Longrightarrow> t \<in> R \<Longrightarrow> issued (io_world s) - old \<subseteq> R"
  by (auto simp: coalesced_def cache_get_def split: if_splits)

text \<open>What a locked region reads first: the cache and the clock.\<close>

lemma locked_read:
  assumes "honest_issuer rt issued start dur" "coalesced issued old (start + dur) aid R s"
  shows "\<exists>now u v. cache_and_lock aid s = (Inr (held s aid), u) \<and> now_ms rt u = (Inr now, v) \<and> now < start + dur \<and>
    coalesced issued old (start + dur) aid R v \<and> held v aid = held s aid"
proof -
  obtain u where u: "cache_and_lock aid s = (Inr (held s aid), u)" "held u aid = held s aid" "io_world u = io_world s"
    using cache_and_lock_run by blast
  obtain x v where x: "now_ms rt u = (x, v)" by (cases "now_ms rt u")
  from honest_now [OF assms(1) x] obtain now where now: "x = Inr now" "now < start + dur"
    "issued (io_world v) = issued (io_world u)" "io_client v = io_client u" by blast
  have v: "issued (io_world v) = issued (io_world s)" "held v aid = held s aid" using now u by (simp_all add: held_def)
  have "coalesced issued old (start + dur) aid R v" using assms(2) coalesced_cong [OF v] by blast
  then show ?thesis using u(1) x now(1,2) v(2) by blast
qed

lemma coalesced_ticket_for:
  assumes h: "honest_issuer rt issued start dur" and aid: "agent_aid (rt_ed rt) a = Inr aid"
    and run: "ticket_for rt a timeout s = (r, s')" and inv: "coalesced issued old (start + dur) aid R s"
  shows "coalesced issued old (start + dur) aid R s'"
proof -
  obtain now u v where r: "cache_and_lock aid s = (Inr (held s aid), u)" "now_ms rt u = (Inr now, v)" "now < start + dur"
    and inv': "coalesced issued old (start + dur) aid R v" and v: "held v aid = held s aid"
    using locked_read [OF h inv] by blast
  show ?thesis
  proof (cases "cache_get (held s aid) now")
    case (Some t)
    then have "s' = v" using run r aid by (simp add: ticket_for_def andthen_lift_py) (simp add: action_defs)
    with inv' show ?thesis by simp
  next
    case None
    then have "admit_locked rt a aid timeout v = (r, s')" using run r aid
      by (simp add: ticket_for_def andthen_lift_py) (simp add: andthen_def)
    moreover have "issued (io_world v) - old \<subseteq> R" "old \<subseteq> issued (io_world v)"
      using cached_before [OF inv'] None v r(3) inv' by (simp_all add: coalesced_def)
    ultimately show ?thesis by (blast intro: coalesced_admit [OF h])
  qed
qed

lemma coalesced_refresh:
  assumes h: "honest_issuer rt issued start dur" and aid: "agent_aid (rt_ed rt) a = Inr aid"
    and run: "refresh_ticket rt a t timeout s = (r, s')" and inv: "coalesced issued old (start + dur) aid R s" and t: "t \<in> R"
  shows "coalesced issued old (start + dur) aid R s'"
proof -
  obtain now u v where r: "cache_and_lock aid s = (Inr (held s aid), u)" "now_ms rt u = (Inr now, v)" "now < start + dur"
    and inv': "coalesced issued old (start + dur) aid R v" and v: "held v aid = held s aid"
    using locked_read [OF h inv] by blast
  show ?thesis
  proof (cases "cache_get (held s aid) now \<noteq> None \<and> cache_get (held s aid) now \<noteq> Some t")
    case True
    then have "s' = v" using run r aid by (simp add: refresh_ticket_def andthen_lift_py) (auto simp: action_defs)
    with inv' show ?thesis by simp
  next
    case False
    obtain z where z: "update_cache aid cache_invalidate v = (Inr (), z)" "io_world z = io_world v"
      by (simp add: update_cache_def action_defs)
    have "issued (io_world z) - old \<subseteq> R" unfolding z(2)
      using False cached_before [OF inv', of now] cached_refused [OF inv', of now t] v r(3) t by auto
    moreover have "admit_locked rt a aid timeout z = (r, s')" using run r aid False z
      by (simp add: refresh_ticket_def andthen_lift_py) (auto simp: andthen_def Let_def)
    moreover have "old \<subseteq> issued (io_world z)" using inv' z(2) by (simp add: coalesced_def)
    ultimately show ?thesis by (blast intro: coalesced_admit [OF h])
  qed
qed

lemma coalesced_invalidate:
  assumes h: "honest_issuer rt issued start dur" and aid: "agent_aid (rt_ed rt) a = Inr aid"
    and run: "invalidate_ticket rt a t s = (r, s')" and inv: "coalesced issued old (start + dur) aid R s" and t: "t \<in> R"
  shows "coalesced issued old (start + dur) aid R s'"
proof -
  obtain now u v where r: "cache_and_lock aid s = (Inr (held s aid), u)" "now_ms rt u = (Inr now, v)" "now < start + dur"
    and inv': "coalesced issued old (start + dur) aid R v" and v: "held v aid = held s aid"
    using locked_read [OF h inv] by blast
  show ?thesis
  proof (cases "cache_get (held s aid) now = Some t")
    case False
    then have "s' = v" using run r aid by (simp add: invalidate_ticket_def andthen_lift_py) (simp add: action_defs)
    with inv' show ?thesis by simp
  next
    case True
    then have "io_world s' = io_world v" using run r aid
      by (simp add: invalidate_ticket_def andthen_lift_py) (auto simp: action_defs update_cache_def)
    with True cached_refused [OF inv', of now t] inv' v t show ?thesis by (auto simp: coalesced_def)
  qed
qed

text \<open>Refused tickets are on record, and the record is finite.\<close>

definition recorded :: "'w callers \<Rightarrow> bool" where
  "recorded x = (case x of (s, ph, R) \<Rightarrow> finite R \<and> (\<forall>i t. ph i = Refused t \<longrightarrow> t \<in> R))"

lemma next_phase_not_refused [simp]: "next_phase r \<noteq> Refused t"
  by (cases r) simp_all

lemma recorded_step: "call_step rt a x y \<Longrightarrow> recorded x \<Longrightarrow> recorded y"
  by (induction rule: call_step.induct) (auto simp: recorded_def split: if_splits)

definition frugal :: "('w \<Rightarrow> bytes set) \<Rightarrow> bytes set \<Rightarrow> int \<Rightarrow> ustr \<Rightarrow> 'w callers \<Rightarrow> bool" where
  "frugal issued old until aid x = (case x of (s, ph, R) \<Rightarrow> coalesced issued old until aid R s)"

lemma coalesced_quiet_stub:
  assumes "honest_issuer rt issued start dur" "stub rt rpc req md timeout s = (r, s')" "rpc \<noteq> ''SeamAdmission/Admit''"
  shows "coalesced issued old until aid R s' = coalesced issued old until aid R s"
  using honest_stub [OF assms] by (intro coalesced_cong) (simp_all add: held_def)

lemma frugal_step:
  assumes h: "honest_issuer rt issued start dur" and aid: "agent_aid (rt_ed rt) a = Inr aid"
  shows "call_step rt a x y \<Longrightarrow> recorded x \<Longrightarrow> frugal issued old (start + dur) aid x \<Longrightarrow> frugal issued old (start + dur) aid y"
proof (induction rule: call_step.induct)
  case (fetch ph i timeout s r s' R)
  then show ?case using coalesced_ticket_for [OF h aid] by (auto simp: frugal_def)
next
  case (abandon ph i s R)
  then show ?case by (simp add: frugal_def)
next
  case (send_ok ph i t rpc req md timeout s r s' R)
  then show ?case using coalesced_quiet_stub [OF h] by (auto simp: frugal_def)
next
  case (send_refused ph i t rpc req md timeout s e s' full R)
  then have "coalesced issued old (start + dur) aid R s'" using coalesced_quiet_stub [OF h] by (auto simp: frugal_def)
  then show ?case using coalesced_mono [of issued old _ aid R s' "insert t R"] by (auto simp: frugal_def)
next
  case (refresh ph i t timeout s r s' R)
  then show ?case using coalesced_refresh [OF h aid] by (auto simp: frugal_def recorded_def)
next
  case (drop ph i t s r s' R)
  then show ?case using coalesced_invalidate [OF h aid] by (auto simp: frugal_def recorded_def)
qed

lemma path_invariant:
  assumes "honest_issuer rt issued start dur" "agent_aid (rt_ed rt) a = Inr aid"
  shows "(call_step rt a)\<^sup>*\<^sup>* x y \<Longrightarrow> recorded x \<Longrightarrow> frugal issued old (start + dur) aid x \<Longrightarrow>
    recorded y \<and> frugal issued old (start + dur) aid y"
  by (induction rule: rtranclp_induct) (use recorded_step frugal_step [OF assms] in blast)+

text \<open>C4: However many callers of one agent run concurrently, in whatever order their locked regions and
  sends interleave, the server mints at most one ticket more than the distinct tickets it has refused:
  a rejection that many callers meet at once costs one re-admission, not one for each of them.\<close>

theorem refresh_coalesces:
  assumes "honest_issuer rt issued start dur" and "agent_aid (rt_ed rt) a = Inr aid"
    and "(call_step rt a)\<^sup>*\<^sup>* (s0, (\<lambda>i. Idle), {}) (s, ph, R)"
  shows "finite R \<and> finite (issued (io_world s) - issued (io_world s0)) \<and>
    card (issued (io_world s) - issued (io_world s0)) \<le> Suc (card R)"
proof -
  let ?new = "issued (io_world s) - issued (io_world s0)"
  have "recorded (s0, \<lambda>i. Idle, {})" "frugal issued (issued (io_world s0)) (start + dur) aid (s0, \<lambda>i. Idle, {})"
    by (simp_all add: recorded_def frugal_def coalesced_def)
  from path_invariant [OF assms this] have R: "finite R"
    and sub: "?new \<subseteq> R \<union> set_option (tc_ticket (held s aid))"
    by (auto simp: recorded_def frugal_def coalesced_def)
  have fin: "finite (set_option c)" "card (set_option c) \<le> 1" for c :: "bytes option" by (cases c; simp)+
  with R have U: "finite (R \<union> set_option (tc_ticket (held s aid)))" by simp
  have "card ?new \<le> card R + card (set_option (tc_ticket (held s aid)))"
    using card_mono [OF U sub] card_Un_le le_trans by blast
  with R finite_subset [OF sub U] fin(2) [of "tc_ticket (held s aid)"] show ?thesis by simp
qed

section \<open>A run in which the bound is reached\<close>

text \<open>A server that mints numbered tickets and rejects every call.\<close>

definition minting :: "nat runtime" where
  "minting =
     \<lparr>rt_now_ms = (\<lambda>w. (0, w)), rt_now_s = (\<lambda>w. (0, w)),
      rt_call = (\<lambda>rpc req md timeout w.
        if rpc = ''SeamAdmission/Admit''
        then (Inr (Pb ''AdmissionTicket'' [(''ticket'', PBytes (replicate (Suc w) 1)), (''expires_at_ms'', PInt 9)]), Suc w)
        else if rpc = ''SeamAdmission/IssueChallenge'' then (Inr (Pb ''Challenge'' []), w)
        else (Inl rejection, w)),
      rt_serialize = (\<lambda>m. Inr []), rt_ed = example_ed, rt_depth = 9\<rparr>"

definition minted :: "nat \<Rightarrow> bytes set" where
  "minted w = (\<lambda>k. replicate (Suc k) 1) ` {..<w}"

lemma minting_honest: "honest_issuer minting minted 0 1"
  by (auto simp: honest_issuer_def minting_def minted_def get_bytes_def get_int_def lessThan_Suc split: if_splits)

lemma minting_presentation: "\<exists>p. build_presentation example_ed (replicate 32 7) [] [] 0 = Inr p"
proof -
  obtain mid where mid: "pop_message_id [] = Inr mid"
    by (auto simp: pop_message_id_def derived_uuid_def ascii_encode_def POP_MESSAGE_ID_TAG_def ustr_def Let_def)
  have "b64url_decode [] = Inr []" using b64url.roundtrip [of "[]"] by (simp add: b64url_nopad_def rstrip_def)
  then obtain inp where "proof_input (aid_from_pubkey (replicate 32 7)) [] mid 0 [] = Inr inp"
    using proof_input_exists [of "[]" "[]" "[]" "replicate 32 7" mid 0] by auto
  with mid show ?thesis by (simp add: build_presentation_def example_ed_def Let_def)
qed

abbreviation minting_aid :: ustr where
  "minting_aid \<equiv> aid_from_pubkey (replicate 32 7)"

lemma minting_agent: "agent_aid (rt_ed minting) example_agent = Inr minting_aid"
  by (simp add: agent_aid_def minting_def example_ed_def example_agent_def)

lemma minting_rt:
  "rt_now_ms minting w = (0, w)" "rt_call minting ''SeamAdmission/IssueChallenge'' req md timeout w = (Inr (Pb ''Challenge'' []), w)"
  "rt_call minting ''SeamAdmission/Admit'' req md timeout w =
     (Inr (Pb ''AdmissionTicket'' [(''ticket'', PBytes (replicate (Suc w) 1)), (''expires_at_ms'', PInt 9)]), Suc w)"
  "rt_call minting ''r'' req md timeout w = (Inl rejection, w)" "rt_ed minting = example_ed"
  by (simp_all add: minting_def)

lemma minting_admit:
  "\<exists>s'. admit_locked minting example_agent minting_aid 0 s = (Inr (replicate (Suc (io_world s)) 1), s') \<and>
     io_world s' = Suc (io_world s) \<and> held s' minting_aid = \<lparr>tc_ticket = Some (replicate (Suc (io_world s)) 1), tc_refresh_at_ms = 7\<rparr>"
proof -
  obtain p where "build_presentation example_ed (ag_seed example_agent) [] [] 0 = Inr p"
    using minting_presentation by (auto simp: example_agent_def)
  then show ?thesis
    by (simp add: admit_locked_def agent_presentation_def action_defs stub_def now_ms_def minting_rt mapped_call_def get_str_def
        get_bytes_def get_int_def update_cache_def held_def cache_store_def Let_def)
qed

lemma minting_ticket_for:
  assumes "cache_get (held s minting_aid) 0 = None"
  shows "\<exists>s'. ticket_for minting example_agent 0 s = (Inr (replicate (Suc (io_world s)) 1), s') \<and>
     io_world s' = Suc (io_world s) \<and> held s' minting_aid = \<lparr>tc_ticket = Some (replicate (Suc (io_world s)) 1), tc_refresh_at_ms = 7\<rparr>"
proof -
  obtain u where u: "cache_and_lock minting_aid s = (Inr (held s minting_aid), u)" "io_world u = io_world s"
    using cache_and_lock_run by blast
  then show ?thesis using minting_admit [of u] assms unfolding ticket_for_def minting_agent andthen_lift_py
    by (simp add: andthen_def now_ms_def minting_rt)
qed

lemma minting_refresh:
  assumes "cache_get (held s minting_aid) 0 = Some t"
  shows "\<exists>s'. refresh_ticket minting example_agent t 0 s = (Inr (replicate (Suc (io_world s)) 1), s') \<and>
     io_world s' = Suc (io_world s) \<and> held s' minting_aid = \<lparr>tc_ticket = Some (replicate (Suc (io_world s)) 1), tc_refresh_at_ms = 7\<rparr>"
proof -
  obtain u where u: "cache_and_lock minting_aid s = (Inr (held s minting_aid), u)" "io_world u = io_world s"
    using cache_and_lock_run by blast
  obtain v where v: "update_cache minting_aid cache_invalidate u = (Inr (), v)" "io_world v = io_world s"
    using u by (simp add: update_cache_def action_defs)
  with u show ?thesis using minting_admit [of v] assms unfolding refresh_ticket_def minting_agent andthen_lift_py
    by (simp add: andthen_def now_ms_def minting_rt Let_def)
qed

lemma minting_adopt:
  assumes "cache_get (held s minting_aid) 0 = Some t"
  shows "\<exists>s'. ticket_for minting example_agent 0 s = (Inr t, s') \<and> io_world s' = io_world s \<and> held s' minting_aid = held s minting_aid"
    and "f \<noteq> t \<Longrightarrow> \<exists>s'. refresh_ticket minting example_agent f 0 s = (Inr t, s') \<and> io_world s' = io_world s"
proof -
  obtain u where u: "cache_and_lock minting_aid s = (Inr (held s minting_aid), u)" "io_world u = io_world s"
    "held u minting_aid = held s minting_aid" using cache_and_lock_run by blast
  then show "\<exists>s'. ticket_for minting example_agent 0 s = (Inr t, s') \<and> io_world s' = io_world s \<and> held s' minting_aid = held s minting_aid"
    using assms unfolding ticket_for_def minting_agent andthen_lift_py
    by (simp add: andthen_def now_ms_def minting_rt ret_def held_def)
  show "\<exists>s'. refresh_ticket minting example_agent f 0 s = (Inr t, s') \<and> io_world s' = io_world s" if "f \<noteq> t"
    using that u assms unfolding refresh_ticket_def minting_agent andthen_lift_py
    by (auto simp: andthen_def now_ms_def minting_rt ret_def Let_def)
qed

lemma minting_rejects:
  "\<exists>e s'. stub minting ''r'' req md 0 s = (Inl e, s') \<and> gives_up full e \<and> io_world s' = io_world s \<and> held s' aid = held s aid"
proof -
  obtain e where "mapped_call (Inl rejection :: call_exn + pb_message) = Inl (RpcErr e)" "e_class e = UnauthenticatedError"
    using rejection_class by blast
  then show ?thesis by (simp add: stub_def minting_rt gives_up_def has_class_def held_def)
qed

text \<open>Two callers fetch the first ticket, both are rejected, both refresh: one new ticket.\<close>

lemma two_callers:
  fixes s0 :: "(client, nat) io"
  assumes "s0 = \<lparr>io_client = new_client None, io_world = 0, io_log = []\<rparr>"
  shows "\<exists>s ph. (call_step minting example_agent)\<^sup>*\<^sup>* (s0, \<lambda>i. Idle, {}) (s, ph, {[1]}) \<and> io_world s = 2 \<and>
    ph 0 = Holding [1, 1] \<and> ph 1 = Holding [1, 1]"
proof -
  let ?step = "call_step minting example_agent" and ?p = "\<lambda>i :: nat. Idle"
  have "cache_get (held s0 minting_aid) 0 = None"
    using assms by (simp add: held_def new_client_def cache_get_def new_cache_def)
  with minting_ticket_for [of s0] assms obtain s1 where s1: "ticket_for minting example_agent 0 s0 = (Inr [1], s1)"
    "io_world s1 = 1" "held s1 minting_aid = \<lparr>tc_ticket = Some [1], tc_refresh_at_ms = 7\<rparr>" by auto
  with minting_adopt(1) [of s1 "[1]"] obtain s2 where s2: "ticket_for minting example_agent 0 s1 = (Inr [1], s2)"
    "io_world s2 = 1" "held s2 minting_aid = \<lparr>tc_ticket = Some [1], tc_refresh_at_ms = 7\<rparr>" by (auto simp: cache_get_def)
  obtain e s3 where s3: "stub minting ''r'' (Pb ''R'' []) None 0 s2 = (Inl e, s3)" "gives_up ''/r'' e"
    "io_world s3 = 1" "held s3 minting_aid = \<lparr>tc_ticket = Some [1], tc_refresh_at_ms = 7\<rparr>" using minting_rejects s2(2,3) by metis
  obtain e' s4 where s4: "stub minting ''r'' (Pb ''R'' []) None 0 s3 = (Inl e', s4)" "gives_up ''/r'' e'"
    "io_world s4 = 1" "held s4 minting_aid = \<lparr>tc_ticket = Some [1], tc_refresh_at_ms = 7\<rparr>" using minting_rejects s3(3,4) by metis
  with minting_refresh [of s4 "[1]"] obtain s5 where s5: "refresh_ticket minting example_agent [1] 0 s4 = (Inr [1, 1], s5)"
    "io_world s5 = 2" "held s5 minting_aid = \<lparr>tc_ticket = Some [1, 1], tc_refresh_at_ms = 7\<rparr>"
    by (auto simp: cache_get_def numeral_2_eq_2)
  with minting_adopt(2) [of s5 "[1, 1]" "[1]"] obtain s6 where s6: "refresh_ticket minting example_agent [1] 0 s5 = (Inr [1, 1], s6)"
    "io_world s6 = 2" by (auto simp: cache_get_def)
  define p1 p2 p3 p4 p5 p6 where p: "p1 = ?p(0 := next_phase (Inr [1]))" "p2 = p1(1 := next_phase (Inr [1]))" "p3 = p2(0 := Refused [1])"
    "p4 = p3(1 := Refused [1])" "p5 = p4(0 := next_phase (Inr [1, 1]))" "p6 = p5(1 := next_phase (Inr [1, 1]))"
  have "?step (s0, ?p, {}) (s1, p1, {})" unfolding p(1) by (rule fetch [OF _ s1(1)]) simp
  moreover have "?step (s1, p1, {}) (s2, p2, {})" unfolding p(2) by (rule fetch [OF _ s2(1)]) (simp add: p(1))
  moreover have "?step (s2, p2, {}) (s3, p3, {[1]})"
    unfolding p(3) by (rule send_refused [OF _ _ s3(1,2)]) (simp_all add: p(1,2))
  moreover have "?step (s3, p3, {[1]}) (s4, p4, insert [1] {[1]})"
    unfolding p(4) by (rule send_refused [OF _ _ s4(1,2)]) (simp_all add: p(1-3))
  moreover have "?step (s4, p4, {[1]}) (s5, p5, {[1]})" unfolding p(5) by (rule refresh [OF _ s5(1)]) (simp add: p(3,4))
  moreover have "?step (s5, p5, {[1]}) (s6, p6, {[1]})" unfolding p(6) by (rule refresh [OF _ s6(1)]) (simp add: p(4,5))
  ultimately have "?step\<^sup>*\<^sup>* (s0, ?p, {}) (s6, p6, {[1]})"
    unfolding insert_absorb2 by (meson rtranclp.rtrancl_refl step_path)
  moreover have "p6 0 = Holding [1, 1]" "p6 1 = Holding [1, 1]" by (simp_all add: p(5,6))
  ultimately show ?thesis using s6(2) by blast
qed

theorem refresh_coalesces_witness:
  "\<exists>s0 s ph. (call_step minting example_agent)\<^sup>*\<^sup>* (s0, \<lambda>i. Idle, {}) (s, ph, {[1]}) \<and>
     ph 0 = Holding [1, 1] \<and> ph 1 = Holding [1, 1] \<and> minted (io_world s) - minted (io_world s0) = {[1], [1, 1]} \<and>
     card (minted (io_world s) - minted (io_world s0)) \<le> Suc (card {[1 :: 8 word]})"
proof -
  let ?s = "\<lparr>io_client = new_client None, io_world = 0, io_log = []\<rparr>"
  obtain s ph where run: "(call_step minting example_agent)\<^sup>*\<^sup>* (?s, \<lambda>i. Idle, {}) (s, ph, {[1]})" "io_world s = 2"
    "ph 0 = Holding [1, 1]" "ph 1 = Holding [1, 1]" using two_callers [OF refl] by blast
  have "minted 2 - minted 0 = {[1], [1, 1]}" by (auto simp: minted_def numeral_2_eq_2 lessThan_Suc)
  with refresh_coalesces [OF minting_honest minting_agent run(1)] run show ?thesis
    by (intro exI [of _ ?s] exI [of _ s] exI [of _ ph]) simp
qed

end
