(* ===== verification/Advice.thy ===== *)
theory Advice
  imports Client
begin

text \<open>
  \<open>SeamClient.authorize\<close> from end to end: the calls it makes, the requests they carry, and that the answer is
  an allow only when the server's last reply was one.
\<close>

abbreviation authorize_call :: "f64 \<Rightarrow> pb_message \<Rightarrow> wire_call" where
  "authorize_call timeout req \<equiv> sent ''SeamAuthorization/Authorize'' req timeout None"

definition attempt :: "'w runtime \<Rightarrow> agent \<Rightarrow> authorize_args \<Rightarrow> f64 \<Rightarrow> bytes \<Rightarrow> ('w, pb_message) client_action" where
  "attempt rt a args timeout t =
     andthen (lift (build_authorize_request (rt_ed rt) (rt_depth rt) t (ag_seed a) args)) (\<lambda>req.
     stub rt ''SeamAuthorization/Authorize'' req None timeout)"

lemma authorize_attempts:
  "authorize rt k a args timeout =
     andthen (lift (resolve_canonical (rt_depth rt) (aa_tool_input args) (aa_canonical args))) (\<lambda>canonical.
     andthen (ticket_for rt a timeout) (\<lambda>ticket.
     andthen (handle (attempt rt a (args\<lparr>aa_tool_input := VNone, aa_canonical := VBytes canonical\<rparr>) timeout ticket) (\<lambda>e.
         if has_class [UnauthenticatedError] e
         then andthen (refresh_ticket rt a ticket timeout) (attempt rt a (args\<lparr>aa_tool_input := VNone, aa_canonical := VBytes canonical\<rparr>) timeout)
         else raise e)) (\<lambda>resp.
     lift (result_of k resp))))"
  unfolding authorize_def attempt_def [abs_def] Let_def ..

text \<open>What a request says of its input: its digest, and the input itself unless only the digest is sent.\<close>

definition carries :: "authorize_args \<Rightarrow> bytes \<Rightarrow> pb_message \<Rightarrow> bool" where
  "carries args canonical req \<longleftrightarrow> get_str req ''tool_input_digest'' = tool_input_digest canonical \<and>
     (has_field req ''tool_input'' \<longleftrightarrow> \<not> aa_digest_only args) \<and>
     (\<not> aa_digest_only args \<longrightarrow> get_bytes req ''tool_input'' = canonical)"

lemma build_carries:
  assumes "build_authorize_request ed depth t seed (args\<lparr>aa_tool_input := VNone, aa_canonical := VBytes canonical\<rparr>) = Inr req"
  shows "carries args canonical req"
  using assms
proof (rule build_authorize_fields)
  fix c assume "resolve_canonical depth (aa_tool_input (args\<lparr>aa_tool_input := VNone, aa_canonical := VBytes canonical\<rparr>))
      (aa_canonical (args\<lparr>aa_tool_input := VNone, aa_canonical := VBytes canonical\<rparr>)) = Inr c"
    and r: "get_str req ''tool_input_digest'' = tool_input_digest c"
      "has_field req ''tool_input'' \<longleftrightarrow> \<not> aa_digest_only (args\<lparr>aa_tool_input := VNone, aa_canonical := VBytes canonical\<rparr>)"
      "\<not> aa_digest_only (args\<lparr>aa_tool_input := VNone, aa_canonical := VBytes canonical\<rparr>) \<longrightarrow> get_bytes req ''tool_input'' = c"
  then have "c = canonical" by (simp add: resolve_canonical_def split: if_splits)
  with r show ?thesis by (simp add: carries_def)
qed

lemma resolve_error: "resolve_canonical depth x c = Inl e \<Longrightarrow> e = CanonicalizationError"
  by (auto simp: resolve_canonical_def canonicalize_tool_input_def split: if_splits sum.splits pyval.splits)

lemma build_error:
  assumes "build_authorize_request ed depth t seed args = Inl e" shows "\<not> has_class cs e"
proof -
  have "e = CanonicalizationError \<or> (\<exists>x. e = Builtin x)"
    using assms resolve_error by (auto simp: build_authorize_request_def rbind_eq_Inl Let_def py_sres_def) (metis old.sum.simps sumE)+
  then show ?thesis by (auto simp: has_class_def)
qed

lemma attempt_run:
  assumes "attempt rt a (args\<lparr>aa_tool_input := VNone, aa_canonical := VBytes canonical\<rparr>) timeout t s = (r, s')"
  obtains reqs where "length reqs \<le> 1" "io_log s' = io_log s @ map (authorize_call timeout) reqs"
    "\<forall>q \<in> set reqs. carries args canonical q \<and> answered rt ''SeamAuthorization/Authorize'' q timeout None r"
    "\<forall>resp. r = Inr resp \<longrightarrow> reqs \<noteq> []" "\<forall>e. r = Inl e \<and> has_class [UnauthenticatedError] e \<longrightarrow> reqs \<noteq> []"
proof (cases "build_authorize_request (rt_ed rt) (rt_depth rt) t (ag_seed a) (args\<lparr>aa_tool_input := VNone, aa_canonical := VBytes canonical\<rparr>)")
  case (Inl e)
  then show thesis using assms build_error [OF Inl] by (intro that [of "[]"]) (auto simp: attempt_def action_defs)
next
  case (Inr req)
  then have "stub rt ''SeamAuthorization/Authorize'' req None timeout s = (r, s')"
    using assms by (simp add: attempt_def andthen_def lift_def)
  from stub_run [OF this] build_carries [OF Inr] show thesis by (intro that [of "[req]"]) simp_all
qed

lemma result_allowed:
  assumes "result_of k resp = Inr x" "allowed x" shows "get_int resp ''verdict'' = pb_ALLOW k"
  using assms by (auto simp: result_of_def allowed_def authorize_names_def dict_lookup_def split: if_splits option.splits)

text \<open>The two attempts around a refresh.\<close>

lemma attempts_run:
  assumes "handle (attempt rt a (args\<lparr>aa_tool_input := VNone, aa_canonical := VBytes canonical\<rparr>) timeout ticket) (\<lambda>e.
      if has_class [UnauthenticatedError] e
      then andthen (refresh_ticket rt a ticket timeout) (attempt rt a (args\<lparr>aa_tool_input := VNone, aa_canonical := VBytes canonical\<rparr>) timeout)
      else raise e) s = (r, s')"
  shows "\<exists>reqs1 h2 reqs2. io_log s' = io_log s @ map (authorize_call timeout) reqs1 @ h2 @ map (authorize_call timeout) reqs2 \<and>
    length reqs1 \<le> 1 \<and> handshake h2 \<and> length reqs2 \<le> 1 \<and> (\<forall>q \<in> set (reqs1 @ reqs2). carries args canonical q) \<and>
    (\<forall>resp. r = Inr resp \<longrightarrow> reqs1 @ reqs2 \<noteq> [] \<and>
       answered rt ''SeamAuthorization/Authorize'' (last (reqs1 @ reqs2)) timeout None (Inr resp))"
proof -
  let ?m = "attempt rt a (args\<lparr>aa_tool_input := VNone, aa_canonical := VBytes canonical\<rparr>) timeout"
  obtain q u where q: "?m ticket s = (q, u)" by (cases "?m ticket s")
  from q obtain reqs1 where one: "length reqs1 \<le> 1" "io_log u = io_log s @ map (authorize_call timeout) reqs1"
    "\<forall>x \<in> set reqs1. carries args canonical x \<and> answered rt ''SeamAuthorization/Authorize'' x timeout None q"
    "\<forall>resp. q = Inr resp \<longrightarrow> reqs1 \<noteq> []" by (rule attempt_run)
  have once: ?thesis if "r = q" "s' = u"
    using one that last_in_set [of reqs1] by (intro exI [of _ reqs1] exI [of _ "[]"]) auto
  consider (ok) x where "q = Inr x" | (other) e where "q = Inl e" "\<not> has_class [UnauthenticatedError] e"
    | (again) e where "q = Inl e" "has_class [UnauthenticatedError] e" by (cases q) auto
  then show ?thesis
  proof cases
    case ok
    with assms q show ?thesis by (intro once) (auto simp: handle_def)
  next
    case other
    with assms q show ?thesis by (intro once) (auto simp: handle_def raise_def)
  next
    case again
    obtain t v where t: "refresh_ticket rt a ticket timeout u = (t, v)" by (cases "refresh_ticket rt a ticket timeout u")
    note log = run_log [OF t appends_tickets(3)] and hs = calls_refresh_ticket [of rt a ticket timeout u]
    have rest: "andthen (refresh_ticket rt a ticket timeout) ?m u = (r, s')" using assms q again by (simp add: handle_def)
    show ?thesis
    proof (cases t)
      case (Inl e')
      then show ?thesis using rest t one log hs
        by (intro exI [of _ reqs1] exI [of _ "calls (refresh_ticket rt a ticket timeout) u"] exI [of _ "[]"]) (auto simp: andthen_def)
    next
      case (Inr t')
      then have "?m t' v = (r, s')" using rest t by (simp add: andthen_def)
      then obtain reqs2 where two: "length reqs2 \<le> 1" "io_log s' = io_log v @ map (authorize_call timeout) reqs2"
        "\<forall>x \<in> set reqs2. carries args canonical x \<and> answered rt ''SeamAuthorization/Authorize'' x timeout None r"
        "\<forall>resp. r = Inr resp \<longrightarrow> reqs2 \<noteq> []" by (rule attempt_run)
      then show ?thesis using one log hs last_in_set [of reqs2]
        by (intro exI [of _ reqs1] exI [of _ "calls (refresh_ticket rt a ticket timeout) u"] exI [of _ reqs2]) auto
    qed
  qed
qed

text \<open>C7: An advisory call makes at most six calls: a handshake if no ticket is cached, the request, and, only
  after a rejection, a handshake and the request once more. Every request carries the digest of the
  one canonical form of the input, and the input itself unless only the digest was asked for. An
  answer is the reading of the server's reply to the last request, and it allows only when that reply
  says so: unknown verdicts and failures never do.\<close>

theorem authorize_fails_closed:
  assumes "authorize rt k a args timeout s = (r, s')"
  shows "\<exists>h1 reqs1 h2 reqs2.
    io_log s' = io_log s @ h1 @ map (authorize_call timeout) reqs1 @ h2 @ map (authorize_call timeout) reqs2 \<and>
    handshake h1 \<and> handshake h2 \<and> length reqs1 \<le> 1 \<and> length reqs2 \<le> 1 \<and> length (io_log s') \<le> length (io_log s) + 6 \<and>
    (\<forall>q \<in> set (reqs1 @ reqs2). \<exists>canonical.
       resolve_canonical (rt_depth rt) (aa_tool_input args) (aa_canonical args) = Inr canonical \<and> carries args canonical q) \<and>
    (\<forall>x. r = Inr x \<longrightarrow> reqs1 @ reqs2 \<noteq> [] \<and>
       (\<exists>resp. answered rt ''SeamAuthorization/Authorize'' (last (reqs1 @ reqs2)) timeout None (Inr resp) \<and> result_of k resp = Inr x \<and>
         (allowed x \<longrightarrow> get_int resp ''verdict'' = pb_ALLOW k)))"
proof -
  have bound: "length l \<le> length (io_log s) + 6"
    if "l = io_log s @ h1 @ map f (reqs1 :: pb_message list) @ h2 @ map f reqs2" "handshake h1" "handshake h2" "length reqs1 \<le> 1" "length reqs2 \<le> 1"
    for l h1 f reqs1 h2 reqs2 using handshake_length [OF that(2)] handshake_length [OF that(3)] that by simp
  have none: ?thesis if "io_log s' = io_log s @ h1" "handshake h1" "r = Inl e" for h1 e
    using that bound [of "io_log s'" h1 "authorize_call timeout" "[]" "[]" "[]"] by (intro exI [of _ h1] exI [of _ "[]"]) simp
  show ?thesis
  proof (cases "resolve_canonical (rt_depth rt) (aa_tool_input args) (aa_canonical args)")
    case (Inl e)
    then show ?thesis using assms by (intro none [of "[]" e]) (auto simp: authorize_def action_defs)
  next
    case c: (Inr canonical)
    let ?args = "args\<lparr>aa_tool_input := VNone, aa_canonical := VBytes canonical\<rparr>"
    obtain t u where t: "ticket_for rt a timeout s = (t, u)" by (cases "ticket_for rt a timeout s")
    note log = run_log [OF t appends_tickets(2)] and hs = calls_ticket_for [of rt a timeout s]
    show ?thesis
    proof (cases t)
      case (Inl e)
      then show ?thesis using assms c t log hs by (intro none) (auto simp: authorize_def action_defs Let_def)
    next
      case (Inr ticket)
      let ?both = "handle (attempt rt a ?args timeout ticket) (\<lambda>e.
          if has_class [UnauthenticatedError] e
          then andthen (refresh_ticket rt a ticket timeout) (attempt rt a ?args timeout) else raise e)"
      obtain q v where q: "?both u = (q, v)" by (cases "?both u")
      from attempts_run [OF q] obtain reqs1 h2 reqs2 where
        m: "io_log v = io_log u @ map (authorize_call timeout) reqs1 @ h2 @ map (authorize_call timeout) reqs2"
          "length reqs1 \<le> 1" "handshake h2" "length reqs2 \<le> 1" "\<forall>q \<in> set (reqs1 @ reqs2). carries args canonical q"
          "\<forall>resp. q = Inr resp \<longrightarrow> reqs1 @ reqs2 \<noteq> [] \<and>
            answered rt ''SeamAuthorization/Authorize'' (last (reqs1 @ reqs2)) timeout None (Inr resp)" by blast
      have r: "s' = v" "\<forall>x. r = Inr x \<longrightarrow> (\<exists>resp. q = Inr resp \<and> result_of k resp = Inr x)"
        using assms c t Inr q by (auto simp: authorize_attempts andthen_def lift_def split: sum.splits)
      let ?h = "calls (ticket_for rt a timeout) s"
      have l: "io_log s' = io_log s @ ?h @ map (authorize_call timeout) reqs1 @ h2 @ map (authorize_call timeout) reqs2"
        using log m(1) r(1) by simp
      have verdict: "reqs1 @ reqs2 \<noteq> [] \<and>
          (\<exists>resp. answered rt ''SeamAuthorization/Authorize'' (last (reqs1 @ reqs2)) timeout None (Inr resp) \<and> result_of k resp = Inr x \<and>
            (allowed x \<longrightarrow> get_int resp ''verdict'' = pb_ALLOW k))" if x: "r = Inr x" for x
      proof -
        from r(2) x obtain resp where resp: "q = Inr resp" "result_of k resp = Inr x" by blast
        from m(6) [rule_format, OF resp(1)] resp(2) result_allowed [OF resp(2)] show ?thesis by (intro conjI exI [of _ resp]) simp_all
      qed
      show ?thesis
        by (intro exI [of _ ?h] exI [of _ reqs1] exI [of _ h2] exI [of _ reqs2] conjI allI impI ballI)
          (use l hs m(2-4) bound [OF l hs m(3,2,4)] m(5) c verdict in \<open>simp_all only: simp_thms sum.inject ex_simps refl\<close>)
    qed
  qed
qed

text \<open>A server that allows.\<close>

definition approving :: "unit runtime" where
  "approving =
     \<lparr>rt_now_ms = (\<lambda>w. (0, w)), rt_now_s = (\<lambda>w. (0, w)),
      rt_call = (\<lambda>rpc req md timeout w. (Inr (Pb ''AuthorizeResponse'' [(''verdict'', PInt 1)]), w)),
      rt_serialize = (\<lambda>m. Inr []), rt_ed = example_ed, rt_depth = 1\<rparr>"

definition example_verdicts :: authorize_consts where
  "example_verdicts = \<lparr>pb_ALLOW = 1, pb_DENY = 2, pb_TRANSFORM = 3, pb_ESCALATE = 4\<rparr>"

lemma example_authorize:
  "\<exists>x s'. authorize approving example_verdicts example_agent example_args 0 example_state = (Inr x, s') \<and> allowed x \<and> length (io_log s') = 1"
proof -
  obtain req where req: "build_authorize_request example_ed 1 [1] (ag_seed example_agent) example_args = Inr req"
    using example_request by (auto simp: example_agent_def)
  have args: "example_args\<lparr>aa_tool_input := VNone, aa_canonical := VBytes [123, 125]\<rparr> = example_args"
    by (simp add: example_args_def)
  have canonical: "resolve_canonical 1 (aa_tool_input example_args) (aa_canonical example_args) = Inr [123, 125]"
    by (simp add: resolve_canonical_def example_args_def)
  have rt: "rt_ed approving = example_ed" "rt_depth approving = 1" "rt_now_ms approving w = (0, w)"
    "rt_call approving rpc r md t w = (Inr (Pb ''AuthorizeResponse'' [(''verdict'', PInt 1)]), w)" for w rpc r md t
    by (simp_all add: approving_def)
  have aid: "agent_aid example_ed example_agent = Inr (aid_from_pubkey (replicate 32 7))"
    by (simp add: agent_aid_def example_ed_def example_agent_def)
  let ?resp = "Pb ''AuthorizeResponse'' [(''verdict'', PInt 1)]"
  have t: "ticket_for approving example_agent 0 example_state = (Inr [1], example_state)"
    unfolding ticket_for_def rt aid
    by (simp add: action_defs cache_and_lock_def example_state_def now_ms_def rt cache_get_def)
  obtain s1 where s1: "attempt approving example_agent example_args 0 [1] example_state = (Inr ?resp, s1)" "length (io_log s1) = 1"
    unfolding attempt_def rt req by (simp add: action_defs stub_def rt mapped_call_def example_state_def)
  have "\<exists>x. result_of example_verdicts ?resp = Inr x \<and> allowed x"
    by (simp add: result_of_def allowed_def get_int_def authorize_names_def example_verdicts_def dict_lookup_def)
  with s1 t show ?thesis unfolding authorize_attempts rt canonical
    by (auto simp: andthen_def lift_def handle_def args)
qed

theorem authorize_fails_closed_witness:
  "\<exists>x s' reqs1 reqs2. authorize approving example_verdicts example_agent example_args 0 example_state = (Inr x, s') \<and> allowed x \<and>
     reqs1 @ reqs2 \<noteq> [] \<and> length (io_log s') \<le> 6 \<and>
     (\<exists>resp. answered approving ''SeamAuthorization/Authorize'' (last (reqs1 @ reqs2)) 0 None (Inr resp) \<and> get_int resp ''verdict'' = 1)"
proof -
  obtain x s' where run: "authorize approving example_verdicts example_agent example_args 0 example_state = (Inr x, s')"
    and x: "allowed x" "length (io_log s') = 1" using example_authorize by blast
  have "pb_ALLOW example_verdicts = 1" by (simp add: example_verdicts_def)
  with authorize_fails_closed [OF run] run x show ?thesis by fastforce
qed

end
