(* ===== verification/Decisions.thy ===== *)
theory Decisions
  imports Verbs
begin

text \<open>
  \<open>SeamClient.verify_decision\<close> against the served messages: what a verified decision says about the
  \<open>Commitment\<close> message on the wire, composed from the token verification, the commitment digest, the
  explanation digest and the dict \<open>commitment_view\<close> makes of the message.
\<close>

section \<open>What the view keeps of a served commitment\<close>

record served_entry =
  se_kind :: ustr
  se_participant :: ustr
  se_proposal_id :: ustr
  se_value :: ustr
  se_reason :: ustr
  se_confidence :: "f64 option"
  se_rationale_ref :: "ustr option"

record served_commitment =
  sc_id :: ustr
  sc_action :: ustr
  sc_authority :: ustr
  sc_auth_method :: ustr
  sc_trust_basis :: ustr
  sc_committer :: ustr
  sc_supersedes :: "ustr option"
  sc_explanation :: "served_entry list"

definition present_str :: "pb_message \<Rightarrow> string \<Rightarrow> ustr option" where
  "present_str m f = (if has_field m f then Some (get_str m f) else None)"

definition served_entry_of :: "explanation_consts \<Rightarrow> pb_message \<Rightarrow> served_entry" where
  "served_entry_of k e =
     \<lparr>se_kind = kind_word k (get_int e ''kind''), se_participant = get_str e ''participant'',
      se_proposal_id = get_str e ''proposal_id'', se_value = get_str e ''value'', se_reason = get_str e ''reason'',
      se_confidence = (if has_field e ''confidence'' then Some (get_double e ''confidence'') else None),
      se_rationale_ref = present_str e ''rationale_ref''\<rparr>"

definition served_of :: "explanation_consts \<Rightarrow> pb_message \<Rightarrow> served_commitment" where
  "served_of k c =
     \<lparr>sc_id = get_str c ''id'', sc_action = get_str c ''action'', sc_authority = get_str c ''authority'',
      sc_auth_method = get_str c ''auth_method'', sc_trust_basis = get_str c ''trust_basis'',
      sc_committer = get_str c ''committer'', sc_supersedes = present_str c ''supersedes'',
      sc_explanation = map (served_entry_of k) (get_msgs c ''explanation'')\<rparr>"

definition seal_collision :: "explanation_consts \<Rightarrow> pb_message \<Rightarrow> pb_message \<Rightarrow> bool" where
  "seal_collision k c c' \<longleftrightarrow> commitment_collision (commitment_view k c) (commitment_view k c') \<or>
     explanation_collision (VList (map (entry_view k) (get_msgs c ''explanation''))) (VList (map (entry_view k) (get_msgs c' ''explanation'')))"

lemmas view_get = py_get_def py_getitem_def ustr_def

lemma present_str_eq: "opt_str m f = opt_str m' f \<longleftrightarrow> present_str m f = present_str m' f"
  by (simp add: opt_str_def present_str_def)

lemma commitment_view_gets:
  "py_getitem (commitment_view k c) (ustr ''id'') = Inr (VStr (get_str c ''id''))"
  "py_getitem (commitment_view k c) (ustr ''action'') = Inr (VStr (get_str c ''action''))"
  "py_getitem (commitment_view k c) (ustr ''authority'') = Inr (VStr (get_str c ''authority''))"
  "py_getitem (commitment_view k c) (ustr ''auth_method'') = Inr (VStr (get_str c ''auth_method''))"
  "py_getitem (commitment_view k c) (ustr ''trust_basis'') = Inr (VStr (get_str c ''trust_basis''))"
  "py_get (commitment_view k c) (ustr ''supersedes'') = Inr (opt_str c ''supersedes'')"
  "py_get (commitment_view k c) (ustr ''committer'') = Inr (VStr (get_str c ''committer''))"
  "py_get (commitment_view k c) (ustr ''explanation'') = Inr (VList (map (entry_view k) (get_msgs c ''explanation'')))"
  by (simp_all add: commitment_view_def view_get)

lemma served_committer: "committer_bytes (commitment_view k c) = utf8_encode (get_str c ''committer'')"
  by (simp add: committer_bytes_def commitment_view_gets py_truthy_def py_encode_def utf8_encode_def)

lemma commitment_view_fields:
  assumes "commitment_view_of (commitment_view k c) = Inr m"
  obtains b d where "utf8_encode (get_str c ''committer'') = Inr b" "commitment_explanation_digest (commitment_view k c) = Inr d"
    "m = \<lparr>m_id = VStr (get_str c ''id''), m_action = VStr (get_str c ''action''), m_authority = VStr (get_str c ''authority''),
      m_supersedes = opt_str c ''supersedes'', m_auth_method = VStr (get_str c ''auth_method''),
      m_trust_basis = VStr (get_str c ''trust_basis''), m_committer = b, m_explanation = d\<rparr>"
  using assms unfolding commitment_view_of_def commitment_view_gets served_committer by (auto simp: rbind_eq_Inr)

lemma entry_view_gets:
  "py_getitem (entry_view k e) (ustr ''kind'') = Inr (VStr (kind_word k (get_int e ''kind'')))"
  "py_getitem (entry_view k e) (ustr ''participant'') = Inr (VStr (get_str e ''participant''))"
  "py_getitem (entry_view k e) (ustr ''proposal_id'') = Inr (VStr (get_str e ''proposal_id''))"
  "py_getitem (entry_view k e) (ustr ''value'') = Inr (VStr (get_str e ''value''))"
  "py_getitem (entry_view k e) (ustr ''reason'') = Inr (VStr (get_str e ''reason''))"
  "py_get (entry_view k e) (ustr ''confidence'') = Inr (if has_field e ''confidence'' then VFloat (get_double e ''confidence'') else VNone)"
  "py_get (entry_view k e) (ustr ''rationale_ref'') = Inr (opt_str e ''rationale_ref'')"
  by (simp_all add: entry_view_def view_get)

lemma served_confidence:
  "confidence_of (if b then VFloat x else VNone) = Inr y \<Longrightarrow> y = (if b then Some x else None)"
  by (auto simp: confidence_of_def split: if_splits)

lemma entry_view_fields:
  assumes "expl_view (entry_view k e) = Inr v"
  shows "v = \<lparr>x_kind = VStr (kind_word k (get_int e ''kind'')), x_participant = VStr (get_str e ''participant''),
    x_proposal_id = VStr (get_str e ''proposal_id''), x_value = VStr (get_str e ''value''), x_reason = VStr (get_str e ''reason''),
    x_confidence = (if has_field e ''confidence'' then Some (get_double e ''confidence'') else None), x_rationale_ref = opt_str e ''rationale_ref''\<rparr>"
  using assms unfolding expl_view_def entry_view_gets by (auto simp: rbind_eq_Inr dest: served_confidence)

lemma entry_view_eq:
  "expl_view (entry_view k e) = Inr v \<Longrightarrow> expl_view (entry_view k e') = Inr v \<Longrightarrow> served_entry_of k e = served_entry_of k e'"
  by (drule entry_view_fields)+ (simp add: served_entry_of_def flip: present_str_eq)

lemma entries_eq:
  assumes "same_explanation (VList (map (entry_view k) es)) (VList (map (entry_view k) es'))"
  shows "map (served_entry_of k) es = map (served_entry_of k) es'"
proof -
  from assms obtain vs where "mapR expl_view (map (entry_view k) es) = Inr vs" "mapR expl_view (map (entry_view k) es') = Inr vs"
    by (auto simp: same_explanation_def py_list_def)
  then have "list_all2 (\<lambda>e v. expl_view (entry_view k e) = Inr v) es vs" "list_all2 (\<lambda>e v. expl_view (entry_view k e) = Inr v) es' vs"
    by (simp_all add: mapR_eq_Inr list_all2_map1)
  then show ?thesis
  proof (induction arbitrary: es' rule: list_all2_induct)
    case (Cons e es v vs)
    then obtain e' t where t: "es' = e' # t" "expl_view (entry_view k e') = Inr v" "list_all2 (\<lambda>e v. expl_view (entry_view k e) = Inr v) t vs"
      by (auto simp: list_all2_Cons2)
    with entry_view_eq [OF Cons.hyps(1) t(2)] Cons.IH [OF t(3)] show ?case by simp
  qed simp
qed

text \<open>Equal digests of two served commitments.\<close>

lemma served_eq:
  assumes "seam_commitment_digest (commitment_view k c) = Inr h" "seam_commitment_digest (commitment_view k c') = Inr h"
  shows "served_of k c = served_of k c' \<or> seal_collision k c c'"
  using commitment_digest_eq [OF assms]
proof
  assume "\<exists>m. commitment_view_of (commitment_view k c) = Inr m \<and> commitment_view_of (commitment_view k c') = Inr m"
  then obtain m where m: "commitment_view_of (commitment_view k c) = Inr m" "commitment_view_of (commitment_view k c') = Inr m" by blast
  from m(1) obtain b d where f: "utf8_encode (get_str c ''committer'') = Inr b" "commitment_explanation_digest (commitment_view k c) = Inr d"
    "m = \<lparr>m_id = VStr (get_str c ''id''), m_action = VStr (get_str c ''action''), m_authority = VStr (get_str c ''authority''),
      m_supersedes = opt_str c ''supersedes'', m_auth_method = VStr (get_str c ''auth_method''),
      m_trust_basis = VStr (get_str c ''trust_basis''), m_committer = b, m_explanation = d\<rparr>" by (rule commitment_view_fields)
  from m(2) obtain b' d' where g: "utf8_encode (get_str c' ''committer'') = Inr b'" "commitment_explanation_digest (commitment_view k c') = Inr d'"
    "m = \<lparr>m_id = VStr (get_str c' ''id''), m_action = VStr (get_str c' ''action''), m_authority = VStr (get_str c' ''authority''),
      m_supersedes = opt_str c' ''supersedes'', m_auth_method = VStr (get_str c' ''auth_method''),
      m_trust_basis = VStr (get_str c' ''trust_basis''), m_committer = b', m_explanation = d'\<rparr>" by (rule commitment_view_fields)
  have bd: "b' = b" "d' = d" using f(3) g(3) by simp_all
  let ?es = "\<lambda>x. VList (map (entry_view k) (get_msgs x ''explanation''))"
  have "explanation_digest (?es c) = Inr d" "explanation_digest (?es c') = Inr d"
    using commitment_explanation_checked [OF f(2) commitment_view_gets(8)] commitment_explanation_checked [OF g(2) commitment_view_gets(8)] bd
    by simp_all
  note ex = explanation_digest_eq [OF this]
  have "get_str c ''committer'' = get_str c' ''committer''" using utf8_encode_inj f(1) g(1) bd by blast
  then have "served_of k c = served_of k c'" if "map (served_entry_of k) (get_msgs c ''explanation'') = map (served_entry_of k) (get_msgs c' ''explanation'')"
    using f(3) g(3) that by (simp add: served_of_def flip: present_str_eq)
  with ex show ?thesis using entries_eq unfolding seal_collision_def by blast
qed (simp add: seal_collision_def)

section \<open>A verified decision\<close>

text \<open>A decision that verifies: the proof names the pinned issuer, and its artifact is a token signed by
  that issuer's key that states the digest of the served commitment.\<close>

lemma verify_decision_True:
  assumes "verify_decision rt k d issuer credential timeout s = (Inr True, s')"
    and "get_commitment_proof rt d credential timeout s = (Inr proof, u)"
  obtains artifact header payload x h where "get_str proof ''issuer_aid'' = issuer"
    "utf8_decode (get_bytes (get_msg proof ''commitment'') ''signed_artifact'') = Inr artifact"
    "token_claims (rt_ed rt) (rt_depth rt) issuer artifact header payload"
    "claim payload ''ext'' x" "ext_statement x = Some (VStr h)"
    "seam_commitment_digest (commitment_view k (get_msg proof ''commitment'')) = Inr h"
proof -
  from assms obtain artifact clock where "get_str proof ''issuer_aid'' = issuer"
    "utf8_decode (get_bytes (get_msg proof ''commitment'') ''signed_artifact'') = Inr artifact"
    "verify_tct (rt_ed rt) (rt_depth rt) clock issuer artifact (commitment_view k (get_msg proof ''commitment'')) None"
    by (auto simp: verify_decision_def action_defs Let_def now_s_def split: if_splits sum.splits prod.splits)
  then show thesis using that unfolding verify_tct_iff check_claims_True by blast
qed

text \<open>C1: A decision verified under a pinned issuer is that issuer's word, whatever the server serves. The
  artifact is signed by the pinned key, and if two verified decisions, from any servers, carry the same
  artifact, the commitments served with it agree on id, action, authority, authentication method,
  trust basis, committer, what they supersede and every explanation entry in order, or an explicit
  SHA-256 collision is at hand.\<close>

theorem verify_decision_binds:
  assumes "verify_decision rt k d issuer credential timeout s = (Inr True, s')"
    and "get_commitment_proof rt d credential timeout s = (Inr proof, u)"
    and "verify_decision rt2 k d2 issuer credential2 timeout2 s2 = (Inr True, s2')"
    and "get_commitment_proof rt2 d2 credential2 timeout2 s2 = (Inr proof2, u2)"
    and "rt_ed rt2 = rt_ed rt" "rt_depth rt2 = rt_depth rt"
    and "get_bytes (get_msg proof ''commitment'') ''signed_artifact'' = get_bytes (get_msg proof2 ''commitment'') ''signed_artifact''"
  shows "(\<exists>artifact header payload. utf8_decode (get_bytes (get_msg proof ''commitment'') ''signed_artifact'') = Inr artifact \<and>
      token_claims (rt_ed rt) (rt_depth rt) issuer artifact header payload) \<and>
    (served_of k (get_msg proof ''commitment'') = served_of k (get_msg proof2 ''commitment'') \<or>
     seal_collision k (get_msg proof ''commitment'') (get_msg proof2 ''commitment''))"
proof -
  from assms(1,2) obtain a h p x g where one: "utf8_decode (get_bytes (get_msg proof ''commitment'') ''signed_artifact'') = Inr a"
    "token_claims (rt_ed rt) (rt_depth rt) issuer a h p" "claim p ''ext'' x" "ext_statement x = Some (VStr g)"
    "seam_commitment_digest (commitment_view k (get_msg proof ''commitment'')) = Inr g" by (rule verify_decision_True)
  from assms(3,4) obtain a' h' p' x' g' where two: "utf8_decode (get_bytes (get_msg proof2 ''commitment'') ''signed_artifact'') = Inr a'"
    "token_claims (rt_ed rt2) (rt_depth rt2) issuer a' h' p'" "claim p' ''ext'' x'" "ext_statement x' = Some (VStr g')"
    "seam_commitment_digest (commitment_view k (get_msg proof2 ''commitment'')) = Inr g'" by (rule verify_decision_True)
  have "a' = a" using one(1) two(1) assms(7) by simp
  then have "p' = p" using token_claims_unique [OF one(2)] two(2) assms(5,6) by simp
  then have "x' = x" using claim_unique [OF one(3)] two(3) by blast
  then have "g' = g" using one(4) two(4) by simp
  with one two(5) served_eq [OF one(5)] show ?thesis by blast
qed

section \<open>Example\<close>

definition example_kinds :: explanation_consts where
  "example_kinds = \<lparr>pb_VOTE = 1, pb_EVALUATION = 2, pb_OBJECTION = 3, pb_BALLOT = 4\<rparr>"

definition example_seal :: "bytes \<Rightarrow> pb_message" where
  "example_seal artifact = Pb ''Commitment'' [(''id'', PStr (ustr ''c1'')), (''signed_artifact'', PBytes artifact)]"

definition serving :: "pb_message \<Rightarrow> unit runtime" where
  "serving c =
     \<lparr>rt_now_ms = (\<lambda>w. (0, w)), rt_now_s = (\<lambda>w. (5, w)),
      rt_call = (\<lambda>rpc req md timeout w.
        (Inr (Pb ''CommitmentProof'' [(''issuer_aid'', PStr (aid_from_pubkey (replicate 32 7))), (''commitment'', PMsg c)]), w)),
      rt_serialize = (\<lambda>m. Inr []), rt_ed = example_ed, rt_depth = 3\<rparr>"

abbreviation anonymous :: "(client, unit) io" where
  "anonymous \<equiv> \<lparr>io_client = new_client None, io_world = (), io_log = []\<rparr>"

lemma example_seal_digest: "\<exists>h. seam_commitment_digest (commitment_view example_kinds (example_seal b)) = Inr h"
proof -
  have str: "get_str (example_seal b) ''id'' = ustr ''c1''" "get_str (example_seal b) ''action'' = []"
    "get_str (example_seal b) ''authority'' = []" "get_str (example_seal b) ''auth_method'' = []"
    "get_str (example_seal b) ''trust_basis'' = []" "opt_str (example_seal b) ''supersedes'' = VNone"
    "get_str (example_seal b) ''committer'' = []" "get_msgs (example_seal b) ''explanation'' = []"
    "get_bytes (example_seal b) ''explanation_digest'' = []"
    by (simp_all add: example_seal_def get_str_def get_msgs_def get_bytes_def opt_str_def has_field_def)
  obtain d where d: "explanation_digest (VList []) = Inr d"
    by (simp add: explanation_digest_def py_list_def explanation_preimage_def be64_frame_def to_bytes_8_big_def bstr_def)
  then have "length d = 32" by (auto simp: explanation_digest_def rbind_eq_Inr)
  moreover have "published_digest (commitment_view example_kinds (example_seal b)) = Inr None"
    by (simp add: published_digest_def commitment_view_def view_get str)
  then have x: "commitment_explanation_digest (commitment_view example_kinds (example_seal b)) = Inr d"
    using d by (simp add: commitment_explanation_digest_def commitment_view_gets str)
  ultimately show ?thesis
    unfolding seam_commitment_digest_def commitment_preimage_def x field_bytes_def commitment_view_gets served_committer str
    by (simp add: py_encode_def optional_text_def be64_opt_bytes_def be64_frame_def to_bytes_8_big_def utf8_encode_def utf8_cp_def ustr_def bstr_def)
qed

lemma example_decision:
  "\<exists>c proof u s'. get_commitment_proof (serving c) [] None 0 anonymous = (Inr proof, u) \<and> get_msg proof ''commitment'' = c \<and>
     verify_decision (serving c) example_kinds [] (aid_from_pubkey (replicate 32 7)) None 0 anonymous = (Inr True, s')"
proof -
  let ?aid = "aid_from_pubkey (replicate 32 7)"
  have view: "commitment_view example_kinds (example_seal b) = commitment_view example_kinds (example_seal [])" for b
    by (simp add: commitment_view_def example_seal_def get_str_def get_msgs_def get_bytes_def opt_str_def has_field_def)
  obtain digest where d: "seam_commitment_digest (commitment_view example_kinds (example_seal [])) = Inr digest"
    using example_seal_digest by blast
  have k: "from_private_bytes example_ed (replicate 32 7) = Inr (replicate 32 7)"
    "public_bytes_raw example_ed (replicate 32 7) = replicate 32 7" by (simp_all add: example_ed_def)
  let ?token = "issue_tct example_ed (replicate 32 7) Spaced 100 digest"
  have "\<forall>c \<in> set ?token. c < 0x80"
    using b64url_ascii signing_input_ascii by (auto simp: issue_tct_def Let_def)
  then have a: "utf8_decode (map of_nat ?token) = Inr ?token" by (intro utf8_decode_encode utf8_encode_ascii)
  have v: "verify_tct example_ed 3 5 ?aid ?token (commitment_view example_kinds (example_seal [])) None"
    unfolding verify_tct_iff option.case
    using issued_token_claims [OF example_ed_correct k(1) d, of 100 3 Spaced, unfolded k] tct_claims_hold [OF d, of 100 ?aid 5] by auto
  let ?c = "example_seal (map of_nat ?token)"
  have art: "get_bytes ?c ''signed_artifact'' = map of_nat ?token" by (simp add: example_seal_def get_bytes_def)
  let ?proof = "Pb ''CommitmentProof'' [(''issuer_aid'', PStr ?aid), (''commitment'', PMsg ?c)]"
  have rt: "rt_now_s (serving c) w = (5, w)" "rt_ed (serving c) = example_ed" "rt_depth (serving c) = 3" for c w by (simp_all add: serving_def)
  have p: "\<exists>u. get_commitment_proof (serving ?c) [] None 0 anonymous = (Inr ?proof, u)"
    by (simp add: get_commitment_proof_def send_read_def credentialed_call_def signer_def new_client_def action_defs stub_def serving_def mapped_call_def)
  moreover have "get_msg ?proof ''commitment'' = ?c" "get_str ?proof ''issuer_aid'' = ?aid" by (simp_all add: get_msg_def get_str_def)
  ultimately have "\<exists>s'. verify_decision (serving ?c) example_kinds [] ?aid None 0 anonymous = (Inr True, s')"
    using a v view [of "map of_nat ?token"] by (auto simp: verify_decision_def action_defs Let_def art now_s_def rt)
  with p \<open>get_msg ?proof ''commitment'' = ?c\<close> show ?thesis by blast
qed

theorem verify_decision_binds_witness:
  "\<exists>c proof u s'. verify_decision (serving c) example_kinds [] (aid_from_pubkey (replicate 32 7)) None 0 anonymous = (Inr True, s') \<and>
     get_commitment_proof (serving c) [] None 0 anonymous = (Inr proof, u) \<and>
     (\<exists>artifact header payload. token_claims example_ed 3 (aid_from_pubkey (replicate 32 7)) artifact header payload)"
proof -
  obtain c pf u s' where g: "get_commitment_proof (serving c) [] None 0 anonymous = (Inr pf, u)"
    and v: "verify_decision (serving c) example_kinds [] (aid_from_pubkey (replicate 32 7)) None 0 anonymous = (Inr True, s')"
    using example_decision by blast
  have "rt_ed (serving c) = example_ed" "rt_depth (serving c) = 3" by (simp_all add: serving_def)
  with verify_decision_binds [OF v g v g refl refl refl] g v show ?thesis by auto
qed

end
