(* ===== verification/Aio.thy ===== *)
theory Aio
  imports Verbs Coalescing
begin

text \<open>
  The asynchronous client \<open>aio.py\<close>. A coroutine runs synchronous stretches and awaits calls and locks;
  the task that runs it may be cancelled at any await, which raises \<open>CancelledError\<close> there, past every
  handler of the SDK. Left alone, every coroutine does what its blocking twin does; cancelled anywhere,
  it leaves the ticket caches consistent.
\<close>

section \<open>Coroutines\<close>

datatype aio_exn = CancelledError | Failed sdk_exn

text \<open>The state of a task: that of the client, and how many more awaits complete before the cancellation,
  if one is coming. The call awaited when it comes may have reached the server; its answer is lost.\<close>

type_synonym ('w, 'a) coroutine =
  "(client, 'w) io \<times> nat option \<Rightarrow> (aio_exn + 'a) \<times> ((client, 'w) io \<times> nat option)"

definition run_sync :: "('w, 'a) client_action \<Rightarrow> ('w, 'a) coroutine" where
  "run_sync m = (\<lambda>(s, k). case m s of (Inl e, s') \<Rightarrow> (Inl (Failed e), (s', k)) | (Inr x, s') \<Rightarrow> (Inr x, (s', k)))"

definition awaiting :: "('w, 'a) client_action \<Rightarrow> ('w, 'a) coroutine" where
  "awaiting m = (\<lambda>(s, k). case k of
       None \<Rightarrow> run_sync m (s, None)
     | Some 0 \<Rightarrow> (Inl CancelledError, (snd (m s), None))
     | Some (Suc n) \<Rightarrow> run_sync m (s, Some n))"

definition abind :: "('w, 'a) coroutine \<Rightarrow> ('a \<Rightarrow> ('w, 'b) coroutine) \<Rightarrow> ('w, 'b) coroutine" where
  "abind c f t = (case c t of (Inl e, t') \<Rightarrow> (Inl e, t') | (Inr x, t') \<Rightarrow> f x t')"

definition ahandle :: "('w, 'a) coroutine \<Rightarrow> (sdk_exn \<Rightarrow> ('w, 'a) coroutine) \<Rightarrow> ('w, 'a) coroutine" where
  "ahandle c h t = (case c t of (Inl (Failed e), t') \<Rightarrow> h e t' | r \<Rightarrow> r)"

definition aret :: "'a \<Rightarrow> ('w, 'a) coroutine" where
  "aret x = run_sync (ret x)"

definition araise :: "sdk_exn \<Rightarrow> ('w, 'a) coroutine" where
  "araise e = run_sync (raise e)"

definition alift :: "'a sres \<Rightarrow> ('w, 'a) coroutine" where
  "alift r = run_sync (lift r)"

definition alift_py :: "'a res \<Rightarrow> ('w, 'a) coroutine" where
  "alift_py r = run_sync (lift_py r)"

definition anow_ms :: "'w runtime \<Rightarrow> ('w, int) coroutine" where
  "anow_ms rt = run_sync (now_ms rt)"

definition anow_s :: "'w runtime \<Rightarrow> ('w, int) coroutine" where
  "anow_s rt = run_sync (now_s rt)"

text \<open>Acquiring an \<open>asyncio.Lock\<close> is an await; releasing it is not.\<close>

definition acquire :: "('w, unit) coroutine" where
  "acquire = awaiting (ret ())"

definition aio_stub :: "'w runtime \<Rightarrow> string \<Rightarrow> pb_message \<Rightarrow> metadata option \<Rightarrow> f64 \<Rightarrow> ('w, pb_message) coroutine" where
  "aio_stub rt rpc req md timeout = awaiting (stub rt rpc req md timeout)"

section \<open>The ticket lifecycle\<close>

definition aio_presentation :: "'w runtime \<Rightarrow> agent \<Rightarrow> f64 \<Rightarrow> ('w, pb_message) coroutine" where
  "aio_presentation rt a timeout =
     abind (aio_stub rt ''SeamAdmission/IssueChallenge'' (Pb ''IssueChallengeRequest'' []) None timeout) (\<lambda>ch.
     abind (anow_ms rt) (\<lambda>now.
     abind (alift_py (build_presentation (rt_ed rt) (ag_seed a) (get_str ch ''receiver_aid'') (get_str ch ''nonce'') now)) (\<lambda>body.
     aret (Pb ''PinnedPresentation'' [(''presentation_json'', PBytes (dumps_bytes Spaced (presentation_doc body)))]))))"

definition aio_cache_and_lock :: "ustr \<Rightarrow> ('w, ticket_cache) coroutine" where
  "aio_cache_and_lock aid = abind acquire (\<lambda>_. run_sync (cache_and_lock aid))"

text \<open>The cache object is shared: what the clock is compared with is its contents once the lock is held.\<close>

definition aio_locked :: "ustr \<Rightarrow> (ticket_cache \<Rightarrow> ('w, 'a) coroutine) \<Rightarrow> ('w, 'a) coroutine" where
  "aio_locked aid body =
     abind (aio_cache_and_lock aid) (\<lambda>_. abind acquire (\<lambda>_. abind (run_sync (cache_and_lock aid)) body))"

definition aio_admit_locked :: "'w runtime \<Rightarrow> agent \<Rightarrow> ustr \<Rightarrow> f64 \<Rightarrow> ('w, bytes) coroutine" where
  "aio_admit_locked rt a aid timeout =
     abind (aio_presentation rt a timeout) (\<lambda>p.
     abind (aio_stub rt ''SeamAdmission/Admit'' p None timeout) (\<lambda>t.
     abind (anow_ms rt) (\<lambda>now.
     abind (run_sync (update_cache aid (\<lambda>c. cache_store c (get_bytes t ''ticket'') (get_int t ''expires_at_ms'') now))) (\<lambda>_.
     aret (get_bytes t ''ticket'')))))"

definition aio_admit :: "'w runtime \<Rightarrow> agent \<Rightarrow> f64 \<Rightarrow> ('w, bytes) coroutine" where
  "aio_admit rt a timeout =
     abind (alift_py (agent_aid (rt_ed rt) a)) (\<lambda>aid. aio_locked aid (\<lambda>_. aio_admit_locked rt a aid timeout))"

definition aio_ticket_for :: "'w runtime \<Rightarrow> agent \<Rightarrow> f64 \<Rightarrow> ('w, bytes) coroutine" where
  "aio_ticket_for rt a timeout =
     abind (alift_py (agent_aid (rt_ed rt) a)) (\<lambda>aid.
     aio_locked aid (\<lambda>cache.
     abind (anow_ms rt) (\<lambda>now.
     case cache_get cache now of
       Some ticket \<Rightarrow> aret ticket
     | None \<Rightarrow> aio_admit_locked rt a aid timeout)))"

definition aio_refresh_ticket :: "'w runtime \<Rightarrow> agent \<Rightarrow> bytes \<Rightarrow> f64 \<Rightarrow> ('w, bytes) coroutine" where
  "aio_refresh_ticket rt a failed timeout =
     abind (alift_py (agent_aid (rt_ed rt) a)) (\<lambda>aid.
     aio_locked aid (\<lambda>cache.
     abind (anow_ms rt) (\<lambda>now.
     let current = cache_get cache now in
     if current \<noteq> None \<and> current \<noteq> Some failed then aret (the current)
     else abind (run_sync (update_cache aid cache_invalidate)) (\<lambda>_. aio_admit_locked rt a aid timeout))))"

definition aio_invalidate_ticket :: "'w runtime \<Rightarrow> agent \<Rightarrow> bytes \<Rightarrow> ('w, unit) coroutine" where
  "aio_invalidate_ticket rt a failed =
     abind (alift_py (agent_aid (rt_ed rt) a)) (\<lambda>aid.
     aio_locked aid (\<lambda>cache.
     abind (anow_ms rt) (\<lambda>now.
     if cache_get cache now = Some failed then run_sync (update_cache aid cache_invalidate) else aret ())))"

section \<open>Credentialed calls\<close>

definition aio_signer :: "client \<Rightarrow> agent option \<Rightarrow> agent option" where
  "aio_signer c credential = (if credential \<noteq> None then credential else cl_agent c)"

definition aio_forget_burned_ticket :: "'w runtime \<Rightarrow> agent \<Rightarrow> bytes \<Rightarrow> string \<Rightarrow> sdk_exn \<Rightarrow> ('w, unit) coroutine" where
  "aio_forget_burned_ticket rt a ticket rpc_full_name exc =
     (if rpc_full_name \<in> set REPLAY_GUARDED \<and> (is_session_unavailable exc \<or> is_tenant_moving exc)
      then aio_invalidate_ticket rt a ticket
      else aret ())"

text \<open>One signed send under \<open>except (UnavailableError, FailedPreconditionError)\<close>; \<open>h\<close> is what another failure
  leads to.\<close>

definition aio_guarded_send ::
    "'w runtime \<Rightarrow> agent \<Rightarrow> bytes \<Rightarrow> string \<Rightarrow> ustr \<Rightarrow> pb_message option \<Rightarrow> (metadata option \<Rightarrow> ('w, 'a) coroutine) \<Rightarrow>
     (sdk_exn \<Rightarrow> ('w, 'a) coroutine) \<Rightarrow> ('w, 'a) coroutine" where
  "aio_guarded_send rt a ticket full rid body send h =
     ahandle (abind (alift (credential_metadata rt (ag_seed a) ticket full rid body)) (\<lambda>md. send (Some md))) (\<lambda>e.
       if has_class [UnavailableError, FailedPreconditionError] e
       then abind (aio_forget_burned_ticket rt a ticket full e) (\<lambda>_. araise e)
       else h e)"

definition aio_signed_once ::
    "'w runtime \<Rightarrow> agent option \<Rightarrow> string \<Rightarrow> ustr \<Rightarrow> pb_message option \<Rightarrow>
     (metadata option \<Rightarrow> ('w, 'a) coroutine) \<Rightarrow> f64 \<Rightarrow> ('w, 'a) coroutine" where
  "aio_signed_once rt credential rpc_full_name resource_id body send timeout =
     abind (run_sync get_client) (\<lambda>c.
       case aio_signer c credential of
         None \<Rightarrow> send None
       | Some a \<Rightarrow>
           abind (aio_ticket_for rt a timeout) (\<lambda>ticket.
           aio_guarded_send rt a ticket rpc_full_name resource_id body send araise))"

definition aio_credentialed_call ::
    "'w runtime \<Rightarrow> agent option \<Rightarrow> string \<Rightarrow> ustr \<Rightarrow> pb_message option \<Rightarrow>
     (metadata option \<Rightarrow> ('w, 'a) coroutine) \<Rightarrow> f64 \<Rightarrow> bool \<Rightarrow> ('w, 'a) coroutine" where
  "aio_credentialed_call rt credential rpc_full_name resource_id body send timeout retry =
     abind (run_sync get_client) (\<lambda>c.
       case aio_signer c credential of
         None \<Rightarrow> send None
       | Some a \<Rightarrow>
           abind (aio_ticket_for rt a timeout) (\<lambda>ticket.
           aio_guarded_send rt a ticket rpc_full_name resource_id body send (\<lambda>e.
             if has_class [UnauthenticatedError] e then
               (if \<not> retry then abind (aio_invalidate_ticket rt a ticket) (\<lambda>_. araise e)
                else
                  abind (aio_refresh_ticket rt a ticket timeout) (\<lambda>ticket'.
                  aio_guarded_send rt a ticket' rpc_full_name resource_id body send araise))
             else araise e)))"

text \<open>\<open>authorize\<close> takes its ticket under the lock itself, as \<open>_ticket_for\<close> does.\<close>

definition aio_authorize :: "'w runtime \<Rightarrow> authorize_consts \<Rightarrow> agent \<Rightarrow> authorize_args \<Rightarrow> f64 \<Rightarrow> ('w, authorize_result) coroutine" where
  "aio_authorize rt k a args timeout =
     abind (alift (resolve_canonical (rt_depth rt) (aa_tool_input args) (aa_canonical args))) (\<lambda>canonical.
     abind (alift_py (agent_aid (rt_ed rt) a)) (\<lambda>aid.
     abind (aio_locked aid (\<lambda>cache.
        abind (anow_ms rt) (\<lambda>now.
        case cache_get cache now of
          Some ticket \<Rightarrow> aret ticket
        | None \<Rightarrow> aio_admit_locked rt a aid timeout))) (\<lambda>ticket.
     let args' = args\<lparr>aa_tool_input := VNone, aa_canonical := VBytes canonical\<rparr>;
         attempt = (\<lambda>t. abind (alift (build_authorize_request (rt_ed rt) (rt_depth rt) t (ag_seed a) args')) (\<lambda>req.
                      aio_stub rt ''SeamAuthorization/Authorize'' req None timeout))
     in abind (ahandle (attempt ticket) (\<lambda>e.
                   if has_class [UnauthenticatedError] e then
                     abind (aio_refresh_ticket rt a ticket timeout) attempt
                   else araise e)) (\<lambda>resp.
        alift (result_of k resp)))))"

section \<open>The verbs\<close>

definition aio_send_step :: "'w runtime \<Rightarrow> agent option \<Rightarrow> string \<Rightarrow> pb_message \<Rightarrow> f64 \<Rightarrow> ('w, pb_message) coroutine" where
  "aio_send_step rt credential rpc req timeout =
     aio_credentialed_call rt credential (path rpc) [] (Some req) (\<lambda>md. aio_stub rt rpc req md timeout) timeout True"

definition aio_send_read :: "'w runtime \<Rightarrow> agent option \<Rightarrow> string \<Rightarrow> ustr \<Rightarrow> pb_message \<Rightarrow> f64 \<Rightarrow> ('w, pb_message) coroutine" where
  "aio_send_read rt credential rpc resource_id req timeout =
     aio_credentialed_call rt credential (path rpc) resource_id None (\<lambda>md. aio_stub rt rpc req md timeout) timeout True"

definition aio_send_once :: "'w runtime \<Rightarrow> agent option \<Rightarrow> string \<Rightarrow> pb_message \<Rightarrow> f64 \<Rightarrow> ('w, pb_message) coroutine" where
  "aio_send_once rt credential rpc req timeout =
     aio_signed_once rt credential (path rpc) [] (Some req) (\<lambda>md. aio_stub rt rpc req md timeout) timeout"

definition aio_run_decision ::
    "'w runtime \<Rightarrow> agent \<Rightarrow> ustr \<Rightarrow> ustr list \<Rightarrow> pyval list \<Rightarrow> (ustr \<times> ustr) list option \<Rightarrow> ustr list \<Rightarrow> f64 \<Rightarrow>
     ('w, pb_message) coroutine" where
  "aio_run_decision rt a session_id participants votes features on_behalf_of timeout =
     abind (alift_py (vote_messages votes)) (\<lambda>vs.
     abind (aio_presentation rt a timeout) (\<lambda>p.
     aio_stub rt ''SeamCoordination/RunDecision''
       (pb_set_opt
          (Pb ''RunDecisionRequest''
             [(''session_id'', PStr session_id), (''participants'', PStrs participants), (''votes'', PMsgs vs),
              (''presentation'', PMsg p), (''on_behalf_of'', PStrs on_behalf_of)])
          ''features'' (features_field features))
       None timeout))"

definition aio_open_session ::
    "'w runtime \<Rightarrow> agent \<Rightarrow> ustr \<Rightarrow> ustr list \<Rightarrow> int \<Rightarrow> budget_limits option \<Rightarrow> ustr \<Rightarrow> ustr list \<Rightarrow> agent option \<Rightarrow> f64 \<Rightarrow>
     ('w, pb_message) coroutine" where
  "aio_open_session rt a session_id participants budget limits mode on_behalf_of credential timeout =
     abind (aio_presentation rt a timeout) (\<lambda>p.
     aio_send_once rt credential ''SeamCoordination/OpenSession''
       (pb_set_opt
          (Pb ''OpenSessionRequest''
             [(''session_id'', PStr session_id), (''participants'', PStrs participants), (''budget'', PInt budget),
              (''mode'', PStr mode), (''presentation'', PMsg p), (''on_behalf_of'', PStrs on_behalf_of)])
          ''limits'' (map_option (\<lambda>l. PMsg (limits_to_pb l)) limits))
       timeout)"

definition aio_submit_proposal ::
    "'w runtime \<Rightarrow> ustr \<Rightarrow> ustr \<Rightarrow> ustr \<Rightarrow> ustr \<Rightarrow> step_usage option \<Rightarrow> agent option \<Rightarrow> f64 \<Rightarrow> ('w, pb_message) coroutine" where
  "aio_submit_proposal rt session_id proposer proposal_id opt usage credential timeout =
     aio_send_step rt credential ''SeamCoordination/SubmitProposal''
       (pb_set_opt
          (Pb ''ProposalRequest''
             [(''session_id'', PStr session_id), (''proposer'', PStr proposer), (''proposal_id'', PStr proposal_id),
              (''option'', PStr opt)])
          ''usage'' (usage_field usage))
       timeout"

definition aio_submit_vote ::
    "'w runtime \<Rightarrow> ustr \<Rightarrow> ustr \<Rightarrow> ustr \<Rightarrow> ustr \<Rightarrow> ustr \<Rightarrow> step_usage option \<Rightarrow> agent option \<Rightarrow> f64 \<Rightarrow> ('w, pb_message) coroutine" where
  "aio_submit_vote rt session_id voter proposal_id val reason usage credential timeout =
     aio_send_step rt credential ''SeamCoordination/SubmitVote''
       (pb_set_opt
          (Pb ''VoteRequest''
             [(''session_id'', PStr session_id), (''voter'', PStr voter), (''proposal_id'', PStr proposal_id),
              (''value'', PStr val), (''reason'', PStr reason)])
          ''usage'' (usage_field usage))
       timeout"

definition aio_submit_evaluation ::
    "'w runtime \<Rightarrow> ustr \<Rightarrow> ustr \<Rightarrow> ustr \<Rightarrow> ustr \<Rightarrow> f64 option \<Rightarrow> ustr \<Rightarrow> ustr option \<Rightarrow> step_usage option \<Rightarrow> agent option \<Rightarrow> f64 \<Rightarrow>
     ('w, pb_message) coroutine" where
  "aio_submit_evaluation rt session_id evaluator proposal_id recommendation confidence reason rationale_ref usage credential timeout =
     aio_send_step rt credential ''SeamCoordination/SubmitEvaluation''
       (pb_set_opt (pb_set_opt (pb_set_opt
          (Pb ''EvaluationRequest''
             [(''session_id'', PStr session_id), (''evaluator'', PStr evaluator), (''proposal_id'', PStr proposal_id),
              (''recommendation'', PStr recommendation), (''reason'', PStr reason)])
          ''confidence'' (map_option PDouble confidence))
          ''rationale_ref'' (map_option PStr rationale_ref))
          ''usage'' (usage_field usage))
       timeout"

definition aio_submit_objection ::
    "'w runtime \<Rightarrow> ustr \<Rightarrow> ustr \<Rightarrow> ustr \<Rightarrow> ustr \<Rightarrow> ustr \<Rightarrow> step_usage option \<Rightarrow> agent option \<Rightarrow> f64 \<Rightarrow> ('w, pb_message) coroutine" where
  "aio_submit_objection rt session_id objector proposal_id reason severity usage credential timeout =
     aio_send_step rt credential ''SeamCoordination/SubmitObjection''
       (pb_set_opt
          (Pb ''ObjectionRequest''
             [(''session_id'', PStr session_id), (''objector'', PStr objector), (''proposal_id'', PStr proposal_id),
              (''reason'', PStr reason), (''severity'', PStr severity)])
          ''usage'' (usage_field usage))
       timeout"

definition aio_submit_commit ::
    "'w runtime \<Rightarrow> ustr \<Rightarrow> ustr \<Rightarrow> ustr \<Rightarrow> ustr option \<Rightarrow> step_usage option \<Rightarrow> agent option \<Rightarrow> f64 \<Rightarrow> ('w, pb_message) coroutine" where
  "aio_submit_commit rt session_id commitment_id act supersedes usage credential timeout =
     aio_send_step rt credential ''SeamCoordination/SubmitCommit''
       (pb_set_opt (pb_set_opt
          (Pb ''CommitRequest''
             [(''session_id'', PStr session_id), (''commitment_id'', PStr commitment_id), (''action'', PStr act)])
          ''supersedes'' (map_option PStr supersedes))
          ''usage'' (usage_field usage))
       timeout"

definition aio_submit_approval_request ::
    "'w runtime \<Rightarrow> ustr \<Rightarrow> ustr \<Rightarrow> ustr \<Rightarrow> ustr \<Rightarrow> pyval \<Rightarrow> step_usage option \<Rightarrow> agent option \<Rightarrow> f64 \<Rightarrow> ('w, pb_message) coroutine" where
  "aio_submit_approval_request rt session_id requester request_id act required_approvals usage credential timeout =
     abind (alift_py (u32 required_approvals)) (\<lambda>n.
     aio_send_step rt credential ''SeamCoordination/SubmitApprovalRequest''
       (pb_set_opt
          (Pb ''ApprovalRequestRequest''
             [(''session_id'', PStr session_id), (''requester'', PStr requester), (''request_id'', PStr request_id),
              (''action'', PStr act), (''required_approvals'', PInt n)])
          ''usage'' (usage_field usage))
       timeout)"

definition aio_submit_ballot ::
    "'w runtime \<Rightarrow> ustr \<Rightarrow> ustr \<Rightarrow> ustr \<Rightarrow> int \<Rightarrow> ustr \<Rightarrow> step_usage option \<Rightarrow> agent option \<Rightarrow> f64 \<Rightarrow> ('w, pb_message) coroutine" where
  "aio_submit_ballot rt session_id voter request_id choice reason usage credential timeout =
     aio_send_step rt credential ''SeamCoordination/SubmitBallot''
       (pb_set_opt
          (Pb ''BallotRequest''
             [(''session_id'', PStr session_id), (''voter'', PStr voter), (''request_id'', PStr request_id),
              (''choice'', PInt choice), (''reason'', PStr reason)])
          ''usage'' (usage_field usage))
       timeout"

definition aio_resume_session :: "'w runtime \<Rightarrow> ustr \<Rightarrow> int \<Rightarrow> budget_limits option \<Rightarrow> f64 \<Rightarrow> ('w, pb_message) coroutine" where
  "aio_resume_session rt session_id budget raise_limits timeout =
     aio_stub rt ''SeamCoordination/ResumeSession''
       (pb_set_opt (Pb ''ResumeRequest'' [(''session_id'', PStr session_id), (''budget'', PInt budget)])
          ''raise'' (map_option (\<lambda>l. PMsg (limits_to_pb l)) raise_limits))
       None timeout"

definition aio_cancel_session :: "'w runtime \<Rightarrow> ustr \<Rightarrow> agent option \<Rightarrow> f64 \<Rightarrow> ('w, pb_message) coroutine" where
  "aio_cancel_session rt session_id credential timeout =
     aio_send_once rt credential ''SeamCoordination/CancelSession'' (session_ref session_id) timeout"

definition aio_expire_session :: "'w runtime \<Rightarrow> ustr \<Rightarrow> agent option \<Rightarrow> f64 \<Rightarrow> ('w, pb_message) coroutine" where
  "aio_expire_session rt session_id credential timeout =
     aio_send_once rt credential ''SeamCoordination/ExpireSession'' (session_ref session_id) timeout"

definition aio_session_status :: "'w runtime \<Rightarrow> ustr \<Rightarrow> agent option \<Rightarrow> f64 \<Rightarrow> ('w, pb_message) coroutine" where
  "aio_session_status rt session_id credential timeout =
     aio_send_read rt credential ''SeamCoordination/SessionStatus'' session_id (session_ref session_id) timeout"

definition aio_get_decision :: "'w runtime \<Rightarrow> ustr \<Rightarrow> agent option \<Rightarrow> f64 \<Rightarrow> ('w, pb_message) coroutine" where
  "aio_get_decision rt d credential timeout =
     aio_send_read rt credential ''SeamCoordination/GetDecision'' d (decision_ref d) timeout"

definition aio_replay_decision :: "'w runtime \<Rightarrow> ustr \<Rightarrow> agent option \<Rightarrow> f64 \<Rightarrow> ('w, pb_message) coroutine" where
  "aio_replay_decision rt d credential timeout =
     aio_send_read rt credential ''SeamCoordination/ReplayDecision'' d (decision_ref d) timeout"

definition aio_get_commitment_proof :: "'w runtime \<Rightarrow> ustr \<Rightarrow> agent option \<Rightarrow> f64 \<Rightarrow> ('w, pb_message) coroutine" where
  "aio_get_commitment_proof rt d credential timeout =
     aio_send_read rt credential ''SeamCoordination/GetCommitmentProof'' d (decision_ref d) timeout"

definition aio_get_escalation :: "'w runtime \<Rightarrow> ustr \<Rightarrow> agent option \<Rightarrow> f64 \<Rightarrow> ('w, pb_message) coroutine" where
  "aio_get_escalation rt authorize_id credential timeout =
     aio_send_read rt credential ''SeamAuthorization/GetEscalation'' authorize_id
       (Pb ''EscalationRef'' [(''authorize_id'', PStr authorize_id)]) timeout"

definition aio_who_am_i :: "'w runtime \<Rightarrow> agent option \<Rightarrow> f64 \<Rightarrow> ('w, pb_message) coroutine" where
  "aio_who_am_i rt credential timeout = aio_send_read rt credential ''SeamTrust/WhoAmI'' [] (Pb ''Empty'' []) timeout"

definition aio_report_outcome ::
    "'w runtime \<Rightarrow> ustr \<Rightarrow> bool \<Rightarrow> ustr option \<Rightarrow> pyval \<Rightarrow> pyval \<Rightarrow> pyval \<Rightarrow> observed_at option \<Rightarrow> agent option \<Rightarrow> f64 \<Rightarrow>
     ('w, bool) coroutine" where
  "aio_report_outcome rt d correct verified_by idempotency_key reward metrics observed credential timeout =
     abind (alift_py (check_idempotency_key idempotency_key)) (\<lambda>key.
     abind (alift_py (check_outcome_fields reward metrics observed)) (\<lambda>fs.
     let req = pb_set_opt
                 (set_outcome_fields
                    (Pb ''ReportOutcomeRequest''
                       [(''decision_id'', PStr d), (''correct'', PBool correct), (''idempotency_key'', PStr key)]) fs)
                 ''verified_by'' (map_option PStr verified_by)
     in abind (aio_send_step rt credential ''SeamCoordination/ReportOutcome'' req timeout) (\<lambda>resp.
        aret (get_bool resp ''recorded''))))"

definition aio_register_context ::
    "'w runtime \<Rightarrow> bytes \<Rightarrow> ustr \<Rightarrow> ustr list option \<Rightarrow> agent option \<Rightarrow> f64 \<Rightarrow> ('w, ustr) coroutine" where
  "aio_register_context rt content fidelity derived_from credential timeout =
     abind (aio_send_step rt credential ''SeamContext/RegisterContext''
                (Pb ''RegisterContextRequest''
                   [(''content'', PBytes content), (''fidelity'', PStr fidelity),
                    (''derived_from'', PStrs (case derived_from of None \<Rightarrow> [] | Some xs \<Rightarrow> xs))])
                timeout) (\<lambda>resp.
     aret (get_str resp ''content_ref''))"

definition aio_resolve_context :: "'w runtime \<Rightarrow> ustr list \<Rightarrow> agent option \<Rightarrow> f64 \<Rightarrow> ('w, pb_message list) coroutine" where
  "aio_resolve_context rt refs credential timeout =
     abind (aio_send_step rt credential ''SeamContext/ResolveContext'' (Pb ''ResolveContextRequest'' [(''refs'', PStrs refs)]) timeout)
       (\<lambda>resp. aret (get_msgs resp ''bindings''))"

definition aio_issuer_aid :: "'w runtime \<Rightarrow> f64 \<Rightarrow> ('w, ustr) coroutine" where
  "aio_issuer_aid rt timeout =
     abind (aio_stub rt ''SeamTrust/IssuerAid'' (Pb ''Empty'' []) None timeout) (\<lambda>r. aret (get_str r ''issuer_aid''))"

definition aio_server_info :: "'w runtime \<Rightarrow> f64 \<Rightarrow> ('w, ustr) coroutine" where
  "aio_server_info rt timeout =
     abind (aio_stub rt ''SeamTrust/ServerInfo'' (Pb ''Empty'' []) None timeout) (\<lambda>r. aret (get_str r ''runtime_version''))"

definition aio_server_wire_features :: "'w runtime \<Rightarrow> f64 \<Rightarrow> ('w, ustr list) coroutine" where
  "aio_server_wire_features rt timeout =
     abind (aio_stub rt ''SeamTrust/ServerInfo'' (Pb ''Empty'' []) None timeout) (\<lambda>r. aret (get_strs r ''wire_features''))"

definition aio_verify_commitment :: "'w runtime \<Rightarrow> pb_message \<Rightarrow> bytes \<Rightarrow> f64 \<Rightarrow> ('w, bool) coroutine" where
  "aio_verify_commitment rt commitment signed_artifact timeout =
     abind (aio_stub rt ''SeamTrust/VerifyCommitment''
                (Pb ''VerifyCommitmentRequest'' [(''commitment'', PMsg commitment), (''signed_artifact'', PBytes signed_artifact)])
                None timeout) (\<lambda>r. aret (get_bool r ''valid''))"

definition aio_verify_party_anchor :: "'w runtime \<Rightarrow> ustr \<Rightarrow> pb_message \<Rightarrow> ustr \<Rightarrow> f64 \<Rightarrow> ('w, bool) coroutine" where
  "aio_verify_party_anchor rt party_id anchor tenant timeout =
     abind (aio_stub rt ''SeamTrust/VerifyPartyAnchor''
                (Pb ''VerifyAnchorRequest'' [(''party_id'', PStr party_id), (''anchor'', PMsg anchor), (''tenant'', PStr tenant)])
                None timeout) (\<lambda>r. aret (get_bool r ''valid''))"

definition aio_verify_party_attestation :: "'w runtime \<Rightarrow> ustr \<Rightarrow> pb_message \<Rightarrow> f64 \<Rightarrow> ('w, bool) coroutine" where
  "aio_verify_party_attestation rt party_id attestation timeout =
     abind (aio_stub rt ''SeamTrust/VerifyPartyAttestation''
                (Pb ''VerifyAttestationRequest'' [(''party_id'', PStr party_id), (''attestation'', PMsg attestation)])
                None timeout) (\<lambda>r. aret (get_bool r ''valid''))"

definition aio_verify_decision ::
    "'w runtime \<Rightarrow> explanation_consts \<Rightarrow> ustr \<Rightarrow> ustr \<Rightarrow> agent option \<Rightarrow> f64 \<Rightarrow> ('w, bool) coroutine" where
  "aio_verify_decision rt k d expected_issuer credential timeout =
     abind (aio_get_commitment_proof rt d credential timeout) (\<lambda>proof.
     if get_str proof ''issuer_aid'' \<noteq> expected_issuer then
       araise (IssuerMismatchError (get_str proof ''issuer_aid'') expected_issuer)
     else
       let c = get_msg proof ''commitment'' in
       abind (alift_py (utf8_decode (get_bytes c ''signed_artifact''))) (\<lambda>artifact.
       abind (anow_s rt) (\<lambda>clock.
       aret (verify_tct (rt_ed rt) (rt_depth rt) clock expected_issuer artifact (commitment_view k c) None))))"

section \<open>Left alone, a coroutine is its blocking twin\<close>

definition agrees :: "('w, 'a) coroutine \<Rightarrow> ('w, 'a) client_action \<Rightarrow> bool" where
  "agrees c m \<longleftrightarrow> (\<forall>s. c (s, None) = (case m s of (r, s') \<Rightarrow> (map_sum Failed id r, (s', None))))"

named_theorems twins

lemma agrees_run [twins]: "agrees (run_sync m) m" "agrees (awaiting m) m"
  by (auto simp: agrees_def run_sync_def awaiting_def split: prod.splits sum.splits)

lemma agrees_atoms [twins]:
  "agrees (aret x) (ret x)" "agrees (araise e) (raise e)" "agrees (alift r) (lift r)" "agrees (alift_py q) (lift_py q)"
  "agrees (anow_ms rt) (now_ms rt)" "agrees (anow_s rt) (now_s rt)" "agrees acquire (ret ())"
  "agrees (aio_stub rt rpc req md timeout) (stub rt rpc req md timeout)"
  unfolding aret_def araise_def alift_def alift_py_def anow_ms_def anow_s_def acquire_def aio_stub_def by (rule agrees_run)+

lemma agrees_bind [twins]: "agrees c m \<Longrightarrow> (\<And>x. agrees (f x) (g x)) \<Longrightarrow> agrees (abind c f) (andthen m g)"
  by (auto simp: agrees_def abind_def andthen_def split: prod.splits sum.splits)

lemma agrees_handle [twins]: "agrees c m \<Longrightarrow> (\<And>e. agrees (h e) (g e)) \<Longrightarrow> agrees (ahandle c h) (handle m g)"
  by (auto simp: agrees_def ahandle_def handle_def split: prod.splits sum.splits)

lemma agrees_let [twins]: "(\<And>x. agrees (f x) (g x)) \<Longrightarrow> agrees (let x = v in f x) (let x = v in g x)"
  by (simp add: Let_def)

lemma agrees_if [twins]: "agrees c m \<Longrightarrow> agrees d n \<Longrightarrow> agrees (if b then c else d) (if b then m else n)"
  by simp

lemma agrees_option [twins]:
  "agrees c m \<Longrightarrow> (\<And>x. agrees (f x) (g x)) \<Longrightarrow>
   agrees (case v of None \<Rightarrow> c | Some x \<Rightarrow> f x) (case v of None \<Rightarrow> m | Some x \<Rightarrow> g x)"
  by (simp split: option.split)

text \<open>Taking the lock changes nothing: the cache read under it is the one first read.\<close>

lemma cache_read_twice: "andthen (cache_and_lock aid) (\<lambda>_. andthen (ret ()) (\<lambda>_. andthen (cache_and_lock aid) f)) = andthen (cache_and_lock aid) f"
  by (rule ext) (simp add: cache_and_lock_def action_defs split: option.split)

lemma agrees_cache [twins]: "agrees (aio_cache_and_lock aid) (cache_and_lock aid)"
proof -
  have "agrees (aio_cache_and_lock aid) (andthen (ret ()) (\<lambda>_. cache_and_lock aid))"
    unfolding aio_cache_and_lock_def by (intro twins)
  then show ?thesis by (simp add: agrees_def andthen_def ret_def)
qed

lemma agrees_locked [twins]:
  assumes "\<And>x. agrees (body x) (f x)" shows "agrees (aio_locked aid body) (andthen (cache_and_lock aid) f)"
proof -
  have "agrees (aio_locked aid body) (andthen (cache_and_lock aid) (\<lambda>_. andthen (ret ()) (\<lambda>_. andthen (cache_and_lock aid) f)))"
    unfolding aio_locked_def by (intro twins assms)
  then show ?thesis unfolding cache_read_twice .
qed

lemma agrees_presentation [twins]: "agrees (aio_presentation rt a timeout) (agent_presentation rt a timeout)"
  unfolding aio_presentation_def agent_presentation_def by (intro twins)

lemma agrees_admit_locked [twins]: "agrees (aio_admit_locked rt a aid timeout) (admit_locked rt a aid timeout)"
  unfolding aio_admit_locked_def admit_locked_def by (intro twins)

lemma agrees_tickets [twins]:
  "agrees (aio_admit rt a timeout) (admit rt a timeout)" "agrees (aio_ticket_for rt a timeout) (ticket_for rt a timeout)"
  "agrees (aio_refresh_ticket rt a failed timeout) (refresh_ticket rt a failed timeout)"
  "agrees (aio_invalidate_ticket rt a failed) (invalidate_ticket rt a failed)"
  unfolding aio_admit_def admit_def aio_ticket_for_def ticket_for_def aio_refresh_ticket_def refresh_ticket_def
    aio_invalidate_ticket_def invalidate_ticket_def by (intro twins)+

lemma agrees_guarded_send [twins]:
  assumes "\<And>md. agrees (send md) (send' md)" "\<And>e. agrees (h e) (h' e)"
  shows "agrees (aio_guarded_send rt a ticket full rid body send h) (guarded_send rt a ticket full rid body send' h')"
  unfolding aio_guarded_send_def guarded_send_def signed_send_def burned_def aio_forget_burned_ticket_def forget_burned_ticket_def
  by (intro twins assms)

lemma agrees_calls [twins]:
  assumes "\<And>md. agrees (send md) (send' md)"
  shows "agrees (aio_signed_once rt credential full rid body send timeout) (signed_once rt credential full rid body send' timeout)"
    "agrees (aio_credentialed_call rt credential full rid body send timeout retry) (credentialed_call rt credential full rid body send' timeout retry)"
  unfolding aio_signed_once_def signed_once_def aio_credentialed_call_def credentialed_call_def aio_signer_def signer_def
  by (intro twins assms)+

lemma agrees_send [twins]:
  "agrees (aio_send_step rt credential rpc req timeout) (send_step rt credential rpc req timeout)"
  "agrees (aio_send_read rt credential rpc rid req timeout) (send_read rt credential rpc rid req timeout)"
  "agrees (aio_send_once rt credential rpc req timeout) (send_once rt credential rpc req timeout)"
  unfolding aio_send_step_def send_step_def aio_send_read_def send_read_def aio_send_once_def send_once_def by (intro twins)+

lemma agrees_proof [twins]:
  "agrees (aio_get_commitment_proof rt d credential timeout) (get_commitment_proof rt d credential timeout)"
  unfolding aio_get_commitment_proof_def get_commitment_proof_def by (intro twins)

lemma agrees_steps:
  "agrees (aio_run_decision rt a session_id participants votes features on_behalf_of timeout) (run_decision rt a session_id participants votes features on_behalf_of timeout)"
  "agrees (aio_open_session rt a session_id participants budget limits mode on_behalf_of credential timeout) (open_session rt a session_id participants budget limits mode on_behalf_of credential timeout)"
  "agrees (aio_submit_proposal rt session_id proposer proposal_id opt usage credential timeout) (submit_proposal rt session_id proposer proposal_id opt usage credential timeout)"
  "agrees (aio_submit_vote rt session_id voter proposal_id val reason usage credential timeout) (submit_vote rt session_id voter proposal_id val reason usage credential timeout)"
  "agrees (aio_submit_evaluation rt session_id evaluator proposal_id recommendation confidence reason rationale_ref usage credential timeout) (submit_evaluation rt session_id evaluator proposal_id recommendation confidence reason rationale_ref usage credential timeout)"
  "agrees (aio_submit_objection rt session_id objector proposal_id reason severity usage credential timeout) (submit_objection rt session_id objector proposal_id reason severity usage credential timeout)"
  "agrees (aio_submit_commit rt session_id commitment_id act supersedes usage credential timeout) (submit_commit rt session_id commitment_id act supersedes usage credential timeout)"
  "agrees (aio_submit_approval_request rt session_id requester request_id act required_approvals usage credential timeout) (submit_approval_request rt session_id requester request_id act required_approvals usage credential timeout)"
  "agrees (aio_submit_ballot rt session_id voter request_id choice reason usage credential timeout) (submit_ballot rt session_id voter request_id choice reason usage credential timeout)"
  unfolding aio_run_decision_def run_decision_def aio_open_session_def open_session_def aio_submit_proposal_def submit_proposal_def aio_submit_vote_def submit_vote_def aio_submit_evaluation_def submit_evaluation_def aio_submit_objection_def submit_objection_def aio_submit_commit_def submit_commit_def aio_submit_approval_request_def submit_approval_request_def aio_submit_ballot_def submit_ballot_def
  by (intro twins)+

lemma agrees_reads:
  "agrees (aio_resume_session rt session_id budget raise_limits timeout) (resume_session rt session_id budget raise_limits timeout)"
  "agrees (aio_cancel_session rt session_id credential timeout) (cancel_session rt session_id credential timeout)"
  "agrees (aio_expire_session rt session_id credential timeout) (expire_session rt session_id credential timeout)"
  "agrees (aio_session_status rt session_id credential timeout) (session_status rt session_id credential timeout)"
  "agrees (aio_get_decision rt d credential timeout) (get_decision rt d credential timeout)"
  "agrees (aio_replay_decision rt d credential timeout) (replay_decision rt d credential timeout)"
  "agrees (aio_get_escalation rt authorize_id credential timeout) (get_escalation rt authorize_id credential timeout)"
  "agrees (aio_who_am_i rt credential timeout) (who_am_i rt credential timeout)"
  "agrees (aio_report_outcome rt d correct verified_by idempotency_key reward metrics observed credential timeout) (report_outcome rt d correct verified_by idempotency_key reward metrics observed credential timeout)"
  unfolding aio_resume_session_def resume_session_def aio_cancel_session_def cancel_session_def aio_expire_session_def expire_session_def aio_session_status_def session_status_def aio_get_decision_def get_decision_def aio_replay_decision_def replay_decision_def aio_get_escalation_def get_escalation_def aio_who_am_i_def who_am_i_def aio_report_outcome_def report_outcome_def
  by (intro twins)+

lemma agrees_trust:
  "agrees (aio_register_context rt content fidelity derived_from credential timeout) (register_context rt content fidelity derived_from credential timeout)"
  "agrees (aio_resolve_context rt refs credential timeout) (resolve_context rt refs credential timeout)"
  "agrees (aio_issuer_aid rt timeout) (issuer_aid rt timeout)"
  "agrees (aio_server_info rt timeout) (server_info rt timeout)"
  "agrees (aio_server_wire_features rt timeout) (server_wire_features rt timeout)"
  "agrees (aio_verify_commitment rt commitment signed_artifact timeout) (verify_commitment rt commitment signed_artifact timeout)"
  "agrees (aio_verify_party_anchor rt party_id anchor tenant timeout) (verify_party_anchor rt party_id anchor tenant timeout)"
  "agrees (aio_verify_party_attestation rt party_id attestation timeout) (verify_party_attestation rt party_id attestation timeout)"
  "agrees (aio_verify_decision rt k d expected_issuer credential timeout) (verify_decision rt k d expected_issuer credential timeout)"
  unfolding aio_register_context_def register_context_def aio_resolve_context_def resolve_context_def aio_issuer_aid_def issuer_aid_def aio_server_info_def server_info_def aio_server_wire_features_def server_wire_features_def aio_verify_commitment_def verify_commitment_def aio_verify_party_anchor_def verify_party_anchor_def aio_verify_party_attestation_def verify_party_attestation_def aio_verify_decision_def verify_decision_def
  by (intro twins)+

lemma andthen_assoc: "andthen (andthen m f) g = andthen m (\<lambda>x. andthen (f x) g)"
  by (rule ext) (simp add: andthen_def split: prod.split sum.split)

lemma agrees_authorize: "agrees (aio_authorize rt k a args timeout) (authorize rt k a args timeout)"
  unfolding aio_authorize_def authorize_def ticket_for_def Let_def andthen_assoc [of "lift_py q" for q]
  by (intro twins)

text \<open>C2: Every verb of the asynchronous client does exactly what its blocking twin does when its task is not
  cancelled: from the same state and against the same server it makes the same calls with the same
  requests, leaves the same ticket caches, and returns or raises the same.\<close>

theorem aio_twins:
  "agrees (aio_admit rt a timeout) (admit rt a timeout) \<and>
   agrees (aio_authorize rt kv a args timeout) (authorize rt kv a args timeout) \<and>
   agrees (aio_run_decision rt a session_id participants votes features on_behalf_of timeout) (run_decision rt a session_id participants votes features on_behalf_of timeout) \<and>
   agrees (aio_open_session rt a session_id participants budget limits mode on_behalf_of credential timeout) (open_session rt a session_id participants budget limits mode on_behalf_of credential timeout) \<and>
   agrees (aio_submit_proposal rt session_id proposer proposal_id opt usage credential timeout) (submit_proposal rt session_id proposer proposal_id opt usage credential timeout) \<and>
   agrees (aio_submit_vote rt session_id voter proposal_id val reason usage credential timeout) (submit_vote rt session_id voter proposal_id val reason usage credential timeout) \<and>
   agrees (aio_submit_evaluation rt session_id evaluator proposal_id recommendation confidence reason rationale_ref usage credential timeout) (submit_evaluation rt session_id evaluator proposal_id recommendation confidence reason rationale_ref usage credential timeout) \<and>
   agrees (aio_submit_objection rt session_id objector proposal_id reason severity usage credential timeout) (submit_objection rt session_id objector proposal_id reason severity usage credential timeout) \<and>
   agrees (aio_submit_commit rt session_id commitment_id act supersedes usage credential timeout) (submit_commit rt session_id commitment_id act supersedes usage credential timeout) \<and>
   agrees (aio_submit_approval_request rt session_id requester request_id act required_approvals usage credential timeout) (submit_approval_request rt session_id requester request_id act required_approvals usage credential timeout) \<and>
   agrees (aio_submit_ballot rt session_id voter request_id choice reason usage credential timeout) (submit_ballot rt session_id voter request_id choice reason usage credential timeout) \<and>
   agrees (aio_resume_session rt session_id budget raise_limits timeout) (resume_session rt session_id budget raise_limits timeout) \<and>
   agrees (aio_cancel_session rt session_id credential timeout) (cancel_session rt session_id credential timeout) \<and>
   agrees (aio_expire_session rt session_id credential timeout) (expire_session rt session_id credential timeout) \<and>
   agrees (aio_session_status rt session_id credential timeout) (session_status rt session_id credential timeout) \<and>
   agrees (aio_get_decision rt d credential timeout) (get_decision rt d credential timeout) \<and>
   agrees (aio_replay_decision rt d credential timeout) (replay_decision rt d credential timeout) \<and>
   agrees (aio_get_commitment_proof rt d credential timeout) (get_commitment_proof rt d credential timeout) \<and>
   agrees (aio_get_escalation rt authorize_id credential timeout) (get_escalation rt authorize_id credential timeout) \<and>
   agrees (aio_who_am_i rt credential timeout) (who_am_i rt credential timeout) \<and>
   agrees (aio_report_outcome rt d correct verified_by idempotency_key reward metrics observed credential timeout) (report_outcome rt d correct verified_by idempotency_key reward metrics observed credential timeout) \<and>
   agrees (aio_register_context rt content fidelity derived_from credential timeout) (register_context rt content fidelity derived_from credential timeout) \<and>
   agrees (aio_resolve_context rt refs credential timeout) (resolve_context rt refs credential timeout) \<and>
   agrees (aio_issuer_aid rt timeout) (issuer_aid rt timeout) \<and>
   agrees (aio_server_info rt timeout) (server_info rt timeout) \<and>
   agrees (aio_server_wire_features rt timeout) (server_wire_features rt timeout) \<and>
   agrees (aio_verify_commitment rt commitment signed_artifact timeout) (verify_commitment rt commitment signed_artifact timeout) \<and>
   agrees (aio_verify_party_anchor rt party_id anchor tenant timeout) (verify_party_anchor rt party_id anchor tenant timeout) \<and>
   agrees (aio_verify_party_attestation rt party_id attestation timeout) (verify_party_attestation rt party_id attestation timeout) \<and>
   agrees (aio_verify_decision rt k d expected_issuer credential timeout) (verify_decision rt k d expected_issuer credential timeout)"
  by (intro conjI agrees_tickets agrees_authorize agrees_proof agrees_steps agrees_reads agrees_trust)

section \<open>Cancelled anywhere, the caches stay consistent\<close>

definition keeps_task :: "(client \<Rightarrow> client \<Rightarrow> bool) \<Rightarrow> ('w, 'a) coroutine \<Rightarrow> bool" where
  "keeps_task R c \<longleftrightarrow> (\<forall>s n. R (io_client s) (io_client (fst (snd (c (s, n))))))"

context client_relation
begin

lemma keeps_run: "keeps R m \<Longrightarrow> keeps_task R (run_sync m)"
  by (auto simp: keeps_def keeps_task_def run_sync_def split: prod.splits sum.splits) (metis snd_conv)+

lemma keeps_await: "keeps R m \<Longrightarrow> keeps_task R (awaiting m)"
  using keeps_run by (auto simp: keeps_def keeps_task_def awaiting_def split: option.splits nat.splits)

lemma keeps_abind:
  assumes "keeps_task R c" "\<And>x. keeps_task R (f x)" shows "keeps_task R (abind c f)"
  unfolding keeps_task_def
proof (intro allI)
  fix s n
  obtain r s' n' where c: "c (s, n) = (r, (s', n'))" by (metis surj_pair)
  have "R (io_client s) (io_client s')" using assms(1) c unfolding keeps_task_def by (metis fst_conv snd_conv)
  moreover have "R (io_client s') (io_client (fst (snd (f x (s', n')))))" for x using assms(2) unfolding keeps_task_def by blast
  ultimately show "R (io_client s) (io_client (fst (snd (abind c f (s, n)))))"
    using R_trans by (cases r) (auto simp: abind_def c)
qed

lemma keeps_ahandle:
  assumes "keeps_task R c" "\<And>e. keeps_task R (h e)" shows "keeps_task R (ahandle c h)"
  unfolding keeps_task_def
proof (intro allI)
  fix s n
  obtain r s' n' where c: "c (s, n) = (r, (s', n'))" by (metis surj_pair)
  have "R (io_client s) (io_client s')" using assms(1) c unfolding keeps_task_def by (metis fst_conv snd_conv)
  moreover have "R (io_client s') (io_client (fst (snd (h e (s', n')))))" for e using assms(2) unfolding keeps_task_def by blast
  ultimately show "R (io_client s) (io_client (fst (snd (ahandle c h (s, n)))))"
    using R_trans by (cases r) (auto simp: ahandle_def c split: aio_exn.split)
qed

lemma keeps_atoms:
  "keeps_task R (aret x)" "keeps_task R (araise e)" "keeps_task R (alift r)" "keeps_task R (alift_py q)"
  "keeps_task R (anow_ms rt)" "keeps_task R acquire" "keeps_task R (aio_stub rt rpc req md timeout)"
  unfolding aret_def araise_def alift_def alift_py_def anow_ms_def acquire_def aio_stub_def
  by (intro keeps_run keeps_await keeps_rules)+

lemmas keeps_task_rules = keeps_atoms keeps_abind keeps_ahandle

end

lemma abind_lift_py: "abind (alift_py (Inr x)) f = f x"
  by (rule ext) (simp add: abind_def alift_py_def run_sync_def action_defs split: prod.split)

lemma abind_get_client: "abind (run_sync get_client) f (s, n) = f (io_client s) (s, n)"
  by (simp add: abind_def run_sync_def get_client_def)

lemma aio_acts_cache: "keeps_task (acts_for aid) (run_sync (cache_and_lock aid))" "keeps_task (acts_for aid) (aio_cache_and_lock aid)"
  unfolding aio_cache_and_lock_def by (intro act.keeps_task_rules act.keeps_run acts_cache)+

lemma aio_acts_locked: "(\<And>c. keeps_task (acts_for aid) (body c)) \<Longrightarrow> keeps_task (acts_for aid) (aio_locked aid body)"
  unfolding aio_locked_def by (intro act.keeps_task_rules aio_acts_cache)

lemma aio_acts_admit_locked: "keeps_task (acts_for aid) (aio_admit_locked rt a aid timeout)"
  unfolding aio_admit_locked_def aio_presentation_def by (intro act.keeps_task_rules act.keeps_run acts_update cache_ok_ops)

lemma aio_acts_tickets:
  assumes "agent_aid (rt_ed rt) a = Inr aid"
  shows "keeps_task (acts_for aid) (aio_admit rt a timeout)" "keeps_task (acts_for aid) (aio_ticket_for rt a timeout)"
    "keeps_task (acts_for aid) (aio_refresh_ticket rt a failed timeout)" "keeps_task (acts_for aid) (aio_invalidate_ticket rt a failed)"
  unfolding aio_admit_def aio_ticket_for_def aio_refresh_ticket_def aio_invalidate_ticket_def Let_def assms abind_lift_py
  by (auto split: option.split intro!: act.keeps_task_rules aio_acts_locked aio_acts_admit_locked act.keeps_run acts_update cache_ok_ops)

lemma aio_acts_guarded_send:
  assumes "agent_aid (rt_ed rt) a = Inr aid" "\<And>md. keeps_task (acts_for aid) (send md)" "\<And>e. keeps_task (acts_for aid) (h e)"
  shows "keeps_task (acts_for aid) (aio_guarded_send rt a ticket full rid body send h)"
  unfolding aio_guarded_send_def aio_forget_burned_ticket_def
  using assms by (auto intro!: act.keeps_task_rules aio_acts_tickets)

lemma aio_acts_authorize:
  assumes "agent_aid (rt_ed rt) a = Inr aid" shows "keeps_task (acts_for aid) (aio_authorize rt k a args timeout)"
  unfolding aio_authorize_def Let_def assms abind_lift_py
  using assms by (auto split: option.split intro!: act.keeps_task_rules aio_acts_tickets aio_acts_locked aio_acts_admit_locked)

text \<open>A task that acts as agent \<open>a\<close>, cancelled or not.\<close>

inductive task_step ::
    "'w runtime \<Rightarrow> authorize_consts \<Rightarrow> agent \<Rightarrow> (client, 'w) io \<times> nat option \<Rightarrow> (client, 'w) io \<times> nat option \<Rightarrow> bool" for rt k a where
  aio_admitted: "task_step rt k a t (snd (aio_admit rt a timeout t))"
| aio_authorized: "task_step rt k a t (snd (aio_authorize rt k a args timeout t))"
| aio_called: "aio_signer (io_client (fst t)) credential = Some a \<Longrightarrow>
    task_step rt k a t (snd (aio_credentialed_call rt credential full rid body (\<lambda>md. aio_stub rt rpc req md timeout) timeout retry t))"
| aio_called_once: "aio_signer (io_client (fst t)) credential = Some a \<Longrightarrow>
    task_step rt k a t (snd (aio_signed_once rt credential full rid body (\<lambda>md. aio_stub rt rpc req md timeout) timeout t))"

lemma task_step_acts:
  assumes "task_step rt k a t t'" "agent_aid (rt_ed rt) a = Inr aid"
  shows "acts_for aid (io_client (fst t)) (io_client (fst t'))"
  using assms(1)
proof cases
  case (aio_admitted timeout)
  then show ?thesis using aio_acts_tickets(1) [OF assms(2), of timeout] by (cases t) (auto simp: keeps_task_def)
next
  case (aio_authorized args timeout)
  then show ?thesis using aio_acts_authorize [OF assms(2), of k args timeout] by (cases t) (auto simp: keeps_task_def)
next
  case (aio_called credential full rid body rpc req timeout retry)
  have "keeps_task (acts_for aid) (abind (aio_ticket_for rt a timeout) (\<lambda>ticket.
      aio_guarded_send rt a ticket full rid body (\<lambda>md. aio_stub rt rpc req md timeout) (\<lambda>e.
        if has_class [UnauthenticatedError] e then
          (if \<not> retry then abind (aio_invalidate_ticket rt a ticket) (\<lambda>_. araise e)
           else abind (aio_refresh_ticket rt a ticket timeout) (\<lambda>t. aio_guarded_send rt a t full rid body (\<lambda>md. aio_stub rt rpc req md timeout) araise))
        else araise e)))"
    using assms(2) by (auto intro!: act.keeps_task_rules aio_acts_tickets aio_acts_guarded_send)
  with aio_called show ?thesis
    by (cases t) (auto simp: keeps_task_def aio_credentialed_call_def abind_get_client)
next
  case (aio_called_once credential full rid body rpc req timeout)
  have "keeps_task (acts_for aid) (abind (aio_ticket_for rt a timeout) (\<lambda>ticket.
      aio_guarded_send rt a ticket full rid body (\<lambda>md. aio_stub rt rpc req md timeout) araise))"
    using assms(2) by (auto intro!: act.keeps_task_rules aio_acts_tickets aio_acts_guarded_send)
  with aio_called_once show ?thesis
    by (cases t) (auto simp: keeps_task_def aio_signed_once_def abind_get_client)
qed

lemma aio_admit_locked_fails:
  assumes "aio_admit_locked rt a aid timeout (s, n) = (Inl e, (s', n'))" shows "io_client s' = io_client s"
proof -
  have quiet: "io_client s' = io_client s" if "awaiting (stub rt rpc req md timeout) (s, n) = (r, (s', n'))" for rpc req md s n r s' n'
    using that by (auto simp: awaiting_def run_sync_def stub_def Let_def split: option.splits nat.splits prod.splits sum.splits)
  have now: "io_client s' = io_client s" if "anow_ms rt (s, n) = (r, (s', n'))" for s n r s' n'
    using that by (auto simp: anow_ms_def run_sync_def now_ms_def Let_def split: prod.splits sum.splits)
  have pres: "io_client s' = io_client s" if "aio_presentation rt a timeout (s, n) = (r, (s', n'))" for s n r s' n'
    using that quiet now
    by (auto simp: aio_presentation_def aio_stub_def abind_def aret_def alift_py_def run_sync_def action_defs split: prod.splits sum.splits)
  from assms show ?thesis
    unfolding aio_admit_locked_def aio_stub_def abind_def
    by (auto simp: aret_def run_sync_def update_cache_def action_defs split: prod.splits sum.splits dest!: pres quiet now)
qed

lemma locked_run:
  assumes "aio_locked aid body (s, n) = (r, (s', n'))"
  obtains (stopped) e where "r = Inl e" "held s' aid = held s aid" "io_log s' = io_log s"
    | (entered) u m where "body (held s aid) (u, m) = (r, (s', n'))" "held u aid = held s aid" "io_log u = io_log s"
proof -
  obtain u where u: "\<And>k. run_sync (cache_and_lock aid) (s, k) = (Inr (held s aid), (u, k))"
    "\<And>k. run_sync (cache_and_lock aid) (u, k) = (Inr (held s aid), (u, k))" "held u aid = held s aid" "io_log u = io_log s"
    by (cases "cl_tickets (io_client s) aid") (auto simp: run_sync_def cache_and_lock_def action_defs held_def)
  have acq: "acquire (v, k) = (case k of None \<Rightarrow> (Inr (), (v, None)) | Some 0 \<Rightarrow> (Inl CancelledError, (v, None)) | Some (Suc j) \<Rightarrow> (Inr (), (v, Some j)))" for v k
    by (simp add: acquire_def awaiting_def run_sync_def ret_def split: option.split nat.split)
  consider "n = None" | "n = Some 0" | "n = Some 1" | j where "n = Some (Suc (Suc j))" by (metis One_nat_def not0_implies_Suc option.exhaust)
  then show thesis
    using assms u stopped entered by cases (auto simp: aio_locked_def aio_cache_and_lock_def abind_def acq)
qed

lemma refresh_fails:
  assumes aid: "agent_aid (rt_ed rt) a = Inr aid" and run: "aio_refresh_ticket rt a failed timeout (s, n) = (Inl e, (s', n'))"
  shows "held s' aid = held s aid \<and> io_log s' = io_log s \<or> tc_ticket (held s' aid) = None \<and> tc_refresh_at_ms (held s' aid) = 0"
proof -
  from run [unfolded aio_refresh_ticket_def aid abind_lift_py] show ?thesis
  proof (cases rule: locked_run)
    case (entered u m)
    obtain now v where v: "anow_ms rt (u, m) = (Inr now, (v, m))" "io_client v = io_client u"
      by (cases "rt_now_ms rt (io_world u)") (auto simp: anow_ms_def run_sync_def now_ms_def)
    obtain w where w: "run_sync (update_cache aid cache_invalidate) (v, m) = (Inr (), (w, m))"
      "held w aid = cache_invalidate (held v aid)"
      by (simp add: run_sync_def update_cache_def action_defs held_def)
    have "aio_admit_locked rt a aid timeout (w, m) = (Inl e, (s', n'))"
      using entered(1) v(1) w(1) by (auto simp: abind_def Let_def aret_def run_sync_def ret_def split: if_splits)
    from aio_admit_locked_fails [OF this] w(2) show ?thesis by (simp add: held_def cache_invalidate_def)
  qed simp
qed

text \<open>C19: A task of the asynchronous client may be cancelled at any await, of a call or of a lock, and still
  the client keeps its agent, no cache holds an empty ticket or a refresh time without a ticket, and
  the caches of other agents are untouched. A refresh that does not return, whether cancelled or
  failed, either changed nothing and called nobody or has already dropped the rejected ticket: the
  cache is then empty, and the next call admits afresh.\<close>

theorem aio_cancellation_safe:
  assumes "agent_aid (rt_ed rt) a = Inr aid"
  shows "(\<forall>k s n s' n'. task_step rt k a (s, n) (s', n') \<longrightarrow> caches_ok (io_client s) \<longrightarrow>
      caches_ok (io_client s') \<and> cl_agent (io_client s') = cl_agent (io_client s) \<and>
      (\<forall>x. x \<noteq> aid \<longrightarrow> cl_tickets (io_client s') x = cl_tickets (io_client s) x)) \<and>
    (\<forall>failed timeout s n e s' n'. aio_refresh_ticket rt a failed timeout (s, n) = (Inl e, (s', n')) \<longrightarrow>
      held s' aid = held s aid \<and> io_log s' = io_log s \<or> tc_ticket (held s' aid) = None \<and> tc_refresh_at_ms (held s' aid) = 0)"
proof (intro conjI allI impI)
  fix k s n s' n' assume step: "task_step rt k a (s, n) (s', n')" and ok: "caches_ok (io_client s)"
  from task_step_acts [OF step assms] ok show "caches_ok (io_client s')" "cl_agent (io_client s') = cl_agent (io_client s)"
    by (simp_all add: acts_for_def)
  fix x assume "x \<noteq> aid"
  with task_step_acts [OF step assms] show "cl_tickets (io_client s') x = cl_tickets (io_client s) x" by (simp add: acts_for_def)
qed (rule refresh_fails [OF assms])

text \<open>A refresh cancelled while its challenge is awaited, after both locks.\<close>

lemma example_cancelled:
  "\<exists>s' n'. aio_refresh_ticket refusing example_agent [1] 0 (example_state, Some 2) = (Inl CancelledError, (s', n')) \<and> io_log s' \<noteq> []"
proof -
  have aid: "agent_aid (rt_ed refusing) example_agent = Inr (aid_from_pubkey (replicate 32 7))"
    by (simp add: agent_aid_def refusing_def example_ed_def example_agent_def)
  have rt: "rt_now_ms refusing w = (0, w)" "rt_call refusing rpc req md t w = (Inl rejection, w)" for w rpc req md t
    by (simp_all add: refusing_def)
  show ?thesis unfolding aio_refresh_ticket_def aid abind_lift_py
    by (simp add: aio_locked_def aio_cache_and_lock_def acquire_def abind_def awaiting_def run_sync_def action_defs
        cache_and_lock_def example_state_def anow_ms_def now_ms_def rt cache_get_def update_cache_def aio_admit_locked_def
        aio_presentation_def aio_stub_def stub_def numeral_2_eq_2)
qed

theorem aio_cancellation_safe_witness:
  "\<exists>s' n'. aio_refresh_ticket refusing example_agent [1] 0 (example_state, Some 2) = (Inl CancelledError, (s', n')) \<and>
     tc_ticket (held s' (aid_from_pubkey (replicate 32 7))) = None"
proof -
  have aid: "agent_aid (rt_ed refusing) example_agent = Inr (aid_from_pubkey (replicate 32 7))"
    by (simp add: agent_aid_def refusing_def example_ed_def example_agent_def)
  obtain s' n' where run: "aio_refresh_ticket refusing example_agent [1] 0 (example_state, Some 2) = (Inl CancelledError, (s', n'))"
    "io_log s' \<noteq> []" using example_cancelled by blast
  moreover have "io_log example_state = []" by (simp add: example_state_def)
  ultimately show ?thesis using aio_cancellation_safe [OF aid] by metis
qed

end
