(* ===== verification/Files.thy ===== *)
theory Files
  imports Prelude "HOL-Library.Word"
begin

text \<open>
  What \<open>identity.py\<close> uses of \<open>os\<close>: paths as \<open>posixpath\<close> handles them, and a file system in which names
  in directories lead to inodes. Any call may fail, and \<open>write\<close> may take only part of what it is given;
  a script in the state says when. The state also records the file system after every call, which is
  what another process, or a crash, could see.
\<close>

unbundle bit_operations_syntax

section \<open>Paths\<close>

definition basename :: "ustr \<Rightarrow> ustr" where
  "basename p = rev (takeWhile (\<lambda>c. c \<noteq> 47) (rev p))"

definition path_head :: "ustr \<Rightarrow> ustr" where
  "path_head p = rev (dropWhile (\<lambda>c. c \<noteq> 47) (rev p))"

definition dirname :: "ustr \<Rightarrow> ustr" where
  "dirname p =
     (let head = path_head p
      in if list_all ((=) 47) head then head else rev (dropWhile ((=) 47) (rev head)))"

definition path_join :: "ustr \<Rightarrow> ustr \<Rightarrow> ustr" where
  "path_join a b =
     (if b \<noteq> [] \<and> hd b = 47 then b
      else if a = [] \<or> last a = 47 then a @ b
      else a @ 47 # b)"

fun split_slash :: "ustr \<Rightarrow> ustr list" where
  "split_slash [] = [[]]"
| "split_slash (c # cs) = (if c = 47 then [] # split_slash cs else (c # hd (split_slash cs)) # tl (split_slash cs))"

fun norm_comps :: "bool \<Rightarrow> ustr list \<Rightarrow> ustr list \<Rightarrow> ustr list" where
  "norm_comps rooted new [] = new"
| "norm_comps rooted new (c # cs) =
     (if c = [] \<or> c = [46] then norm_comps rooted new cs
      else if c \<noteq> [46, 46] \<or> (\<not> rooted \<and> new = []) \<or> (new \<noteq> [] \<and> last new = [46, 46]) then norm_comps rooted (new @ [c]) cs
      else norm_comps rooted (butlast new) cs)"

fun join_slash :: "ustr list \<Rightarrow> ustr" where
  "join_slash [] = []"
| "join_slash [s] = s"
| "join_slash (s # t # ss) = s @ 47 # join_slash (t # ss)"

definition leading_slashes :: "ustr \<Rightarrow> nat" where
  "leading_slashes p =
     (let n = length (takeWhile ((=) 47) p) in if n = 0 then 0 else if n = 2 then 2 else 1)"

definition normpath :: "ustr \<Rightarrow> ustr" where
  "normpath p =
     (if p = [] then [46]
      else let r = replicate (leading_slashes p) 47 @ join_slash (norm_comps (leading_slashes p \<noteq> 0) [] (split_slash p))
           in if r = [] then [46] else r)"

definition abspath :: "ustr \<Rightarrow> ustr \<Rightarrow> ustr" where
  "abspath cwd p = normpath (if p \<noteq> [] \<and> hd p = 47 then p else path_join cwd p)"

section \<open>The file system\<close>

type_synonym mode = "16 word"

datatype errno = EEXIST | ENOENT | EOther nat

record inode =
  f_mode :: mode
  f_data :: bytes

text \<open>A name leads to a regular file, by its inode, or to anything else.\<close>

datatype node = Regular nat | Special

type_synonym entry = "nat \<times> ustr"

record fs =
  fs_names :: "entry \<Rightarrow> node option"
  fs_inodes :: "nat \<Rightarrow> inode"
  fs_next :: nat

text \<open>\<open>os_dir\<close> is the kernel's lookup of a directory; \<open>os_faults\<close> says which of the next calls fail, \<open>os_chunks\<close> how
  much the next writes take.\<close>

record os =
  os_fs :: fs
  os_dir :: "ustr \<Rightarrow> nat option"
  os_umask :: mode
  os_faults :: "errno option list"
  os_chunks :: "nat list"
  os_trace :: "fs list"

datatype 'r os_exn = OSError errno | Builtin_exn py_exn | Refused_as 'r

type_synonym ('r, 'a) osm = "os \<Rightarrow> ('r os_exn + 'a) \<times> os"

definition oret :: "'a \<Rightarrow> ('r, 'a) osm" where
  "oret x st = (Inr x, st)"

definition oraise :: "'r os_exn \<Rightarrow> ('r, 'a) osm" where
  "oraise e st = (Inl e, st)"

definition obind :: "('r, 'a) osm \<Rightarrow> ('a \<Rightarrow> ('r, 'b) osm) \<Rightarrow> ('r, 'b) osm" where
  "obind m f st = (case m st of (Inl e, st') \<Rightarrow> (Inl e, st') | (Inr x, st') \<Rightarrow> f x st')"

definition ocatch :: "('r, 'a) osm \<Rightarrow> ('r os_exn \<Rightarrow> ('r, 'a) osm) \<Rightarrow> ('r, 'a) osm" where
  "ocatch m h st = (case m st of (Inl e, st') \<Rightarrow> h e st' | r \<Rightarrow> r)"

text \<open>\<open>try ... finally\<close>: an exception of the second part replaces that of the first.\<close>

definition ofinally :: "('r, 'a) osm \<Rightarrow> ('r, unit) osm \<Rightarrow> ('r, 'a) osm" where
  "ofinally m f st = (case m st of (r, st') \<Rightarrow> (case f st' of (Inl e, st'') \<Rightarrow> (Inl e, st'') | (Inr _, st'') \<Rightarrow> (r, st'')))"

definition olift :: "'a res \<Rightarrow> ('r, 'a) osm" where
  "olift r = (case r of Inl e \<Rightarrow> oraise (Builtin_exn e) | Inr x \<Rightarrow> oret x)"

section \<open>System calls\<close>

definition syscall :: "(os \<Rightarrow> errno + 'a \<times> fs) \<Rightarrow> ('r, 'a) osm" where
  "syscall f st =
     (let st' = st\<lparr>os_faults := tl (os_faults st)\<rparr>
      in case os_faults st of
           Some e # _ \<Rightarrow> (Inl (OSError e), st')
         | _ \<Rightarrow> (case f st of
                   Inl e \<Rightarrow> (Inl (OSError e), st')
                 | Inr (x, new) \<Rightarrow> (Inr x, st'\<lparr>os_fs := new, os_trace := os_trace st @ [new]\<rparr>)))"

definition entry_of :: "os \<Rightarrow> ustr \<Rightarrow> entry option" where
  "entry_of st p = (if basename p = [] then None else map_option (\<lambda>d. (d, basename p)) (os_dir st (path_head p)))"

text \<open>\<open>open\<close> with \<open>O_WRONLY|O_CREAT|O_EXCL|O_NOFOLLOW\<close>; the descriptor is the inode.\<close>

definition sys_create :: "ustr \<Rightarrow> mode \<Rightarrow> ('r, nat) osm" where
  "sys_create p m = syscall (\<lambda>st. case entry_of st p of
       None \<Rightarrow> Inl ENOENT
     | Some e \<Rightarrow>
         (if fs_names (os_fs st) e \<noteq> None then Inl EEXIST
          else let i = fs_next (os_fs st)
               in Inr (i, (os_fs st)\<lparr>fs_names := (fs_names (os_fs st))(e \<mapsto> Regular i),
                                     fs_inodes := (fs_inodes (os_fs st))(i := \<lparr>f_mode = m AND NOT (os_umask st), f_data = []\<rparr>),
                                     fs_next := Suc i\<rparr>)))"

definition sys_fchmod :: "nat \<Rightarrow> mode \<Rightarrow> ('r, unit) osm" where
  "sys_fchmod i m = syscall (\<lambda>st. Inr ((), (os_fs st)\<lparr>fs_inodes := (fs_inodes (os_fs st))(i := (fs_inodes (os_fs st) i)\<lparr>f_mode := m\<rparr>)\<rparr>))"

text \<open>\<open>write\<close> of something takes at least one byte.\<close>

definition write_count :: "os \<Rightarrow> bytes \<Rightarrow> nat" where
  "write_count st b = (case os_chunks st of [] \<Rightarrow> length b | c # _ \<Rightarrow> min (length b) (max 1 c))"

definition sys_write :: "nat \<Rightarrow> bytes \<Rightarrow> ('r, nat) osm" where
  "sys_write i b st =
     (let n = write_count st b
      in syscall (\<lambda>st. Inr (n, (os_fs st)\<lparr>fs_inodes := (fs_inodes (os_fs st))
             (i := (fs_inodes (os_fs st) i)\<lparr>f_data := f_data (fs_inodes (os_fs st) i) @ take n b\<rparr>)\<rparr>))
           (st\<lparr>os_chunks := tl (os_chunks st)\<rparr>))"

definition sys_fsync :: "nat \<Rightarrow> ('r, unit) osm" where
  "sys_fsync i = syscall (\<lambda>st. Inr ((), os_fs st))"

definition sys_close :: "nat \<Rightarrow> ('r, unit) osm" where
  "sys_close i = syscall (\<lambda>st. Inr ((), os_fs st))"

definition sys_link :: "ustr \<Rightarrow> ustr \<Rightarrow> ('r, unit) osm" where
  "sys_link src dst = syscall (\<lambda>st. case (entry_of st src, entry_of st dst) of
       (Some e, Some d) \<Rightarrow>
         (case fs_names (os_fs st) e of
            None \<Rightarrow> Inl ENOENT
          | Some x \<Rightarrow>
              (if fs_names (os_fs st) d \<noteq> None then Inl EEXIST
               else Inr ((), (os_fs st)\<lparr>fs_names := (fs_names (os_fs st))(d \<mapsto> x)\<rparr>)))
     | _ \<Rightarrow> Inl ENOENT)"

definition sys_unlink :: "ustr \<Rightarrow> ('r, unit) osm" where
  "sys_unlink p = syscall (\<lambda>st. case entry_of st p of
       None \<Rightarrow> Inl ENOENT
     | Some e \<Rightarrow>
         (if fs_names (os_fs st) e = None then Inl ENOENT
          else Inr ((), (os_fs st)\<lparr>fs_names := (fs_names (os_fs st))(e := None)\<rparr>)))"

definition sys_open_dir :: "ustr \<Rightarrow> ('r, nat) osm" where
  "sys_open_dir p = syscall (\<lambda>st. case os_dir st p of None \<Rightarrow> Inl ENOENT | Some d \<Rightarrow> Inr (d, os_fs st))"

text \<open>Opening and reading a whole file; anything that is not a regular file cannot be read.\<close>

definition sys_read :: "ustr \<Rightarrow> ('r, bytes) osm" where
  "sys_read p = syscall (\<lambda>st. case entry_of st p of
       None \<Rightarrow> Inl ENOENT
     | Some e \<Rightarrow> (case fs_names (os_fs st) e of
         None \<Rightarrow> Inl ENOENT
       | Some Special \<Rightarrow> Inl (EOther 21)
       | Some (Regular i) \<Rightarrow> Inr (f_data (fs_inodes (os_fs st) i), os_fs st)))"

text \<open>The loop \<open>while view: view = view[os.write(fd, view):]\<close>.\<close>

lemma sys_write_count: "sys_write i b st = (Inr n, st') \<Longrightarrow> n = write_count st b"
  by (auto simp: sys_write_def syscall_def Let_def split: list.splits option.splits)

function write_all :: "nat \<Rightarrow> bytes \<Rightarrow> ('r, unit) osm" where
  "write_all i b st =
     (if b = [] then (Inr (), st)
      else case sys_write i b st of
             (Inl e, st') \<Rightarrow> (Inl e, st')
           | (Inr n, st') \<Rightarrow> write_all i (drop n b) st')"
  by pat_completeness auto
termination
proof (relation "measure (\<lambda>(i, b, st). length b)")
  fix i and b :: bytes and st r st' n
  assume "b \<noteq> []" "(r :: 'r os_exn + nat, st') = sys_write i b st" "r = Inr n"
  then have "n = write_count st b" using sys_write_count by metis
  then have "0 < n" using \<open>b \<noteq> []\<close> by (auto simp: write_count_def less_max_iff_disj split: list.split)
  with \<open>b \<noteq> []\<close> show "((i, drop n b, st'), (i, b, st)) \<in> measure (\<lambda>(i, b, st). length b)" by simp
qed simp

declare write_all.simps [simp del]

section \<open>What a program does to the file system\<close>

text \<open>From a file system with \<open>P\<close>, whatever fails, the result and the file system satisfy \<open>Q\<close>, and every file
  system on the way satisfies \<open>T\<close>.\<close>

definition osm_spec ::
    "(ustr \<Rightarrow> nat option) \<Rightarrow> mode \<Rightarrow> (fs \<Rightarrow> bool) \<Rightarrow> (fs \<Rightarrow> bool) \<Rightarrow> ('r, 'a) osm \<Rightarrow> ('r os_exn + 'a \<Rightarrow> fs \<Rightarrow> bool) \<Rightarrow> bool" where
  "osm_spec D u P T m Q \<longleftrightarrow>
     (\<forall>st. os_dir st = D \<and> os_umask st = u \<and> P (os_fs st) \<longrightarrow>
        (case m st of (r, st') \<Rightarrow> os_dir st' = D \<and> os_umask st' = u \<and> Q r (os_fs st') \<and>
           (\<exists>ts. os_trace st' = os_trace st @ ts \<and> (\<forall>F \<in> set ts. T F))))"

lemma spec_run:
  assumes "osm_spec D u P T m Q" "m st = (r, st')" "os_dir st = D" "os_umask st = u" "P (os_fs st)"
  obtains ts where "os_dir st' = D" "os_umask st' = u" "Q r (os_fs st')" "os_trace st' = os_trace st @ ts" "\<forall>F \<in> set ts. T F"
  using assms unfolding osm_spec_def by fastforce

lemma spec_ret: "(\<And>F. P F \<Longrightarrow> Q (Inr x) F) \<Longrightarrow> osm_spec D u P T (oret x) Q"
  by (simp add: osm_spec_def oret_def)

lemma spec_raise: "(\<And>F. P F \<Longrightarrow> Q (Inl e) F) \<Longrightarrow> osm_spec D u P T (oraise e) Q"
  by (simp add: osm_spec_def oraise_def)

lemma spec_lift: "(\<And>F x. P F \<Longrightarrow> r = Inr x \<Longrightarrow> Q (Inr x) F) \<Longrightarrow> (\<And>F e. P F \<Longrightarrow> Q (Inl (Builtin_exn e)) F) \<Longrightarrow> osm_spec D u P T (olift r) Q"
  by (cases r) (auto simp: olift_def intro!: spec_ret spec_raise)

lemma spec_weaken:
  assumes "osm_spec D u P T m Q" "\<And>F. P' F \<Longrightarrow> P F" "\<And>r F. Q r F \<Longrightarrow> Q' r F" "\<And>F. T F \<Longrightarrow> T' F"
  shows "osm_spec D u P' T' m Q'"
  unfolding osm_spec_def
proof (intro allI impI, clarify)
  fix st :: os and r st' assume st: "D = os_dir st" "u = os_umask st" "P' (os_fs st)" "m st = (r, st')"
  from assms(1) st(4) st(1,2) [symmetric] assms(2) [OF st(3)] obtain ts where
    "os_dir st' = D" "os_umask st' = u" "Q r (os_fs st')" "os_trace st' = os_trace st @ ts" "\<forall>F \<in> set ts. T F" by (rule spec_run)
  then show "os_dir st' = os_dir st \<and> os_umask st' = os_umask st \<and> Q' r (os_fs st') \<and>
      (\<exists>ts. os_trace st' = os_trace st @ ts \<and> (\<forall>F \<in> set ts. T' F))" using st assms(3,4) by auto
qed

text \<open>What runs after a first part, with the traces put together.\<close>

lemma spec_seq:
  assumes "osm_spec D u P T m R" and "\<And>r. osm_spec D u (R r) T (k r) Q"
  shows "osm_spec D u P T (\<lambda>st. case m st of (r, st') \<Rightarrow> k r st') Q"
  unfolding osm_spec_def
proof (intro allI impI, elim conjE)
  fix st :: os assume st: "os_dir st = D" "os_umask st = u" "P (os_fs st)"
  obtain r st' where m: "m st = (r, st')" by (cases "m st")
  from assms(1) m st obtain ts where 1: "os_dir st' = D" "os_umask st' = u" "R r (os_fs st')" "os_trace st' = os_trace st @ ts" "\<forall>F \<in> set ts. T F"
    by (rule spec_run)
  obtain q st'' where k: "k r st' = (q, st'')" by (cases "k r st'")
  from assms(2) k 1(1-3) obtain us where "os_dir st'' = D" "os_umask st'' = u" "Q q (os_fs st'')" "os_trace st'' = os_trace st' @ us" "\<forall>F \<in> set us. T F"
    by (rule spec_run)
  with 1 m k show "case (case m st of (r, st') \<Rightarrow> k r st') of (r, st') \<Rightarrow> os_dir st' = D \<and> os_umask st' = u \<and> Q r (os_fs st') \<and>
      (\<exists>ts. os_trace st' = os_trace st @ ts \<and> (\<forall>F \<in> set ts. T F))" by auto
qed

lemma spec_bind:
  assumes "osm_spec D u P T m R" "\<And>x. osm_spec D u (R (Inr x)) T (f x) Q" "\<And>e F. R (Inl e) F \<Longrightarrow> Q (Inl e) F"
  shows "osm_spec D u P T (obind m f) Q"
proof -
  have "obind m f = (\<lambda>st. case m st of (r, st') \<Rightarrow> (case r of Inl e \<Rightarrow> oraise e | Inr x \<Rightarrow> f x) st')"
    by (rule ext) (simp add: obind_def oraise_def split: prod.split sum.split)
  then show ?thesis using assms by (auto intro!: spec_seq [where R = R] spec_raise split: sum.split)
qed

lemma spec_catch:
  assumes "osm_spec D u P T m R" "\<And>e. osm_spec D u (R (Inl e)) T (h e) Q" "\<And>x F. R (Inr x) F \<Longrightarrow> Q (Inr x) F"
  shows "osm_spec D u P T (ocatch m h) Q"
proof -
  have "ocatch m h = (\<lambda>st. case m st of (r, st') \<Rightarrow> (case r of Inl e \<Rightarrow> h e | Inr x \<Rightarrow> oret x) st')"
    by (rule ext) (simp add: ocatch_def oret_def split: prod.split sum.split)
  then show ?thesis using assms by (auto intro!: spec_seq [where R = R] spec_ret split: sum.split)
qed

lemma spec_finally:
  assumes "osm_spec D u P T m R" "\<And>r. osm_spec D u (R r) T f (\<lambda>q F. case q of Inl e \<Rightarrow> Q (Inl e) F | Inr _ \<Rightarrow> Q r F)"
  shows "osm_spec D u P T (ofinally m f) Q"
proof -
  have f: "ofinally m f = (\<lambda>st. case m st of (r, st') \<Rightarrow> (\<lambda>st'. case f st' of (q, st'') \<Rightarrow> (case q of Inl e \<Rightarrow> oraise e | Inr _ \<Rightarrow> (\<lambda>st''. (r, st''))) st'') st')"
    by (rule ext) (simp add: ofinally_def oraise_def split: prod.split sum.split)
  show ?thesis unfolding f using assms
    by (intro spec_seq [where R = R] spec_seq [OF assms(2)]) (auto simp: osm_spec_def oraise_def split: sum.split)
qed

lemma spec_syscall:
  assumes "\<And>st. os_dir st = D \<Longrightarrow> os_umask st = u \<Longrightarrow> P (os_fs st) \<Longrightarrow> case f st of Inl e \<Rightarrow> True | Inr (x, F) \<Rightarrow> T F \<and> Q (Inr x) F"
    and "\<And>e F. P F \<Longrightarrow> Q (Inl (OSError e)) F"
  shows "osm_spec D u P T (syscall f) Q"
  unfolding osm_spec_def
proof (intro allI impI, elim conjE)
  fix st :: os assume st: "os_dir st = D" "os_umask st = u" "P (os_fs st)"
  from assms(1) [OF st] assms(2) [OF st(3)] st
  show "case syscall f st of (r, st') \<Rightarrow> os_dir st' = D \<and> os_umask st' = u \<and> Q r (os_fs st') \<and>
      (\<exists>ts. os_trace st' = os_trace st @ ts \<and> (\<forall>F \<in> set ts. T F))"
    by (cases "f st") (auto simp: syscall_def Let_def split: list.split option.split)
qed

text \<open>What is known of the start may be taken apart.\<close>

lemma spec_exI: "(\<And>x. osm_spec D u (P x) T m Q) \<Longrightarrow> osm_spec D u (\<lambda>G. \<exists>x. P x G) T m Q"
  unfolding osm_spec_def by (intro allI impI) (elim conjE exE, simp)

lemma spec_assume: "(A \<Longrightarrow> osm_spec D u P T m Q) \<Longrightarrow> osm_spec D u (\<lambda>G. A \<and> P G) T m Q"
  unfolding osm_spec_def by simp

lemma spec_if: "(b \<Longrightarrow> osm_spec D u P T m Q) \<Longrightarrow> (\<not> b \<Longrightarrow> osm_spec D u P T n Q) \<Longrightarrow> osm_spec D u P T (if b then m else n) Q"
  by simp

lemma basename_join:
  assumes "47 \<notin> set b" "b \<noteq> []" shows "basename (path_join a b) = b"
proof -
  have b: "takeWhile (\<lambda>c. c \<noteq> 47) (rev b) = rev b" using assms(1) unfolding takeWhile_eq_all_conv by auto
  have c: "takeWhile (\<lambda>c. c \<noteq> 47) (rev b @ r) = rev b @ takeWhile (\<lambda>c. c \<noteq> 47) r" for r
    using assms(1) by (subst takeWhile_append2) auto
  have "basename (p @ b) = b" if "p = [] \<or> last p = 47" for p
  proof (cases p rule: rev_cases)
    case (snoc q x)
    with that show ?thesis by (simp add: basename_def c)
  qed (simp add: basename_def b)
  from this [of a] this [of "a @ [47]"] assms show ?thesis by (cases b) (auto simp: path_join_def)
qed

end
