(* ===== verification/Identity.thy ===== *)
theory Identity
  imports Files Client
begin

text \<open>
  Identity custody, \<open>identity.py\<close>: the bootstrap file, its validator, the two loaders and the creator. A
  refusal of the module carries which check failed. The random bytes, the working directory and the
  environment variable are arguments. What \<open>create_identity_file\<close> writes both loaders read back; no
  reader, and no crash, ever sees a partial file or a clobbered one; the loaders refuse alike.
\<close>

section \<open>The file\<close>

datatype identity_refusal =
    NoBootstrapFile | NotFound | NotJson | NotObject | BadVersion | SeedLength | SeedNotHex
  | MissingFields "string list" | AidMalformed | AidMismatch
  | BadArgument string | CannotCreate | RefusesOverwrite | CannotPublish

abbreviation IdentityFileError :: "identity_refusal \<Rightarrow> identity_refusal os_exn" where
  "IdentityFileError \<equiv> Refused_as"

type_synonym 'a idm = "(identity_refusal, 'a) osm"

definition SCHEMA_VERSION :: int where
  "SCHEMA_VERSION = 1"

definition is_seed_hex :: "ustr \<Rightarrow> bool" where
  "is_seed_hex s = fullmatch (replicate 64 hex_char) s"

definition is_aid :: "ustr \<Rightarrow> bool" where
  "is_aid s = fullmatch (map (=) AID_PREFIX @ replicate 43 token_char) s"

definition identity_doc :: "bytes \<Rightarrow> ustr \<Rightarrow> ustr \<Rightarrow> ustr \<Rightarrow> ustr \<Rightarrow> jdoc" where
  "identity_doc seed agent_id tenant endpoint aid =
     JObj [(ustr ''version'', JInt SCHEMA_VERSION), (ustr ''seed_hex'', JStr (hex seed)), (ustr ''agent_id'', JStr agent_id),
           (ustr ''tenant'', JStr tenant), (ustr ''endpoint'', JStr endpoint), (ustr ''aid'', JStr aid)]"

definition identity_file_body :: "ed25519 \<Rightarrow> agent \<Rightarrow> ustr \<Rightarrow> ustr \<Rightarrow> ustr \<Rightarrow> bytes res" where
  "identity_file_body ed a agent_id tenant endpoint =
     rbind (agent_aid ed a) (\<lambda>aid.
     Inr (dumps_bytes (Indent 2) (identity_doc (ag_seed a) agent_id tenant endpoint aid) @ [10]))"

section \<open>Loading\<close>

text \<open>Text mode: every \<open>\r\n\<close> and lone \<open>\r\<close> reads as \<open>\n\<close>.\<close>

fun universal_newlines :: "ustr \<Rightarrow> ustr" where
  "universal_newlines [] = []"
| "universal_newlines (c # cs) =
     (if c = 13 then 10 # universal_newlines (if cs \<noteq> [] \<and> hd cs = 10 then tl cs else cs) else c # universal_newlines cs)"

text \<open>\<open>v == 1\<close>: also of \<open>True\<close> and \<open>1.0\<close>.\<close>

definition equals_one :: "pyval \<Rightarrow> bool" where
  "equals_one v \<longleftrightarrow> v = VInt 1 \<or> v = VBool True \<or> v = VFloat 0x3FF0000000000000"

definition dict_get :: "(pyval \<times> pyval) list \<Rightarrow> string \<Rightarrow> pyval" where
  "dict_get d k = (case map_of d (VStr (ustr k)) of Some v \<Rightarrow> v | None \<Rightarrow> VNone)"

definition in_dict :: "(pyval \<times> pyval) list \<Rightarrow> string \<Rightarrow> bool" where
  "in_dict d k = (map_of d (VStr (ustr k)) \<noteq> None)"

definition missing_fields :: "(pyval \<times> pyval) list \<Rightarrow> string list" where
  "missing_fields d = filter (\<lambda>k. py_truthy (dict_get d k) = Inr False) [''agent_id'', ''tenant'', ''endpoint'']"

definition validate :: "pyval \<Rightarrow> identity_refusal + (pyval \<times> pyval) list" where
  "validate data =
     (case data of
        VDict d \<Rightarrow>
          (if \<not> equals_one (dict_get d ''version'') then Inl BadVersion
           else case (if in_dict d ''seed_hex'' then dict_get d ''seed_hex'' else VStr []) of
                  VStr s \<Rightarrow>
                    (if length s \<noteq> 64 then Inl SeedLength
                     else if \<not> is_seed_hex s then Inl SeedNotHex
                     else if missing_fields d \<noteq> [] then Inl (MissingFields (missing_fields d))
                     else if in_dict d ''aid'' \<and> (case dict_get d ''aid'' of VStr a \<Rightarrow> \<not> is_aid a | _ \<Rightarrow> True) then Inl AidMalformed
                     else Inr d)
                | _ \<Rightarrow> Inl SeedLength)
      | _ \<Rightarrow> Inl NotObject)"

text \<open>\<open>env\<close> is \<open>os.environ.get("SEAM_BOOTSTRAP_FILE", "")\<close>. Only a missing file and invalid JSON are turned into
  refusals; other failures to read escape as they are.\<close>

definition read_and_validate :: "nat \<Rightarrow> ustr \<Rightarrow> ustr option \<Rightarrow> (pyval \<times> pyval) list idm" where
  "read_and_validate depth env path =
     (let resolved = (case path of Some p \<Rightarrow> p | None \<Rightarrow> env)
      in if resolved = [] then oraise (IdentityFileError NoBootstrapFile)
         else obind
           (ocatch
              (obind (sys_read resolved) (\<lambda>b.
               obind (olift (utf8_decode b)) (\<lambda>t.
               olift (json_loads_str plain_dict depth (universal_newlines t)))))
              (\<lambda>e. if e = OSError ENOENT then oraise (IdentityFileError NotFound)
                   else if e = Builtin_exn JSONDecodeError then oraise (IdentityFileError NotJson)
                   else oraise e)) (\<lambda>data.
           case validate data of Inl r \<Rightarrow> oraise (IdentityFileError r) | Inr d \<Rightarrow> oret d))"

text \<open>\<open>str(v)\<close>; \<open>show\<close> is the text of a float or a container, which depends on the tables of \<open>repr\<close>.\<close>

definition py_str :: "(pyval \<Rightarrow> ustr) \<Rightarrow> pyval \<Rightarrow> ustr" where
  "py_str show_other v =
     (case v of VStr s \<Rightarrow> s | VInt n \<Rightarrow> str_int n | VBool b \<Rightarrow> ustr (if b then ''True'' else ''False'')
      | VNone \<Rightarrow> ustr ''None'' | _ \<Rightarrow> show_other v)"

record loaded_identity =
  li_agent :: agent
  li_agent_id :: ustr
  li_tenant :: ustr
  li_endpoint :: ustr

record identity_facts =
  if_agent_id :: ustr
  if_tenant :: ustr
  if_endpoint :: ustr
  if_aid :: ustr

definition loaded_aid :: "ed25519 \<Rightarrow> loaded_identity \<Rightarrow> ustr res" where
  "loaded_aid ed l = agent_aid ed (li_agent l)"

text \<open>The text of a validated string field.\<close>

definition text_of :: "pyval \<Rightarrow> ustr" where
  "text_of v = (case v of VStr s \<Rightarrow> s | _ \<Rightarrow> [])"

definition decode_seed :: "ustr \<Rightarrow> bytes res" where
  "decode_seed seed_hex = fromhex seed_hex"

definition derive_aid :: "ed25519 \<Rightarrow> ustr \<Rightarrow> ustr res" where
  "derive_aid ed seed_hex =
     rbind (decode_seed seed_hex) (\<lambda>seed. rbind (from_private_bytes ed seed) (\<lambda>sk. Inr (aid_from_pubkey (public_bytes_raw ed sk))))"

definition load_identity_file :: "ed25519 \<Rightarrow> nat \<Rightarrow> (pyval \<Rightarrow> ustr) \<Rightarrow> ustr \<Rightarrow> ustr option \<Rightarrow> loaded_identity idm" where
  "load_identity_file ed depth show_other env path =
     obind (read_and_validate depth env path) (\<lambda>d.
     obind (olift (rbind (decode_seed (text_of (dict_get d ''seed_hex''))) new_agent)) (\<lambda>a.
     obind (if in_dict d ''aid''
            then obind (olift (agent_aid ed a)) (\<lambda>aid.
                   if dict_get d ''aid'' \<noteq> VStr aid then oraise (IdentityFileError AidMismatch) else oret ())
            else oret ()) (\<lambda>_.
     oret \<lparr>li_agent = a, li_agent_id = py_str show_other (dict_get d ''agent_id''),
           li_tenant = py_str show_other (dict_get d ''tenant''), li_endpoint = py_str show_other (dict_get d ''endpoint'')\<rparr>)))"

definition load_identity_facts :: "ed25519 \<Rightarrow> nat \<Rightarrow> (pyval \<Rightarrow> ustr) \<Rightarrow> ustr \<Rightarrow> ustr option \<Rightarrow> identity_facts idm" where
  "load_identity_facts ed depth show_other env path =
     obind (read_and_validate depth env path) (\<lambda>d.
     obind (if in_dict d ''aid'' then oret (text_of (dict_get d ''aid''))
            else olift (derive_aid ed (text_of (dict_get d ''seed_hex'')))) (\<lambda>aid.
     oret \<lparr>if_agent_id = py_str show_other (dict_get d ''agent_id''), if_tenant = py_str show_other (dict_get d ''tenant''),
           if_endpoint = py_str show_other (dict_get d ''endpoint''), if_aid = aid\<rparr>))"

section \<open>Creating\<close>

definition nonempty_str :: "string \<Rightarrow> pyval \<Rightarrow> ustr idm" where
  "nonempty_str name v =
     (case v of VStr s \<Rightarrow> (if s = [] then oraise (IdentityFileError (BadArgument name)) else oret s)
      | _ \<Rightarrow> oraise (IdentityFileError (BadArgument name)))"

text \<open>\<open>0o600\<close>.\<close>

definition OWNER_ONLY :: mode where
  "OWNER_ONLY = 0x180"

definition tmp_path :: "ustr \<Rightarrow> bytes \<Rightarrow> ustr \<Rightarrow> ustr" where
  "tmp_path cwd salt final =
     path_join (dirname (abspath cwd final)) (46 # basename final @ 46 # hex salt @ ustr ''.tmp'')"

definition is_os_error :: "'r os_exn \<Rightarrow> bool" where
  "is_os_error e = (case e of OSError _ \<Rightarrow> True | _ \<Rightarrow> False)"

definition fsync_dir :: "bool \<Rightarrow> ustr \<Rightarrow> unit idm" where
  "fsync_dir posix directory =
     (if \<not> posix then oret ()
      else obind (sys_open_dir directory) (\<lambda>fd. ofinally (sys_fsync fd) (sys_close fd)))"

text \<open>Filling the temporary file, publishing it under its name, and what is done after either.\<close>

definition fill_file :: "bool \<Rightarrow> nat \<Rightarrow> bytes \<Rightarrow> unit idm" where
  "fill_file has_fchmod fd body =
     ofinally
       (obind (if has_fchmod then sys_fchmod fd OWNER_ONLY else oret ()) (\<lambda>_.
        obind (write_all fd body) (\<lambda>_. sys_fsync fd)))
       (sys_close fd)"

definition publish :: "ustr \<Rightarrow> ustr \<Rightarrow> unit idm" where
  "publish tmp final =
     ocatch (sys_link tmp final) (\<lambda>e.
       if e = OSError EEXIST then oraise (IdentityFileError RefusesOverwrite)
       else if is_os_error e then oraise (IdentityFileError CannotPublish)
       else oraise e)"

definition discard :: "ustr \<Rightarrow> unit idm" where
  "discard tmp = ocatch (sys_unlink tmp) (\<lambda>e. if e = OSError ENOENT then oret () else oraise e)"

definition create_identity_file ::
    "ed25519 \<Rightarrow> bool \<Rightarrow> bool \<Rightarrow> ustr \<Rightarrow> bytes \<Rightarrow> bytes \<Rightarrow> ustr \<Rightarrow> pyval \<Rightarrow> pyval \<Rightarrow> pyval \<Rightarrow> (ustr \<times> ustr) idm" where
  "create_identity_file ed has_fchmod posix cwd seed salt final agent_id tenant endpoint =
     obind (nonempty_str ''agent_id'' agent_id) (\<lambda>i.
     obind (nonempty_str ''tenant'' tenant) (\<lambda>t.
     obind (nonempty_str ''endpoint'' endpoint) (\<lambda>p.
     obind (olift (new_agent seed)) (\<lambda>a.
     obind (olift (identity_file_body ed a i t p)) (\<lambda>body.
     let tmp = tmp_path cwd salt final in
     obind (ocatch (sys_create tmp OWNER_ONLY) (\<lambda>e.
              if is_os_error e then oraise (IdentityFileError CannotCreate) else oraise e)) (\<lambda>fd.
     obind (ofinally (obind (fill_file has_fchmod fd body) (\<lambda>_. publish tmp final)) (discard tmp)) (\<lambda>_.
     obind (fsync_dir posix (dirname (abspath cwd final))) (\<lambda>_.
     obind (olift (agent_aid ed a)) (\<lambda>aid.
     oret (final, aid))))))))))"

section \<open>Every file system on the way\<close>

unbundle bit_operations_syntax

text \<open>The stages of a creation from \<open>F\<close>: the temporary name \<open>e\<close> leads to a new inode, later the final name \<open>d\<close>
  does too, and at the end the temporary name is gone.\<close>

definition draft :: "fs \<Rightarrow> entry \<Rightarrow> mode \<Rightarrow> bytes \<Rightarrow> fs" where
  "draft F e m b =
     F\<lparr>fs_names := (fs_names F)(e \<mapsto> Regular (fs_next F)),
       fs_inodes := (fs_inodes F)(fs_next F := \<lparr>f_mode = m, f_data = b\<rparr>), fs_next := Suc (fs_next F)\<rparr>"

definition named :: "entry \<Rightarrow> node option \<Rightarrow> fs \<Rightarrow> fs" where
  "named d x F = F\<lparr>fs_names := (fs_names F)(d := x)\<rparr>"

definition drafts :: "fs \<Rightarrow> entry \<Rightarrow> fs \<Rightarrow> bool" where
  "drafts F e G \<longleftrightarrow> (\<exists>m b. m AND NOT OWNER_ONLY = 0 \<and> (G = draft F e m b \<or> G = named e None (draft F e m b)))"

definition finished :: "bool \<Rightarrow> bytes \<Rightarrow> mode \<Rightarrow> bool" where
  "finished has_fchmod body m \<longleftrightarrow> m AND NOT OWNER_ONLY = 0 \<and> (has_fchmod \<longrightarrow> m = OWNER_ONLY)"

definition published :: "bool \<Rightarrow> bytes \<Rightarrow> fs \<Rightarrow> entry \<Rightarrow> entry \<Rightarrow> fs \<Rightarrow> bool" where
  "published has_fchmod body F e d G \<longleftrightarrow> fs_names F d = None \<and>
     (\<exists>m x. finished has_fchmod body m \<and> x \<in> {None, Some (Regular (fs_next F))} \<and>
        G = named e x (named d (Some (Regular (fs_next F))) (draft F e m body)))"

definition stage :: "bool \<Rightarrow> bytes \<Rightarrow> fs \<Rightarrow> entry \<Rightarrow> entry \<Rightarrow> fs \<Rightarrow> bool" where
  "stage has_fchmod body F e d G \<longleftrightarrow> G = F \<or> fs_names F e = None \<and> (drafts F e G \<or> published has_fchmod body F e d G)"

lemma mode_masked: "(OWNER_ONLY AND NOT u) AND NOT OWNER_ONLY = 0"
  by (simp add: OWNER_ONLY_def bit_eq_iff bit_simps)

lemma draft_simps [simp]:
  "fs_names (draft F e m b) = (fs_names F)(e \<mapsto> Regular (fs_next F))"
  "fs_inodes (draft F e m b) = (fs_inodes F)(fs_next F := \<lparr>f_mode = m, f_data = b\<rparr>)"
  "fs_names (named d x G) = (fs_names G)(d := x)" "fs_inodes (named d x G) = fs_inodes G"
  by (simp_all add: draft_def named_def)

lemma draft_put:
  "(draft F e m b)\<lparr>fs_inodes := (fs_inodes F)(fs_next F := \<lparr>f_mode = m', f_data = b'\<rparr>)\<rparr> = draft F e m' b'"
  by (cases F) (simp add: draft_def)

lemma spec_create:
  assumes "\<And>st. os_dir st = D \<Longrightarrow> entry_of st tmp = eo" "\<And>e. eo = Some e \<Longrightarrow> fs_names F e = None \<Longrightarrow> T (draft F e (OWNER_ONLY AND NOT u) [])"
  shows "osm_spec D u (\<lambda>G. G = F) T (sys_create tmp OWNER_ONLY)
    (\<lambda>r G. case r of Inl _ \<Rightarrow> G = F
       | Inr fd \<Rightarrow> \<exists>e. eo = Some e \<and> fs_names F e = None \<and> fd = fs_next F \<and> G = draft F e (OWNER_ONLY AND NOT u) [])"
  unfolding sys_create_def using assms
  by (intro spec_syscall) (auto simp: draft_def Let_def split: option.splits)

lemma spec_write_all:
  assumes "\<And>b. T (draft F e m b)"
  shows "osm_spec D u (\<lambda>G. G = draft F e m p) T (write_all (fs_next F) b :: unit idm) (\<lambda>r G. \<exists>q. G = draft F e m q \<and> (r = Inr () \<longrightarrow> q = p @ b))"
proof -
  have chunk: "osm_spec D u (\<lambda>G. G = draft F e m p) T (sys_write (fs_next F) b :: nat idm)
      (\<lambda>r G. case r of Inl _ \<Rightarrow> G = draft F e m p | Inr n \<Rightarrow> G = draft F e m (p @ take n b))" for p b
    unfolding osm_spec_def sys_write_def syscall_def Let_def using assms
    by (auto simp: draft_put split: list.split option.split)
  show ?thesis
  proof (induction "length b" arbitrary: b p rule: less_induct)
    case less
    show ?case unfolding osm_spec_def
    proof (intro allI impI, elim conjE)
      fix st :: os assume st: "os_dir st = D" "os_umask st = u" "os_fs st = draft F e m p"
      show "case (write_all (fs_next F) b :: unit idm) st of (r, st') \<Rightarrow> os_dir st' = D \<and> os_umask st' = u \<and>
          (\<exists>q. os_fs st' = draft F e m q \<and> (r = Inr () \<longrightarrow> q = p @ b)) \<and> (\<exists>ts. os_trace st' = os_trace st @ ts \<and> (\<forall>G \<in> set ts. T G))"
      proof (cases "b = []")
        case True
        with st show ?thesis by (simp add: write_all.simps)
      next
        case False
        obtain r st' where w: "(sys_write (fs_next F) b :: nat idm) st = (r, st')" by (cases "(sys_write (fs_next F) b :: nat idm) st")
        from chunk w st obtain ts where 1: "os_dir st' = D" "os_umask st' = u"
          "case r of Inl _ \<Rightarrow> os_fs st' = draft F e m p | Inr n \<Rightarrow> os_fs st' = draft F e m (p @ take n b)"
          "os_trace st' = os_trace st @ ts" "\<forall>G \<in> set ts. T G" by (rule spec_run)
        show ?thesis
        proof (cases r)
          case (Inl x)
          with 1 w False show ?thesis by (subst write_all.simps) auto
        next
          case (Inr n)
          with w sys_write_count have "n = write_count st b" by blast
          then have "0 < n" using False by (auto simp: write_count_def less_max_iff_disj split: list.split)
          then have "length (drop n b) < length b" using False by simp
          note IH = less [OF this, of "p @ take n b"]
          obtain q st'' where q: "(write_all (fs_next F) (drop n b) :: unit idm) st' = (q, st'')"
            by (cases "(write_all (fs_next F) (drop n b) :: unit idm) st'")
          from IH q 1(1,2) 1(3) [unfolded Inr sum.case] obtain us where "os_dir st'' = D" "os_umask st'' = u"
            "\<exists>z. os_fs st'' = draft F e m z \<and> (q = Inr () \<longrightarrow> z = (p @ take n b) @ drop n b)"
            "os_trace st'' = os_trace st' @ us" "\<forall>G \<in> set us. T G" by (rule spec_run)
          with 1 w q Inr False show ?thesis by (subst write_all.simps) auto
        qed
      qed
    qed
  qed
qed

definition drafted :: "fs \<Rightarrow> entry \<Rightarrow> (mode \<Rightarrow> bytes \<Rightarrow> bool) \<Rightarrow> fs \<Rightarrow> bool" where
  "drafted F e K G \<longleftrightarrow> (\<exists>m b. m AND NOT OWNER_ONLY = 0 \<and> G = draft F e m b \<and> K m b)"

lemma spec_drafted:
  assumes "\<And>m b. m AND NOT OWNER_ONLY = 0 \<Longrightarrow> K m b \<Longrightarrow> osm_spec D u (\<lambda>G. G = draft F e m b) T c Q"
  shows "osm_spec D u (drafted F e K) T c Q"
proof -
  have "osm_spec D u (\<lambda>G. \<exists>x. (fst x AND NOT OWNER_ONLY = 0 \<and> K (fst x) (snd x)) \<and> G = draft F e (fst x) (snd x)) T c Q"
    by (rule spec_exI, rule spec_assume) (use assms in auto)
  then show ?thesis by (rule spec_weaken) (auto simp: drafted_def)
qed

lemma draftedI: "m AND NOT OWNER_ONLY = 0 \<Longrightarrow> K m b \<Longrightarrow> drafted F e K (draft F e m b)"
  unfolding drafted_def by blast

lemma drafted_mono: "drafted F e K G \<Longrightarrow> (\<And>m b. K m b \<Longrightarrow> L m b) \<Longrightarrow> drafted F e L G"
  unfolding drafted_def by blast

lemma spec_quiet:
  assumes "\<And>G. P G \<Longrightarrow> T G"
  shows "osm_spec D u P T (sys_fsync i :: unit idm) (\<lambda>r. P)" "osm_spec D u P T (sys_close i :: unit idm) (\<lambda>r. P)"
  unfolding sys_fsync_def sys_close_def using assms by (intro spec_syscall; simp)+

lemma spec_fill_file:
  assumes T: "\<And>G. drafted F e (\<lambda>m b. True) G \<Longrightarrow> T G" and m: "m AND NOT OWNER_ONLY = 0"
  shows "osm_spec D u (\<lambda>G. G = draft F e m []) T (fill_file has_fchmod (fs_next F) body)
    (\<lambda>r. drafted F e (\<lambda>m b. r = Inr () \<longrightarrow> b = body \<and> (has_fchmod \<longrightarrow> m = OWNER_ONLY)))"
proof -
  let ?ok = "\<lambda>m. has_fchmod \<longrightarrow> m = OWNER_ONLY"
  have draftT: "T (draft F e m b)" if "m AND NOT OWNER_ONLY = 0" for m b using T that by (auto simp: drafted_def)
  have KT: "T G" if "drafted F e K G" for K G using T drafted_mono [OF that, of "\<lambda>m b. True"] by simp
  have quiet: "osm_spec D u (drafted F e K) T (sys_fsync i :: unit idm) (\<lambda>r. drafted F e K)"
    "osm_spec D u (drafted F e K) T (sys_close i :: unit idm) (\<lambda>r. drafted F e K)" for K i
    by (rule spec_quiet, erule KT)+
  have own: "OWNER_ONLY AND NOT OWNER_ONLY = 0" using mode_masked [of 0] by simp
  have 1: "osm_spec D u (\<lambda>G. G = draft F e m []) T (if has_fchmod then sys_fchmod (fs_next F) OWNER_ONLY else oret () :: unit idm)
      (\<lambda>r. drafted F e (\<lambda>m b. r = Inr () \<longrightarrow> ?ok m \<and> b = []))"
    using draftT own m by (intro spec_if spec_ret) (auto simp: sys_fchmod_def draft_put intro!: spec_syscall draftedI)
  have 2: "osm_spec D u (drafted F e (\<lambda>m b. Inr x = Inr () \<longrightarrow> ?ok m \<and> b = [])) T (write_all (fs_next F) body :: unit idm)
      (\<lambda>r. drafted F e (\<lambda>m b. r = Inr () \<longrightarrow> b = body \<and> ?ok m))" for x :: unit
    using draftT by (intro spec_drafted spec_weaken [OF spec_write_all]) (auto intro!: draftedI)
  have 3: "osm_spec D u (drafted F e (\<lambda>m b. Inr x = Inr () \<longrightarrow> b = body \<and> ?ok m)) T (sys_fsync (fs_next F) :: unit idm)
      (\<lambda>r. drafted F e (\<lambda>m b. r = Inr () \<longrightarrow> b = body \<and> ?ok m))" for x :: unit
    by (rule spec_weaken [OF quiet(1) [of "\<lambda>m b. b = body \<and> ?ok m"]]) (auto elim: drafted_mono)
  have run: "osm_spec D u (\<lambda>G. G = draft F e m []) T
      (obind (if has_fchmod then sys_fchmod (fs_next F) OWNER_ONLY else oret ()) (\<lambda>_. obind (write_all (fs_next F) body) (\<lambda>_. sys_fsync (fs_next F))))
      (\<lambda>r :: identity_refusal os_exn + unit. drafted F e (\<lambda>m b. r = Inr () \<longrightarrow> b = body \<and> ?ok m))"
    by (rule spec_bind [OF 1 spec_bind [OF 2 3]]) (auto elim: drafted_mono)
  show ?thesis unfolding fill_file_def
  proof (rule spec_finally [OF run])
    fix r :: "identity_refusal os_exn + unit"
    show "osm_spec D u (drafted F e (\<lambda>m b. r = Inr () \<longrightarrow> b = body \<and> ?ok m)) T (sys_close (fs_next F))
        (\<lambda>q G. case q of Inl x \<Rightarrow> drafted F e (\<lambda>m b. (Inl x :: identity_refusal os_exn + unit) = Inr () \<longrightarrow> b = body \<and> ?ok m) G
          | Inr _ \<Rightarrow> drafted F e (\<lambda>m b. r = Inr () \<longrightarrow> b = body \<and> ?ok m) G)"
      by (rule spec_weaken [OF quiet(2)]) (auto elim: drafted_mono split: sum.split)
  qed
qed

lemma spec_publish:
  assumes "\<And>st. os_dir st = D \<Longrightarrow> entry_of st tmp = Some e" "\<And>st. os_dir st = D \<Longrightarrow> entry_of st final = Some d" "e \<noteq> d"
    and "fs_names F d = None \<Longrightarrow> T (named d (Some (Regular (fs_next F))) (draft F e m b))"
  shows "osm_spec D u (\<lambda>G. G = draft F e m b) T (publish tmp final)
    (\<lambda>r G. case r of Inl _ \<Rightarrow> G = draft F e m b | Inr _ \<Rightarrow> fs_names F d = None \<and> G = named d (Some (Regular (fs_next F))) (draft F e m b))"
  unfolding publish_def
proof (rule spec_catch)
  show "osm_spec D u (\<lambda>G. G = draft F e m b) T (sys_link tmp final)
    (\<lambda>r G. case r of Inl _ \<Rightarrow> G = draft F e m b | Inr _ \<Rightarrow> fs_names F d = None \<and> G = named d (Some (Regular (fs_next F))) (draft F e m b))"
    unfolding sys_link_def using assms by (intro spec_syscall) (auto simp: named_def split: option.splits)
qed (auto intro!: spec_if spec_raise)

lemma spec_discard:
  assumes "\<And>st. os_dir st = D \<Longrightarrow> entry_of st tmp = Some e" "T (named e None G)"
  shows "osm_spec D u (\<lambda>X. X = G) T (discard tmp) (\<lambda>r X. X = G \<or> X = named e None G)"
  unfolding discard_def
proof (rule spec_catch)
  show "osm_spec D u (\<lambda>X. X = G) T (sys_unlink tmp) (\<lambda>r X. X = G \<or> X = named e None G)"
    unfolding sys_unlink_def using assms by (intro spec_syscall) (auto simp: named_def)
qed (auto intro!: spec_if spec_raise spec_ret)

lemma spec_split:
  assumes "\<And>G. P G \<Longrightarrow> osm_spec D u (\<lambda>X. X = G) T m Q" shows "osm_spec D u P T m Q"
proof -
  have "osm_spec D u (\<lambda>X. \<exists>G. P G \<and> X = G) T m Q" by (intro spec_exI spec_assume assms)
  then show ?thesis by (rule spec_weaken) auto
qed

text \<open>The body of the \<open>try\<close> with its \<open>finally\<close>.\<close>

lemma spec_try:
  assumes tmp: "\<And>st. os_dir st = D \<Longrightarrow> entry_of st tmp = Some e" and final: "\<And>st. os_dir st = D \<Longrightarrow> entry_of st final = Some d"
    and ne: "e \<noteq> d" "fs_names F e = None" and m: "m AND NOT OWNER_ONLY = 0"
  shows "osm_spec D u (\<lambda>G. G = draft F e m []) (stage has_fchmod body F e d)
    (ofinally (obind (fill_file has_fchmod (fs_next F) body) (\<lambda>_. publish tmp final)) (discard tmp))
    (\<lambda>r G. stage has_fchmod body F e d G \<and> (r = Inr () \<longrightarrow> published has_fchmod body F e d G))"
proof (rule spec_finally)
  let ?T = "stage has_fchmod body F e d" and ?x = "Some (Regular (fs_next F))"
  let ?R = "\<lambda>r :: identity_refusal os_exn + unit. \<lambda>G. drafted F e (\<lambda>m b. r \<noteq> Inr ()) G \<or>
    fs_names F d = None \<and> (\<exists>m. finished has_fchmod body m \<and> G = named d ?x (draft F e m body))"
  have draftT: "?T G" if "drafted F e K G" for K G using that ne(2) by (auto simp: stage_def drafted_def drafts_def)
  have again: "named e ?x (named d ?x (draft F e m body)) = named d ?x (draft F e m body)" for m
    using ne(1) by (simp add: named_def draft_def fun_upd_twist)
  have pubT: "?T (named d ?x (draft F e m body)) \<and> published has_fchmod body F e d (named d ?x (draft F e m body))"
    if "fs_names F d = None" "finished has_fchmod body m" for m
  proof -
    have "published has_fchmod body F e d (named e ?x (named d ?x (draft F e m body)))" using that unfolding published_def by blast
    then show ?thesis using ne(2) by (simp add: stage_def again)
  qed
  have fill: "osm_spec D u (\<lambda>G. G = draft F e m []) ?T (fill_file has_fchmod (fs_next F) body)
      (\<lambda>r. drafted F e (\<lambda>m b. r = Inr () \<longrightarrow> b = body \<and> (has_fchmod \<longrightarrow> m = OWNER_ONLY)))"
    using draftT m by (intro spec_fill_file)
  have pub: "osm_spec D u (drafted F e (\<lambda>m b. Inr x = Inr () \<longrightarrow> b = body \<and> (has_fchmod \<longrightarrow> m = OWNER_ONLY))) ?T (publish tmp final) ?R" for x :: unit
  proof (rule spec_drafted)
    fix m b assume "m AND NOT OWNER_ONLY = 0" "Inr x = Inr () \<longrightarrow> b = body \<and> (has_fchmod \<longrightarrow> m = OWNER_ONLY)"
    then have f: "finished has_fchmod body m" "b = body" by (simp_all add: finished_def)
    show "osm_spec D u (\<lambda>G. G = draft F e m b) ?T (publish tmp final) ?R"
      using pubT f \<open>m AND NOT OWNER_ONLY = 0\<close>
      by (intro spec_weaken [OF spec_publish [where F = F and T = ?T and m = m and b = b, OF tmp final ne(1)]]) (auto split: sum.splits intro: draftedI)
  qed
  show "osm_spec D u (\<lambda>G. G = draft F e m []) ?T (obind (fill_file has_fchmod (fs_next F) body) (\<lambda>_. publish tmp final)) ?R"
    by (rule spec_bind [OF fill pub]) (auto elim: drafted_mono)
  fix r :: "identity_refusal os_exn + unit"
  let ?Q = "\<lambda>r G. ?T G \<and> (r = Inr () \<longrightarrow> published has_fchmod body F e d G)"
  show "osm_spec D u (?R r) ?T (discard tmp) (\<lambda>q G. case q of Inl x \<Rightarrow> ?Q (Inl x :: identity_refusal os_exn + unit) G | Inr _ \<Rightarrow> ?Q r G)"
  proof (rule spec_split)
    fix G assume "?R r G"
    then consider (d) m b where "m AND NOT OWNER_ONLY = 0" "G = draft F e m b" "r \<noteq> Inr ()"
      | (p) m where "fs_names F d = None" "finished has_fchmod body m" "G = named d ?x (draft F e m body)" by (auto simp: drafted_def)
    then have "?Q r G \<and> ?Q r (named e None G)"
    proof cases
      case d
      then show ?thesis using draftT [OF draftedI [of m "\<lambda>m b. True" b F e]] ne(2) by (auto simp: stage_def drafts_def)
    next
      case p
      then have "published has_fchmod body F e d (named e None G)" unfolding published_def by blast
      with p pubT ne(2) show ?thesis by (simp add: stage_def)
    qed
    then show "osm_spec D u (\<lambda>X. X = G) ?T (discard tmp) (\<lambda>q G. case q of Inl x \<Rightarrow> ?Q (Inl x :: identity_refusal os_exn + unit) G | Inr _ \<Rightarrow> ?Q r G)"
      by (intro spec_weaken [OF spec_discard [where T = ?T and G = G, OF tmp]]) (auto split: sum.split)
  qed
qed

section \<open>Creation\<close>

lemma obind_simps [simp]: "obind (oret x) f = f x" "obind (oraise e) f = oraise e" "olift (Inr x) = oret x" "olift (Inl b) = oraise (Builtin_exn b)"
  by (rule ext, simp add: obind_def oret_def oraise_def) (rule ext, simp add: obind_def oret_def oraise_def, simp_all add: olift_def)

text \<open>What a creation writes, when its arguments are accepted.\<close>

definition to_write :: "ed25519 \<Rightarrow> bytes \<Rightarrow> pyval \<Rightarrow> pyval \<Rightarrow> pyval \<Rightarrow> bytes \<Rightarrow> ustr \<Rightarrow> bool" where
  "to_write ed seed agent_id tenant endpoint body aid \<longleftrightarrow>
     (\<exists>i t p a. agent_id = VStr i \<and> tenant = VStr t \<and> endpoint = VStr p \<and> i \<noteq> [] \<and> t \<noteq> [] \<and> p \<noteq> [] \<and>
        new_agent seed = Inr a \<and> agent_aid ed a = Inr aid \<and> identity_file_body ed a i t p = Inr body)"

definition write_out :: "bool \<Rightarrow> bool \<Rightarrow> ustr \<Rightarrow> bytes \<Rightarrow> ustr \<Rightarrow> bytes \<Rightarrow> ustr \<Rightarrow> (ustr \<times> ustr) idm" where
  "write_out has_fchmod posix cwd salt final body aid =
     (let tmp = tmp_path cwd salt final in
     obind (ocatch (sys_create tmp OWNER_ONLY) (\<lambda>e.
              if is_os_error e then oraise (IdentityFileError CannotCreate) else oraise e)) (\<lambda>fd.
     obind (ofinally (obind (fill_file has_fchmod fd body) (\<lambda>_. publish tmp final)) (discard tmp)) (\<lambda>_.
     obind (fsync_dir posix (dirname (abspath cwd final))) (\<lambda>_. oret (final, aid)))))"

lemma nonempty_str_cases:
  obtains e where "nonempty_str n v = oraise e" | x where "v = VStr x" "x \<noteq> []" "nonempty_str n v = oret x"
proof (cases "\<exists>x. v = VStr x \<and> x \<noteq> []")
  case True
  then show ?thesis using that(2) by (auto simp: nonempty_str_def)
next
  case False
  then have "nonempty_str n v = oraise (IdentityFileError (BadArgument n))" by (cases v) (auto simp: nonempty_str_def)
  then show ?thesis by (rule that(1))
qed

lemma create_cases:
  obtains (refused) e where "create_identity_file ed has_fchmod posix cwd seed salt final agent_id tenant endpoint = oraise e"
  | (written) body aid where "to_write ed seed agent_id tenant endpoint body aid"
      "create_identity_file ed has_fchmod posix cwd seed salt final agent_id tenant endpoint = write_out has_fchmod posix cwd salt final body aid"
proof (cases rule: nonempty_str_cases [of "''agent_id''" agent_id]; cases rule: nonempty_str_cases [of "''tenant''" tenant];
    cases rule: nonempty_str_cases [of "''endpoint''" endpoint])
  fix i t p
  assume a: "agent_id = VStr i" "i \<noteq> []" "nonempty_str ''agent_id'' agent_id = oret i"
    "tenant = VStr t" "t \<noteq> []" "nonempty_str ''tenant'' tenant = oret t"
    "endpoint = VStr p" "p \<noteq> []" "nonempty_str ''endpoint'' endpoint = oret p"
  show thesis
  proof (cases "new_agent seed")
    case (Inl e)
    with a show thesis by (intro refused) (simp add: create_identity_file_def)
  next
    case b: (Inr a)
    show thesis
    proof (cases "agent_aid ed a")
      case (Inl e)
      with a b show thesis by (intro refused) (simp add: create_identity_file_def identity_file_body_def)
    next
      case (Inr aid)
      with a b show thesis
        by (intro written [of _ aid])
          (auto simp: create_identity_file_def identity_file_body_def to_write_def write_out_def Let_def)
    qed
  qed
qed (auto simp: create_identity_file_def intro!: refused)

lemma basename_tmp: "basename (tmp_path cwd salt final) = 46 # basename final @ 46 # hex salt @ ustr ''.tmp''"
proof -
  have "47 \<notin> set (basename final)" unfolding basename_def using set_takeWhileD by fastforce
  moreover have "47 \<notin> set (hex salt)" using hex_chars by fastforce
  moreover have "47 \<notin> set (ustr ''.tmp'')" by (simp add: ustr_def)
  ultimately show ?thesis unfolding tmp_path_def by (intro basename_join) auto
qed

lemma tmp_entry_fresh:
  assumes "entry_of st (tmp_path cwd salt final) = Some e" "entry_of st' final = Some d" shows "e \<noteq> d"
proof -
  from assms have "snd e = basename (tmp_path cwd salt final)" "snd d = basename final" by (auto simp: entry_of_def split: if_splits)
  then have "length (snd e) \<noteq> length (snd d)" by (simp add: basename_tmp)
  then show ?thesis by auto
qed

lemma spec_fsync_dir:
  assumes "\<And>G. P G \<Longrightarrow> T G" shows "osm_spec D u P T (fsync_dir posix p) (\<lambda>r. P)"
proof -
  have 1: "osm_spec D u P T (sys_open_dir p :: nat idm) (\<lambda>r. P)"
    unfolding sys_open_dir_def using assms by (intro spec_syscall) (auto split: option.split)
  have 2: "osm_spec D u P T (ofinally (sys_fsync fd) (sys_close fd) :: unit idm) (\<lambda>r. P)" for fd
    by (rule spec_finally [OF spec_quiet(1)], erule assms)
      (rule spec_weaken [OF spec_quiet(2) [where P = P and T = T]], auto split: sum.split intro: assms)
  show ?thesis unfolding fsync_dir_def by (intro spec_if spec_ret spec_bind [OF 1 2])
qed

definition on_the_way :: "bool \<Rightarrow> bytes \<Rightarrow> fs \<Rightarrow> entry option \<Rightarrow> entry \<Rightarrow> fs \<Rightarrow> bool" where
  "on_the_way has_fchmod body F eo d G \<longleftrightarrow> G = F \<or> (\<exists>e. eo = Some e \<and> stage has_fchmod body F e d G)"

lemma spec_write_out:
  assumes tmp: "\<And>st. os_dir st = D \<Longrightarrow> entry_of st (tmp_path cwd salt final) = eo"
    and final: "\<And>st. os_dir st = D \<Longrightarrow> entry_of st final = Some d" and ne: "\<And>e. eo = Some e \<Longrightarrow> e \<noteq> d"
  shows "osm_spec D u (\<lambda>G. G = F) (on_the_way has_fchmod body F eo d) (write_out has_fchmod posix cwd salt final body aid)
    (\<lambda>r G. on_the_way has_fchmod body F eo d G \<and>
       (\<forall>x. r = Inr x \<longrightarrow> x = (final, aid) \<and> (\<exists>e. eo = Some e \<and> published has_fchmod body F e d G)))"
    (is "osm_spec D u _ ?T _ ?Q")
proof -
  let ?tmp = "tmp_path cwd salt final" and ?m = "OWNER_ONLY AND NOT u"
  let ?C = "\<lambda>r G. case r of Inl _ \<Rightarrow> G = F
       | Inr fd \<Rightarrow> \<exists>e. eo = Some e \<and> fs_names F e = None \<and> fd = fs_next F \<and> G = draft F e ?m []"
  let ?P = "\<lambda>G. \<exists>e. eo = Some e \<and> published has_fchmod body F e d G"
  let ?R = "\<lambda>r :: identity_refusal os_exn + unit. \<lambda>G. ?T G \<and> (r = Inr () \<longrightarrow> ?P G)"
  have T: "?T (draft F e ?m [])" if "eo = Some e" "fs_names F e = None" for e
    using that mode_masked unfolding on_the_way_def stage_def drafts_def by blast
  have 1: "osm_spec D u (\<lambda>G. G = F) ?T (ocatch (sys_create ?tmp OWNER_ONLY) (\<lambda>e.
      if is_os_error e then oraise (IdentityFileError CannotCreate) else oraise e) :: nat idm) ?C"
    by (rule spec_catch [OF spec_create [where T = ?T, OF tmp T]]) (auto intro!: spec_if spec_raise)
  have 2: "osm_spec D u (?C (Inr fd)) ?T
      (ofinally (obind (fill_file has_fchmod fd body) (\<lambda>_. publish ?tmp final)) (discard ?tmp)) ?R" for fd
  proof -
    have "osm_spec D u (\<lambda>G. \<exists>e. (eo = Some e \<and> fs_names F e = None \<and> fd = fs_next F) \<and> G = draft F e ?m []) ?T
      (ofinally (obind (fill_file has_fchmod fd body) (\<lambda>_. publish ?tmp final)) (discard ?tmp)) ?R"
    proof (intro spec_exI spec_assume, elim conjE)
      fix e assume e: "eo = Some e" "fs_names F e = None" "fd = fs_next F"
      then show "osm_spec D u (\<lambda>G. G = draft F e ?m []) ?T
        (ofinally (obind (fill_file has_fchmod fd body) (\<lambda>_. publish ?tmp final)) (discard ?tmp)) ?R"
        using tmp ne [OF e(1)] mode_masked
        by (auto simp: on_the_way_def intro!: spec_weaken [OF spec_try [where e = e and d = d and F = F and m = ?m, OF _ final]])
    qed
    then show ?thesis by (rule spec_weaken) auto
  qed
  have 3: "osm_spec D u (?R (Inr x)) ?T (obind (fsync_dir posix p) (\<lambda>_. oret (final, aid))) ?Q" for x p
    by (rule spec_bind [OF spec_fsync_dir [where P = "?R (Inr x)"]]) (auto intro!: spec_ret)
  show ?thesis unfolding write_out_def Let_def
    by (rule spec_bind [OF 1 spec_bind [OF 2 3]]) (auto simp: on_the_way_def)
qed

text \<open>A file system in which inodes are handed out in order; what was there is there; a name that holds a whole
  identity, private to its owner.\<close>

definition fs_ok :: "fs \<Rightarrow> bool" where
  "fs_ok F \<longleftrightarrow> (\<forall>x i. fs_names F x = Some (Regular i) \<longrightarrow> i < fs_next F)"

definition keeps_files :: "fs \<Rightarrow> fs \<Rightarrow> bool" where
  "keeps_files F G \<longleftrightarrow> (\<forall>x n. fs_names F x = Some n \<longrightarrow> fs_names G x = Some n) \<and> (\<forall>i < fs_next F. fs_inodes G i = fs_inodes F i)"

definition owner_private :: "mode \<Rightarrow> bool" where
  "owner_private m \<longleftrightarrow> m AND NOT OWNER_ONLY = 0"

definition holds_file :: "bool \<Rightarrow> entry \<Rightarrow> bytes \<Rightarrow> fs \<Rightarrow> bool" where
  "holds_file has_fchmod d body G \<longleftrightarrow> (\<exists>i. fs_names G d = Some (Regular i) \<and> f_data (fs_inodes G i) = body \<and>
     owner_private (f_mode (fs_inodes G i)) \<and> (has_fchmod \<longrightarrow> f_mode (fs_inodes G i) = OWNER_ONLY))"

lemma published_holds: "published has_fchmod body F e d G \<Longrightarrow> e \<noteq> d \<Longrightarrow> fs_names F d = None \<and> holds_file has_fchmod d body G"
  by (auto simp: published_def holds_file_def finished_def owner_private_def)

lemma stage_keeps:
  assumes "stage has_fchmod body F e d G" "e \<noteq> d"
  shows "keeps_files F G" "fs_names F d = None \<Longrightarrow> fs_names G d = None \<or> holds_file has_fchmod d body G"
    "fs_inodes G i \<noteq> fs_inodes F i \<Longrightarrow> owner_private (f_mode (fs_inodes G i))"
proof -
  consider "G = F" | (d) "fs_names F e = None" "drafts F e G" | (p) "fs_names F e = None" "published has_fchmod body F e d G"
    using assms(1) by (auto simp: stage_def)
  then have "keeps_files F G \<and> (fs_names F d = None \<longrightarrow> fs_names G d = None \<or> holds_file has_fchmod d body G) \<and>
    (fs_inodes G i \<noteq> fs_inodes F i \<longrightarrow> owner_private (f_mode (fs_inodes G i)))"
  proof cases
    case d
    with assms(2) show ?thesis by (auto simp: drafts_def keeps_files_def owner_private_def)
  next
    case p
    moreover from p assms(2) have "fs_names F d = None" "holds_file has_fchmod d body G" using published_holds by blast+
    ultimately show ?thesis by (auto simp: published_def finished_def keeps_files_def owner_private_def)
  qed (simp add: keeps_files_def)
  then show "keeps_files F G" "fs_names F d = None \<Longrightarrow> fs_names G d = None \<or> holds_file has_fchmod d body G"
    "fs_inodes G i \<noteq> fs_inodes F i \<Longrightarrow> owner_private (f_mode (fs_inodes G i))" by simp_all
qed

lemma create_runs:
  assumes "create_identity_file ed has_fchmod posix cwd seed salt final agent_id tenant endpoint st = (r, st')"
    and "entry_of st final = Some d"
  obtains (refused) e where "r = Inl e" "st' = st"
  | (written) body aid ts where "to_write ed seed agent_id tenant endpoint body aid" "os_dir st' = os_dir st" "os_trace st' = os_trace st @ ts"
      "\<And>G. G \<in> set (ts @ [os_fs st']) \<Longrightarrow> G \<noteq> os_fs st \<Longrightarrow> \<exists>e. e \<noteq> d \<and> stage has_fchmod body (os_fs st) e d G"
      "\<And>x. r = Inr x \<Longrightarrow> x = (final, aid) \<and> fs_names (os_fs st) d = None \<and> holds_file has_fchmod d body (os_fs st')"
proof (cases rule: create_cases [of ed has_fchmod posix cwd seed salt final agent_id tenant endpoint])
  case (refused e)
  with assms(1) have "r = Inl e" "st' = st" by (simp_all add: oraise_def)
  then show thesis by (rule that(1))
next
  case (written body aid)
  let ?F = "os_fs st" and ?eo = "entry_of st (tmp_path cwd salt final)"
  have same: "entry_of s p = entry_of st p" if "os_dir s = os_dir st" for s p using that by (simp add: entry_of_def)
  have ne: "e \<noteq> d" if "?eo = Some e" for e using tmp_entry_fresh [OF that assms(2)] .
  have run: "write_out has_fchmod posix cwd salt final body aid st = (r, st')" using assms(1) written(2) by simp
  have spec: "osm_spec (os_dir st) (os_umask st) (\<lambda>G. G = ?F) (on_the_way has_fchmod body ?F ?eo d) (write_out has_fchmod posix cwd salt final body aid)
      (\<lambda>r G. on_the_way has_fchmod body ?F ?eo d G \<and>
         (\<forall>x. r = Inr x \<longrightarrow> x = (final, aid) \<and> (\<exists>e. ?eo = Some e \<and> published has_fchmod body ?F e d G)))"
    by (rule spec_write_out, erule same, erule trans [OF same assms(2)], erule ne)
  obtain ts where ts: "os_dir st' = os_dir st" "on_the_way has_fchmod body ?F ?eo d (os_fs st') \<and>
      (\<forall>x. r = Inr x \<longrightarrow> x = (final, aid) \<and> (\<exists>e. ?eo = Some e \<and> published has_fchmod body ?F e d (os_fs st')))"
    "os_trace st' = os_trace st @ ts" "\<forall>G \<in> set ts. on_the_way has_fchmod body ?F ?eo d G"
    by (rule spec_run [OF spec run refl refl refl])
  show thesis
  proof (rule that(2) [OF written(1) ts(1,3)])
    fix G assume "G \<in> set (ts @ [os_fs st'])" "G \<noteq> ?F"
    with ts(2,4) have "on_the_way has_fchmod body ?F ?eo d G" by auto
    with \<open>G \<noteq> ?F\<close> ne show "\<exists>e. e \<noteq> d \<and> stage has_fchmod body ?F e d G" unfolding on_the_way_def by blast
  next
    fix x assume "r = Inr x"
    with ts(2) obtain e where e: "x = (final, aid)" "?eo = Some e" "published has_fchmod body ?F e d (os_fs st')" by blast
    with published_holds [OF e(3) ne [OF e(2)]] show "x = (final, aid) \<and> fs_names ?F d = None \<and> holds_file has_fchmod d body (os_fs st')" by blast
  qed
qed

text \<open>C16: Creating an identity file is atomic and never clobbers, whichever system call fails and however little
  a write takes. In every file system on the way, which is what a concurrent reader or a crash can see,
  every name that existed leads where it led and every file holds what it held; the chosen name is
  still free or holds the whole identity, readable by its owner only; no new file is ever readable by
  others. The call succeeds only if the name was free and now holds the identity.\<close>

theorem create_never_clobbers:
  assumes "create_identity_file ed has_fchmod posix cwd seed salt final agent_id tenant endpoint st = (r, st')"
    and "entry_of st final = Some d" and "fs_ok (os_fs st)"
  shows "\<exists>ts. os_trace st' = os_trace st @ ts \<and>
    (\<forall>G \<in> set (ts @ [os_fs st']).
       (\<forall>x n. fs_names (os_fs st) x = Some n \<longrightarrow> fs_names G x = Some n \<and> (\<forall>i. n = Regular i \<longrightarrow> fs_inodes G i = fs_inodes (os_fs st) i)) \<and>
       (fs_names (os_fs st) d = None \<longrightarrow> fs_names G d = None \<or>
          (\<exists>body aid. to_write ed seed agent_id tenant endpoint body aid \<and> holds_file has_fchmod d body G)) \<and>
       (\<forall>i. fs_inodes G i \<noteq> fs_inodes (os_fs st) i \<longrightarrow> owner_private (f_mode (fs_inodes G i)))) \<and>
    (\<forall>p aid. r = Inr (p, aid) \<longrightarrow> p = final \<and> fs_names (os_fs st) d = None \<and>
       (\<exists>body. to_write ed seed agent_id tenant endpoint body aid \<and> holds_file has_fchmod d body (os_fs st')))"
  using assms(1,2)
proof (cases rule: create_runs)
  case (refused e)
  then show ?thesis by (intro exI [of _ "[]"]) simp
next
  case (written body aid ts)
  let ?F = "os_fs st"
  show ?thesis
  proof (intro exI [of _ ts] conjI ballI allI impI, rule written(3))
    fix G assume G: "G \<in> set (ts @ [os_fs st'])"
    have "(\<forall>x n. fs_names ?F x = Some n \<longrightarrow> fs_names G x = Some n \<and> (\<forall>i. n = Regular i \<longrightarrow> fs_inodes G i = fs_inodes ?F i)) \<and>
       (fs_names ?F d = None \<longrightarrow> fs_names G d = None \<or> holds_file has_fchmod d body G) \<and>
       (\<forall>i. fs_inodes G i \<noteq> fs_inodes ?F i \<longrightarrow> owner_private (f_mode (fs_inodes G i)))"
    proof (cases "G = ?F")
      case False
      with written(4) [OF G] obtain e where e: "e \<noteq> d" "stage has_fchmod body ?F e d G" by blast
      note k = stage_keeps [OF e(2,1)]
      from k(1) assms(3) have "\<forall>x n. fs_names ?F x = Some n \<longrightarrow> fs_names G x = Some n \<and> (\<forall>i. n = Regular i \<longrightarrow> fs_inodes G i = fs_inodes ?F i)"
        unfolding keeps_files_def fs_ok_def by blast
      with k(2,3) show ?thesis by blast
    qed simp
    then show "fs_names ?F x = Some n \<Longrightarrow> fs_names G x = Some n" "fs_names ?F x = Some n \<Longrightarrow> n = Regular i \<Longrightarrow> fs_inodes G i = fs_inodes ?F i"
      "fs_names ?F d = None \<Longrightarrow> fs_names G d = None \<or> (\<exists>body aid. to_write ed seed agent_id tenant endpoint body aid \<and> holds_file has_fchmod d body G)"
      "fs_inodes G i \<noteq> fs_inodes ?F i \<Longrightarrow> owner_private (f_mode (fs_inodes G i))" for x n i using written(1) by blast+
  qed (use written(1) written(5) in blast)+
qed

text \<open>A directory in which the name is taken.\<close>

definition taken :: os where
  "taken =
     \<lparr>os_fs = \<lparr>fs_names = [(0, ustr ''id'') \<mapsto> Regular 0], fs_inodes = (\<lambda>i. \<lparr>f_mode = 0x1A4, f_data = [42]\<rparr>), fs_next = 1\<rparr>,
      os_dir = (\<lambda>p. Some 0), os_umask = 0x12, os_faults = [], os_chunks = [1, 7], os_trace = []\<rparr>"

theorem create_never_clobbers_witness:
  "\<exists>e st'. create_identity_file example_ed True True [47] (replicate 32 7) [1] (ustr ''id'') (VStr (ustr ''a'')) (VStr (ustr ''t'')) (VStr (ustr ''h'')) taken
      = (Inl e, st') \<and> fs_names (os_fs st') (0, ustr ''id'') = Some (Regular 0) \<and> f_data (fs_inodes (os_fs st') 0) = [42]"
proof -
  let ?c = "create_identity_file example_ed True True [47] (replicate 32 7) [1] (ustr ''id'') (VStr (ustr ''a'')) (VStr (ustr ''t'')) (VStr (ustr ''h'')) taken"
  obtain r st' where run: "?c = (r, st')" by (cases ?c)
  have entry: "entry_of taken (ustr ''id'') = Some (0, ustr ''id'')" by (simp add: entry_of_def taken_def basename_def ustr_def)
  have was: "fs_names (os_fs taken) (0, ustr ''id'') = Some (Regular 0)" "f_data (fs_inodes (os_fs taken) 0) = [42]" by (simp_all add: taken_def)
  have ok: "fs_ok (os_fs taken)" by (simp add: fs_ok_def taken_def)
  note all = create_never_clobbers [OF run entry ok]
  from all have 1: "fs_names (os_fs st') (0, ustr ''id'') = Some (Regular 0) \<and> fs_inodes (os_fs st') 0 = fs_inodes (os_fs taken) 0"
    using was(1) by (elim exE conjE) (drule bspec [of _ _ "os_fs st'"], simp, blast)
  from all have 2: "\<forall>p aid. r \<noteq> Inr (p, aid)" using was(1) by (elim exE conjE) (metis option.distinct(1))
  then obtain e where "r = Inl e" by (cases r) auto
  with run 1 was(2) show ?thesis by auto
qed

section \<open>The loaders\<close>

text \<open>What the documentation of Ed25519 promises of keys: 32 bytes make a private key, and public keys have 32 bytes.\<close>

definition ed25519_keys :: "ed25519 \<Rightarrow> bool" where
  "ed25519_keys ed \<longleftrightarrow> (\<forall>seed. length seed = 32 \<longrightarrow> (\<exists>sk. from_private_bytes ed seed = Inr sk \<and> length (public_bytes_raw ed sk) = 32))"

lemma fromhex_total: "list_all hex_char s \<Longrightarrow> even (length s) \<Longrightarrow> \<exists>b. fromhex s = Inr b \<and> 2 * length b = length s"
proof (induction s rule: fromhex.induct)
  case (2 c cs)
  have v: "\<not> is_ascii_space x \<and> hex_value x \<noteq> None" if "hex_char x" for x
    using that by (auto simp: hex_char_def lower_hex_char_def is_ascii_space_def hex_value_def)
  from 2(4) obtain x ds where cs: "cs = x # ds" by (cases cs) auto
  with 2(3) v obtain h l where hl: "hex_value c = Some h" "hex_value x = Some l" "\<not> is_ascii_space c" by fastforce
  from 2(2) [OF hl(3) cs _ hl(1,2)] 2(3,4) cs obtain b where "fromhex ds = Inr b" "2 * length b = length ds" by auto
  with hl cs show ?case by auto
qed simp

lemma validate_ok:
  assumes "validate data = Inr d"
  obtains s where "data = VDict d" "dict_get d ''seed_hex'' = VStr s" "is_seed_hex s" "in_dict d ''aid'' \<Longrightarrow> \<exists>a. dict_get d ''aid'' = VStr a"
  using assms unfolding validate_def by (auto split: pyval.splits if_splits)

lemma seed_agent:
  assumes "is_seed_hex s" "ed25519_keys ed"
  obtains seed aid where "decode_seed s = Inr seed" "new_agent seed = Inr \<lparr>ag_seed = seed\<rparr>" "agent_aid ed \<lparr>ag_seed = seed\<rparr> = Inr aid"
    "derive_aid ed s = Inr aid"
proof -
  have "length s = 64" "list_all hex_char s" using assms(1) unfolding is_seed_hex_def fullmatch_def
    by (auto simp: list_all2_conv_all_nth list_all_length)
  with fromhex_total [of s] obtain seed where 1: "fromhex s = Inr seed" "length seed = 32" by auto
  with assms(2) obtain sk where "from_private_bytes ed seed = Inr sk" by (auto simp: ed25519_keys_def)
  with 1 show thesis by (intro that [of seed]) (auto simp: decode_seed_def new_agent_def agent_aid_def derive_aid_def)
qed


section \<open>What was created loads\<close>

lemma json_str_no_cr: "13 \<notin> set (json_str t)"
proof -
  have d: "13 \<noteq> hex_digit v" for v by (simp add: hex_digit_def)
  have "13 \<notin> set (escape_ascii c)" for c using d by (simp add: escape_ascii_def hex_04x_def)
  then show ?thesis by (simp add: json_str_def)
qed

lemma dumps_no_cr: "13 \<notin> set (json_dumps style level d)"
proof -
  have lay: "list_all (\<lambda>c. c \<noteq> 13) (newline_indent style level)" "list_all (\<lambda>c. c \<noteq> 13) (after_comma style level)" "list_all (\<lambda>c. c \<noteq> 13) (after_colon style)"
    for style level by (auto simp: newline_indent_def after_comma_def after_colon_def list_all_iff split: json_style.split)
  have str: "list_all (\<lambda>c. c \<noteq> 13) (json_str t)" for t using json_str_no_cr [of t] by (auto simp: list_all_iff)
  have "list_all (\<lambda>c. c \<noteq> 13) (json_dumps style level d)"
  proof (induction style level d rule: json_dumps.induct)
    case (1 style level n)
    then show ?case using str_int_chars [of _ n] by (fastforce simp: list_all_iff)
  qed (auto simp: lay str intro!: join_with_all)
  then show ?thesis by (auto simp: list_all_iff)
qed

lemma universal_newlines_id: "13 \<notin> set s \<Longrightarrow> universal_newlines s = s"
  by (induction s rule: universal_newlines.induct) auto

lemma decode_dumps:
  assumes "proper_doc d" "doc_depth d \<le> depth"
  shows "rbind (utf8_decode (dumps_bytes style d @ [10])) (\<lambda>t. json_loads_str plain_dict depth (universal_newlines t)) = Inr (jval d)"
proof -
  let ?s = "json_dumps style 0 d @ [10]"
  have "list_all visible ?s" using dumps_visible [OF assms(1), of style 0] by (simp add: visible_def)
  then have "utf8_encode ?s = Inr (dumps_bytes style d @ [10])"
    by (subst utf8_encode_ascii) (auto simp: list_all_iff visible_def dumps_bytes_def)
  from utf8_decode_encode [OF this] have "utf8_decode (dumps_bytes style d @ [10]) = Inr ?s" .
  moreover have "universal_newlines ?s = ?s" using dumps_no_cr by (intro universal_newlines_id) simp
  moreover have "json_loads_str plain_dict depth ?s = Inr (jval d)"
    using assms by (intro plain_hook.dumps_loads) (simp_all add: is_json_space_def)
  ultimately show ?thesis by simp
qed

lemma seed_shape: "length seed = 32 \<Longrightarrow> is_seed_hex (hex seed)"
  using hex_lower [of seed] by (auto simp: is_seed_hex_def fullmatch_def list_all2_conv_all_nth list_all_length hex_char_def)

lemma aid_shape: "length k = 32 \<Longrightarrow> is_aid (aid_from_pubkey k)"
proof -
  assume k: "length k = 32"
  have "token_char (b64_char v)" for v by (auto simp: b64_char_def token_char_def)
  then have "list_all token_char (b64url_nopad k)"
    using b64_chars_set [of _ k] unfolding b64url_nopad_eq list_all_iff by metis
  with k have "list_all2 (\<lambda>p c. p c) (replicate 43 token_char) (b64url_nopad k)"
    by (auto simp: list_all2_conv_all_nth list_all_length length_b64url_nopad)
  moreover have "list_all2 (\<lambda>p c. p c) (map (=) AID_PREFIX) AID_PREFIX" by (simp add: list_all2_conv_all_nth)
  ultimately show ?thesis unfolding is_aid_def fullmatch_def aid_from_pubkey_def by (rule list_all2_appendI [rotated])
qed

lemma identity_doc_proper:
  assumes "proper_text i" "proper_text t" "proper_text p" "\<forall>c \<in> set aid. c < 0x80"
  shows "proper_doc (identity_doc seed i t p aid)" "doc_depth (identity_doc seed i t p aid) = 1"
proof -
  have "proper_text (hex seed)" using hex_chars [of _ seed] by (intro proper_ascii) fastforce
  moreover have "proper_text aid" using assms(4) by (rule proper_ascii)
  moreover have "proper_text (ustr k)" if "k \<in> {''version'', ''seed_hex'', ''agent_id'', ''tenant'', ''endpoint'', ''aid''}" for k
    using that by (intro proper_ascii) (auto simp: ustr_def)
  ultimately show "proper_doc (identity_doc seed i t p aid)" using assms(1-3)
    by (simp add: identity_doc_def SCHEMA_VERSION_def INT_MAX_STR_DIGITS_def str_nat.simps) (simp add: ustr_def)
  show "doc_depth (identity_doc seed i t p aid) = 1" by (simp add: identity_doc_def)
qed

lemma validate_identity:
  assumes "length seed = 32" "length k = 32" "i \<noteq> []" "t \<noteq> []" "p \<noteq> []"
  shows "\<exists>d. validate (jval (identity_doc seed i t p (aid_from_pubkey k))) = Inr d \<and> dict_get d ''seed_hex'' = VStr (hex seed) \<and>
    dict_get d ''agent_id'' = VStr i \<and> dict_get d ''tenant'' = VStr t \<and> dict_get d ''endpoint'' = VStr p \<and>
    in_dict d ''aid'' \<and> dict_get d ''aid'' = VStr (aid_from_pubkey k)"
proof -
  let ?d = "[(VStr (ustr ''version''), VInt 1), (VStr (ustr ''seed_hex''), VStr (hex seed)), (VStr (ustr ''agent_id''), VStr i),
    (VStr (ustr ''tenant''), VStr t), (VStr (ustr ''endpoint''), VStr p), (VStr (ustr ''aid''), VStr (aid_from_pubkey k))]"
  have get: "dict_get ?d ''version'' = VInt 1" "dict_get ?d ''seed_hex'' = VStr (hex seed)" "dict_get ?d ''agent_id'' = VStr i"
    "dict_get ?d ''tenant'' = VStr t" "dict_get ?d ''endpoint'' = VStr p" "dict_get ?d ''aid'' = VStr (aid_from_pubkey k)"
    "in_dict ?d ''seed_hex''" "in_dict ?d ''aid''"
    by (simp_all add: dict_get_def in_dict_def ustr_def)
  have v: "jval (identity_doc seed i t p (aid_from_pubkey k)) = VDict ?d" by (simp add: identity_doc_def SCHEMA_VERSION_def)
  have "missing_fields ?d = []" using assms(3-5) by (simp add: missing_fields_def get py_truthy_def)
  with assms seed_shape aid_shape have "validate (VDict ?d) = Inr ?d" by (simp add: validate_def get equals_one_def)
  with v get show ?thesis by (intro exI [of _ ?d]) simp
qed

lemma read_identity:
  assumes "entry_of st final = Some d" "holds_file has_fchmod d (dumps_bytes style doc @ [10]) (os_fs st)" "os_faults st = []"
    and "proper_doc doc" "doc_depth doc \<le> depth" "validate (jval doc) = Inr dict"
  shows "\<exists>st'. read_and_validate depth env (Some final) st = (Inr dict, st')"
proof -
  from assms(1) have ne: "final \<noteq> []" by (auto simp: entry_of_def basename_def split: if_splits)
  obtain i where i: "fs_names (os_fs st) d = Some (Regular i)" "f_data (fs_inodes (os_fs st) i) = dumps_bytes style doc @ [10]"
    using assms(2) by (auto simp: holds_file_def)
  then obtain u where u: "(sys_read final :: bytes idm) st = (Inr (dumps_bytes style doc @ [10]), u)"
    using assms(1,3) by (auto simp: sys_read_def syscall_def Let_def)
  have "rbind (utf8_decode (dumps_bytes style doc @ [10])) (\<lambda>t. json_loads_str plain_dict depth (universal_newlines t)) = Inr (jval doc)"
    using assms(4,5) by (rule decode_dumps)
  then obtain t where t: "utf8_decode (dumps_bytes style doc @ [10]) = Inr t" "json_loads_str plain_dict depth (universal_newlines t) = Inr (jval doc)"
    unfolding rbind_eq_Inr by blast
  have "read_and_validate depth env (Some final) st = (Inr dict, u)"
    using ne u assms(6) by (simp add: read_and_validate_def Let_def obind_def ocatch_def olift_def t oret_def)
  then show ?thesis by blast
qed

text \<open>C17: What \<open>create_identity_file\<close> wrote, both loaders read back: the agent is the generated one, its fields
  are those given, and the AID returned by the creation is the one the facts name and the agent has.
  The text fields may hold anything but surrogates.\<close>

theorem create_then_load:
  assumes "ed25519_keys ed" and "create_identity_file ed has_fchmod posix cwd seed salt final (VStr i) (VStr t) (VStr p) st = (Inr (path, aid), st')"
    and "entry_of st final = Some d" "os_faults st' = []" "1 \<le> depth"
    and "proper_text i" "proper_text t" "proper_text p"
  shows "(\<exists>st1. load_identity_file ed depth show_other env (Some path) st' =
      (Inr \<lparr>li_agent = \<lparr>ag_seed = seed\<rparr>, li_agent_id = i, li_tenant = t, li_endpoint = p\<rparr>, st1)) \<and>
    (\<exists>st2. load_identity_facts ed depth show_other env (Some path) st' =
      (Inr \<lparr>if_agent_id = i, if_tenant = t, if_endpoint = p, if_aid = aid\<rparr>, st2)) \<and>
    agent_aid ed \<lparr>ag_seed = seed\<rparr> = Inr aid"
  using assms(2,3)
proof (cases rule: create_runs)
  case (written body a ts)
  from written(5) [OF refl] have r: "path = final" "a = aid" "holds_file has_fchmod d body (os_fs st')" by simp_all
  let ?a = "\<lparr>ag_seed = seed\<rparr>" and ?doc = "identity_doc seed i t p aid"
  from written(1) r(2) have w: "i \<noteq> []" "t \<noteq> []" "p \<noteq> []" "length seed = 32" "agent_aid ed ?a = Inr aid" "body = dumps_bytes (Indent 2) ?doc @ [10]"
    by (auto simp: to_write_def new_agent_def identity_file_body_def split: if_splits)
  from assms(1) w(4,5) obtain sk where "from_private_bytes ed seed = Inr sk" "length (public_bytes_raw ed sk) = 32" by (auto simp: ed25519_keys_def)
  with w(5) obtain k where k: "aid = aid_from_pubkey k" "length k = 32" by (auto simp: agent_aid_def)
  from validate_identity [OF w(4) k(2) w(1-3)] obtain dict where dict: "validate (jval ?doc) = Inr dict" "dict_get dict ''seed_hex'' = VStr (hex seed)"
    "dict_get dict ''agent_id'' = VStr i" "dict_get dict ''tenant'' = VStr t" "dict_get dict ''endpoint'' = VStr p"
    "in_dict dict ''aid''" "dict_get dict ''aid'' = VStr aid" unfolding k(1) by blast
  have ascii: "\<forall>c \<in> set aid. c < 0x80" using aid_ascii k(1) by blast
  note doc = identity_doc_proper [OF assms(6-8) ascii, of seed]
  have "entry_of st' final = entry_of st final" unfolding entry_of_def written(2) ..
  with assms(3) have "entry_of st' final = Some d" by simp
  then have "\<exists>u. read_and_validate depth env (Some final) st' = (Inr dict, u)"
    using r(3) assms(4,5) doc dict(1) unfolding w(6) by (intro read_identity) simp_all
  then obtain u where u: "read_and_validate depth env (Some path) st' = (Inr dict, u)" unfolding r(1) by blast
  have seed: "decode_seed (hex seed) = Inr seed" "new_agent seed = Inr ?a" using w(4) by (simp_all add: decode_seed_def fromhex_hex new_agent_def)
  show ?thesis using u dict seed w(5)
    by (simp add: load_identity_file_def load_identity_facts_def obind_def oret_def olift_def text_of_def py_str_def)
qed simp

text \<open>When no call fails and the names are free, the creation succeeds.\<close>

definition calm :: "(ustr \<Rightarrow> nat option) \<Rightarrow> (entry \<Rightarrow> node option) \<Rightarrow> os \<Rightarrow> bool" where
  "calm D N st \<longleftrightarrow> os_faults st = [] \<and> os_dir st = D \<and> fs_names (os_fs st) = N"

lemma calm_syscall:
  assumes "calm D N st" "f st = Inr (x, new)" "fs_names new = N'"
  shows "\<exists>u. syscall f st = (Inr x, u) \<and> calm D N' u"
  using assms by (auto simp: calm_def syscall_def Let_def)

lemma calm_write_all:
  "calm D N st \<Longrightarrow> \<exists>u. (write_all i b :: unit idm) st = (Inr (), u) \<and> calm D N u"
proof (induction "length b" arbitrary: b st rule: less_induct)
  case less
  show ?case
  proof (cases "b = []")
    case False
    let ?n = "write_count st b"
    have "\<exists>u. (sys_write i b :: nat idm) st = (Inr ?n, u) \<and> calm D N u"
      unfolding sys_write_def Let_def by (rule calm_syscall [OF _ refl]) (use less(2) in \<open>simp_all add: calm_def\<close>)
    then obtain u where u: "(sys_write i b :: nat idm) st = (Inr ?n, u)" "calm D N u" by blast
    have "0 < ?n" using False by (auto simp: write_count_def less_max_iff_disj split: list.split)
    then have "length (drop ?n b) < length b" using False by simp
    from less(1) [OF this u(2)] u(1) False show ?thesis by (subst write_all.simps) auto
  qed (use less(2) in \<open>auto simp: write_all.simps\<close>)
qed

lemma calm_quiet:
  assumes "calm D N st"
  shows "\<exists>u. (sys_fsync i :: unit idm) st = (Inr (), u) \<and> calm D N u" "\<exists>u. (sys_close i :: unit idm) st = (Inr (), u) \<and> calm D N u"
    "\<exists>u. (sys_fchmod i m :: unit idm) st = (Inr (), u) \<and> calm D N u" "\<exists>x u. D p = Some x \<longrightarrow> (sys_open_dir p :: nat idm) st = (Inr x, u) \<and> calm D N u"
  using assms by (auto simp: sys_fsync_def sys_close_def sys_fchmod_def sys_open_dir_def calm_def syscall_def Let_def split: option.split)

lemma calm_bind:
  assumes "\<exists>u. m st = (Inr x, u) \<and> calm D N u" "\<And>u. calm D N u \<Longrightarrow> \<exists>v. f x u = (Inr y, v) \<and> calm D M v"
  shows "\<exists>v. obind m f st = (Inr y, v) \<and> calm D M v"
  using assms by (fastforce simp: obind_def)

lemma calm_finally:
  assumes "\<exists>u. m st = (Inr x, u) \<and> calm D N u" "\<And>u. calm D N u \<Longrightarrow> \<exists>v. f u = (Inr (), v) \<and> calm D M v"
  shows "\<exists>v. ofinally m f st = (Inr x, v) \<and> calm D M v"
  using assms by (fastforce simp: ofinally_def)

lemma calm_catch:
  assumes "\<exists>u. m st = (Inr x, u) \<and> calm D N u" shows "\<exists>u. ocatch m h st = (Inr x, u) \<and> calm D N u"
  using assms by (auto simp: ocatch_def)

lemma calm_entry: "calm D N st \<Longrightarrow> entry_of st p = (if basename p = [] then None else map_option (\<lambda>d. (d, basename p)) (D (path_head p)))"
  by (simp add: entry_of_def calm_def)

lemma calm_create:
  assumes "calm D N st" "entry_of st tmp = Some e" "N e = None"
  shows "\<exists>u. (sys_create tmp m :: nat idm) st = (Inr (fs_next (os_fs st)), u) \<and> calm D (N(e \<mapsto> Regular (fs_next (os_fs st)))) u"
  unfolding sys_create_def by (rule calm_syscall [OF assms(1)]) (use assms in \<open>auto simp: calm_def Let_def\<close>)

lemma calm_publish:
  assumes "calm D N st" "entry_of st tmp = Some e" "entry_of st final = Some d" "N e = Some x" "N d = None"
  shows "\<exists>u. publish tmp final st = (Inr (), u) \<and> calm D (N(d \<mapsto> x)) u"
proof -
  have "\<exists>u. (sys_link tmp final :: unit idm) st = (Inr (), u) \<and> calm D (N(d \<mapsto> x)) u"
    unfolding sys_link_def by (rule calm_syscall [OF assms(1)]) (use assms in \<open>auto simp: calm_def\<close>)
  then show ?thesis unfolding publish_def by (rule calm_catch)
qed

lemma calm_discard:
  assumes "calm D N st" "entry_of st tmp = Some e" "N e \<noteq> None"
  shows "\<exists>u. discard tmp st = (Inr (), u) \<and> calm D (N(e := None)) u"
proof -
  have "\<exists>u. (sys_unlink tmp :: unit idm) st = (Inr (), u) \<and> calm D (N(e := None)) u"
    unfolding sys_unlink_def by (rule calm_syscall [OF assms(1)]) (use assms in \<open>auto simp: calm_def\<close>)
  then show ?thesis unfolding discard_def by (rule calm_catch)
qed

lemma create_succeeds:
  assumes w: "to_write ed seed agent_id tenant endpoint body aid" and calm: "os_faults st = []"
    and final: "entry_of st final = Some d" "fs_names (os_fs st) d = None"
    and tmp: "entry_of st (tmp_path cwd salt final) = Some e" "fs_names (os_fs st) e = None"
    and dir: "os_dir st (dirname (abspath cwd final)) = Some x"
  shows "\<exists>u. create_identity_file ed has_fchmod posix cwd seed salt final agent_id tenant endpoint st = (Inr (final, aid), u) \<and> os_faults u = []"
proof -
  let ?N = "fs_names (os_fs st)" and ?D = "os_dir st" and ?tmp = "tmp_path cwd salt final" and ?i = "fs_next (os_fs st)"
  let ?N1 = "?N(e \<mapsto> Regular ?i)" let ?N2 = "?N1(d \<mapsto> Regular ?i)" let ?N3 = "?N2(e := None)"
  have ne: "e \<noteq> d" using tmp_entry_fresh [OF tmp(1) final(1)] .
  have st: "calm ?D ?N st" using calm by (simp add: calm_def)
  have entry: "entry_of u p = entry_of st p" if "calm ?D M u" for u p M using that st by (simp add: calm_entry)
  have chmod: "\<exists>v. (if has_fchmod then sys_fchmod i OWNER_ONLY else oret () :: unit idm) u = (Inr (), v) \<and> calm ?D ?N1 v" if "calm ?D ?N1 u" for u i
    using that calm_quiet(3) [OF that] by (simp add: oret_def)
  have fill: "\<exists>v. fill_file has_fchmod i body u = (Inr (), v) \<and> calm ?D ?N1 v" if "calm ?D ?N1 u" for u i
    unfolding fill_file_def
    by (rule calm_finally, rule calm_bind, rule chmod [OF that], rule calm_bind, erule calm_write_all, erule calm_quiet(1), erule calm_quiet(2))
  have pub: "\<exists>v. publish ?tmp final u = (Inr (), v) \<and> calm ?D ?N2 v" if "calm ?D ?N1 u" for u
    by (rule calm_publish [where e = e, OF that]) (use ne final tmp in \<open>simp_all add: entry [OF that]\<close>)
  have disc: "\<exists>v. discard ?tmp u = (Inr (), v) \<and> calm ?D ?N3 v" if "calm ?D ?N2 u" for u
    by (rule calm_discard [OF that]) (use ne tmp in \<open>simp_all add: entry [OF that]\<close>)
  have sync: "\<exists>v. fsync_dir posix (dirname (abspath cwd final)) u = (Inr (), v) \<and> calm ?D ?N3 v" if "calm ?D ?N3 u" for u
  proof (cases posix)
    case True
    have "\<exists>v. (sys_open_dir (dirname (abspath cwd final)) :: nat idm) u = (Inr x, v) \<and> calm ?D ?N3 v"
      using that dir by (auto simp: sys_open_dir_def calm_def syscall_def Let_def)
    with True show ?thesis unfolding fsync_dir_def
      by (simp only: not_True_eq_False if_False) (erule calm_bind, rule calm_finally, erule calm_quiet(1), erule calm_quiet(2))
  qed (use that in \<open>auto simp: fsync_dir_def oret_def\<close>)
  have "\<exists>v. write_out has_fchmod posix cwd salt final body aid st = (Inr (final, aid), v) \<and> calm ?D ?N3 v"
    unfolding write_out_def Let_def
    by (rule calm_bind, rule calm_catch, rule calm_create [OF st tmp], rule calm_bind, rule calm_finally, rule calm_bind,
        erule fill, erule pub, erule disc, rule calm_bind, erule sync) (simp add: oret_def)
  moreover have "create_identity_file ed has_fchmod posix cwd seed salt final agent_id tenant endpoint = write_out has_fchmod posix cwd salt final body aid"
    using w by (auto simp: to_write_def create_identity_file_def nonempty_str_def write_out_def Let_def)
  ultimately show ?thesis by (auto simp: calm_def)
qed

section \<open>Examples\<close>

definition with_files :: "(entry \<Rightarrow> node option) \<Rightarrow> bytes \<Rightarrow> os" where
  "with_files names body =
     \<lparr>os_fs = \<lparr>fs_names = names, fs_inodes = (\<lambda>i. \<lparr>f_mode = OWNER_ONLY, f_data = body\<rparr>), fs_next = 1\<rparr>,
      os_dir = (\<lambda>p. Some 0), os_umask = 0, os_faults = [], os_chunks = [], os_trace = []\<rparr>"

lemma example_entry: "basename p \<noteq> [] \<Longrightarrow> entry_of (with_files names body) p = Some (0, basename p)"
  by (simp add: entry_of_def with_files_def)

lemma example_name: "basename (ustr ''id'') = ustr ''id''" "ustr ''id'' \<noteq> []"
  by (simp_all add: basename_def ustr_def)

lemma example_keys: "ed25519_keys example_ed"
  by (auto simp: ed25519_keys_def example_ed_def)

lemma example_texts: "proper_text (ustr ''a'')" "ustr ''a'' \<noteq> []"
  by (auto simp: ustr_def intro!: proper_ascii)

theorem create_then_load_witness:
  "\<exists>st' st1 st2. create_identity_file example_ed True True [47] (replicate 32 7) [1] (ustr ''id'') (VStr (ustr ''a'')) (VStr (ustr ''a'')) (VStr (ustr ''a''))
       (with_files (\<lambda>e. None) []) = (Inr (ustr ''id'', aid_from_pubkey (replicate 32 7)), st') \<and>
     load_identity_file example_ed 1 (\<lambda>v. []) [] (Some (ustr ''id'')) st' =
       (Inr \<lparr>li_agent = \<lparr>ag_seed = replicate 32 7\<rparr>, li_agent_id = ustr ''a'', li_tenant = ustr ''a'', li_endpoint = ustr ''a''\<rparr>, st1) \<and>
     load_identity_facts example_ed 1 (\<lambda>v. []) [] (Some (ustr ''id'')) st' =
       (Inr \<lparr>if_agent_id = ustr ''a'', if_tenant = ustr ''a'', if_endpoint = ustr ''a'', if_aid = aid_from_pubkey (replicate 32 7)\<rparr>, st2)"
proof -
  let ?st = "with_files (\<lambda>e. None) []" and ?a = "ustr ''a''" and ?k = "replicate 32 7 :: bytes"
  have w: "to_write example_ed ?k (VStr ?a) (VStr ?a) (VStr ?a) (dumps_bytes (Indent 2) (identity_doc ?k ?a ?a ?a (aid_from_pubkey ?k)) @ [10]) (aid_from_pubkey ?k)"
    using example_texts(2) by (simp add: to_write_def new_agent_def agent_aid_def example_ed_def identity_file_body_def)
  have entry: "entry_of ?st (ustr ''id'') = Some (0, ustr ''id'')" using example_entry [of "ustr ''id''"] by (simp add: example_name)
  have tmp: "entry_of ?st (tmp_path [47] [1] (ustr ''id'')) = Some (0, basename (tmp_path [47] [1] (ustr ''id'')))"
    by (rule example_entry) (simp add: basename_tmp)
  have calm: "os_faults ?st = []" "fs_names (os_fs ?st) e = None" "os_dir ?st p = Some 0" for e p by (simp_all add: with_files_def)
  from create_succeeds [OF w calm(1) entry calm(2) tmp calm(2) calm(3)] obtain u where
    u: "create_identity_file example_ed True True [47] ?k [1] (ustr ''id'') (VStr ?a) (VStr ?a) (VStr ?a) ?st = (Inr (ustr ''id'', aid_from_pubkey ?k), u)"
      "os_faults u = []" by blast
  from create_then_load [where depth = 1, OF example_keys u(1) entry u(2) order_refl example_texts(1) example_texts(1) example_texts(1)] u(1)
  show ?thesis by blast
qed


end
