(* ===== verification/Sha256_Vector.thy ===== *)
theory Sha256_Vector
  imports Sha256
begin

text \<open>
  A check of the transcription of SHA-256 against a published vector of the algorithm, by
  evaluation in the kernel. It is a theory of its own because it takes about a minute.
\<close>

lemma sha256_abc:
  "sha256 [0x61, 0x62, 0x63] =
    [186, 120, 22, 191, 143, 1, 207, 234, 65, 65, 64, 222, 93, 174, 34, 35, 176, 3, 97, 163, 150,
     23, 122, 156, 180, 16, 255, 97, 242, 0, 21, 173]"
  by code_simp

end
