(* ===== verification/Spec2Isabelle.thy ===== *)
theory Spec2Isabelle
  imports Tct Retry Ids Tenant Outcome Decoders Jcs Verbs Tickets Coalescing Advice Decisions Aio Identity
    Sha256_Vector
begin

text \<open>
  A verification development of the Seam SDK for Python (\<open>src/python/seam_sdk\<close>): the client library
  with which agents are admitted to a Seam server, run decisions, ask for advice and check, without
  trusting the server, what it sealed.

  \<^bold>\<open>The program.\<close> \<open>crypto.py\<close> holds the pure code: encodings, the payloads agents sign, the digests of
  sealed records, and the verifiers of tokens and attestations. \<open>errors.py\<close> turns raw gRPC errors into
  typed ones; \<open>retry.py\<close> decides on them. \<open>ids.py\<close>, \<open>_outcome.py\<close>, \<open>_collective.py\<close>, \<open>_policy.py\<close> and
  \<open>_seal.py\<close> check what goes out and decode what comes in; \<open>tenant.py\<close> adds the routing header.
  \<open>_authorize.py\<close> holds the ticket cache and the signed advisory request. \<open>client.py\<close> composes these into
  a blocking client that several threads may share, \<open>aio.py\<close> into an asynchronous one.

  \<^bold>\<open>The model.\<close> Python \<open>str\<close> is a list of code points and \<open>bytes\<close> a list of 8-bit words; a value whose
  type the code checks at run time is a \<open>pyval\<close>. A double is its 64-bit pattern. A function that
  raises returns a sum, \<open>Inl\<close> the exception. A client method is an action on the client, the world and
  the log of calls. Ed25519, the generated message classes and the server are not part of the sources:
  Ed25519 is the record \<open>ed25519\<close> with the hypothesis \<open>ed25519_correct\<close> where a signature has to verify,
  a message is its name and fields, and the server with its clocks is a \<open>runtime\<close>, which may answer
  anything. SHA-256 is written out; theorems about digests end in equality or an explicit collision.

  \<^bold>\<open>The theories.\<close>

  \<^item> \<open>Prelude\<close>, \<open>Unicode\<close>, \<open>Codecs\<close>, \<open>Pyval\<close>, \<open>Floats\<close>, \<open>Repr\<close>, \<open>Sha256\<close>, \<open>Sha256_Vector\<close>: Python's
    exceptions, UTF-8, base64url and hex, run-time type checks, double arithmetic, \<open>repr\<close> of a float,
    the hash. The locales \<open>partial_codec\<close>, \<open>codec\<close> and \<open>self_delimiting\<close> state what an encoding promises.
  \<^item> \<open>Framing\<close>: \<open>_frame\<close>, \<open>_be64_frame\<close> and the optional slots; every one is self-delimiting, which is
    what the binding theorems rest on.
  \<^item> \<open>Credentials\<close>: \<open>derived_uuid\<close>, \<open>build_presentation\<close>, \<open>call_sig\<close>, \<open>call_sig_v3\<close>, \<open>request_sig\<close>,
    \<open>enroll_pop\<close>. Each payload binds its fields, the four never coincide, and what is signed verifies.
  \<^item> \<open>Record_Digest\<close>: \<open>record_digest_v4\<close>, \<open>participants_digest_v4\<close>, \<open>context_digest_v4\<close>. Which records
    have a digest, which are refused and why, and that a digest binds every slot.
  \<^item> \<open>Attestation\<close>: \<open>verify_chain_head_attestation\<close>; when it says \<open>True\<close>, and when it raises.
  \<^item> \<open>Commitment\<close>, \<open>Json\<close>, \<open>Json_Print\<close>, \<open>Tct\<close>: \<open>explanation_digest\<close>, \<open>seam_commitment_digest\<close>, the
    JSON reader with the duplicate-key hook, \<open>verify_tct\<close>. A token vouches for one commitment, expires
    once and for all, and is accepted before then when honestly made.
  \<^item> \<open>Jcs\<close>: \<open>jcs_canonicalize\<close> and \<open>tool_input_digest\<close>; canonical bytes read back as the value.
  \<^item> \<open>Errors\<close>, \<open>Retry\<close>: the protobuf reader of error details, the typed errors, both retry loops.
  \<^item> \<open>Ids\<close>, \<open>Tenant\<close>, \<open>Outcome\<close>, \<open>Decoders\<close>: identifiers, interceptors, outcome fields, decoders.
  \<^item> \<open>Wire\<close>, \<open>Authorize\<close>, \<open>Client\<close>, \<open>Verbs\<close>: messages and the runtime, the ticket cache (\<open>TicketCache\<close>,
    the locale \<open>admission_cache\<close>), the ticket lifecycle and the credentialed calls of \<open>SeamClient\<close>, and
    every verb as the request it builds and the rule by which it is sent.
  \<^item> \<open>Tickets\<close>: the clients that can be reached, and that their caches are well formed and kept apart
    by agent (the locale \<open>client_relation\<close>).
  \<^item> \<open>Coalescing\<close>: threads that share a client, as interleaved steps; the regions under the per-agent
    lock are atomic. Admissions are bounded by the tickets that were refused.
  \<^item> \<open>Advice\<close>, \<open>Decisions\<close>: \<open>authorize\<close> and \<open>verify_decision\<close> from end to end.
  \<^item> \<open>Aio\<close>: the asynchronous client as coroutines that may be cancelled at any await. Left alone each
    does what its blocking twin does; cancelled anywhere, the caches stay consistent.
  \<^item> \<open>Files\<close>, \<open>Identity\<close>: paths and a file system whose calls may fail, with program rules for what holds
    of every file system on the way; \<open>create_identity_file\<close>, \<open>load_identity_file\<close>, \<open>load_identity_facts\<close>.
    A creation never clobbers and is never seen half done; both loaders read it back and refuse alike.

  \<^bold>\<open>Bounds and fuel.\<close> The JSON reader and \<open>jcs_canonicalize\<close> take the depth at which the interpreter
  raises \<open>RecursionError\<close> as an argument; theorems that a value is read state how deep it may be. The
  retry loop recurses on the attempts left and the protobuf reader on the bytes left, so both are
  total. A cancellation is the number of awaits that still complete.

  \<^bold>\<open>Not modelled.\<close> Channels (construction, TLS, closing), pickling of errors, the wrapper that maps
  errors of server streams, the texts of most exception messages, and
  the proofs of the management plane (\<open>dpop.py\<close>) and the management client (\<open>admin.py\<close>). The scripts of
  the repository check its own files, and the Go, Java, Kotlin, TypeScript and Rust code restates parts
  of the Python code.
\<close>

end
